(* ===== verification/Prelude.thy ===== *)
theory Prelude
  imports Main "HOL-Library.Word"
begin

text \<open>
  Shared vocabulary of the development: Go's \<open>int64\<close> arithmetic with its wrap-around,
  SQL tables as lists of rows with the statements the Go code issues against them, and the
  string operations of the Go standard library that the components use.
\<close>

named_theorems i64_simps
named_theorems sql_simps
named_theorems str_simps

section \<open>Identifiers, results\<close>

type_synonym id64 = int
type_synonym unix_time = int

section \<open>Go int64\<close>

text \<open>
  An \<open>int64\<close> is an \<open>int\<close> in the range \<open>in64\<close>. Every addition and
  subtraction the code performs on one is followed by \<open>wrap64\<close>, which is two's complement
  wrap-around (\<open>wrap64_word\<close> relates it to the library's 64-bit words).
\<close>

definition max_int64 :: int where
  "max_int64 = 9223372036854775807"

definition min_int64 :: int where
  "min_int64 = -9223372036854775808"

definition in64 :: "int \<Rightarrow> bool" where
  "in64 x \<longleftrightarrow> min_int64 \<le> x \<and> x \<le> max_int64"

definition wrap64 :: "int \<Rightarrow> int" where
  "wrap64 x = (x + 9223372036854775808) mod 18446744073709551616 - 9223372036854775808"

definition add64 :: "int \<Rightarrow> int \<Rightarrow> int" where
  "add64 a b = wrap64 (a + b)"

definition sub64 :: "int \<Rightarrow> int \<Rightarrow> int" where
  "sub64 a b = wrap64 (a - b)"

definition mul64 :: "int \<Rightarrow> int \<Rightarrow> int" where
  "mul64 a b = wrap64 (a * b)"

definition neg64 :: "int \<Rightarrow> int" where
  "neg64 a = wrap64 (- a)"

text \<open>Go's integer division truncates towards zero.\<close>

definition quot64 :: "int \<Rightarrow> int \<Rightarrow> int" where
  "quot64 a b = wrap64 (sgn a * sgn b * (\<bar>a\<bar> div \<bar>b\<bar>))"

definition rem64 :: "int \<Rightarrow> int \<Rightarrow> int" where
  "rem64 a b = sgn a * (\<bar>a\<bar> mod \<bar>b\<bar>)"

lemmas int64_bounds = max_int64_def min_int64_def in64_def

lemma wrap64_id [i64_simps]: "in64 x \<Longrightarrow> wrap64 x = x"
  by (simp add: wrap64_def int64_bounds)

lemma in64_wrap64 [simp]: "in64 (wrap64 x)"
proof -
  have "0 \<le> (x + 9223372036854775808) mod 18446744073709551616"
    and "(x + 9223372036854775808) mod 18446744073709551616 < 18446744073709551616"
    by simp_all
  then show ?thesis unfolding wrap64_def int64_bounds by linarith
qed

lemma wrap64_word: "wrap64 x = sint (word_of_int x :: 64 word)"
  by (simp add: wrap64_def signed_take_bit_eq_take_bit_shift take_bit_eq_mod
      sint_sbintrunc' signed_take_bit_eq_take_bit_minus)

lemma add64_exact [i64_simps]: "in64 (a + b) \<Longrightarrow> add64 a b = a + b"
  by (simp add: add64_def wrap64_id)

lemma sub64_exact [i64_simps]: "in64 (a - b) \<Longrightarrow> sub64 a b = a - b"
  by (simp add: sub64_def wrap64_id)

lemma mul64_exact [i64_simps]: "in64 (a * b) \<Longrightarrow> mul64 a b = a * b"
  by (simp add: mul64_def wrap64_id)

lemma neg64_exact [i64_simps]: "in64 (- a) \<Longrightarrow> neg64 a = - a"
  by (simp add: neg64_def wrap64_id)

lemma sub64_nonneg:
  assumes "0 \<le> a" "a \<le> max_int64" "0 \<le> b" "b \<le> max_int64"
  shows "sub64 a b = a - b"
  using assms by (intro sub64_exact) (simp add: int64_bounds)

lemma quot64_pos:
  assumes "0 \<le> a" "a \<le> max_int64" "0 < b"
  shows "quot64 a b = a div b"
proof -
  have "a div b \<le> a"
    using assms by (metis div_by_1 int_one_le_iff_zero_less zdiv_mono2 zero_less_one)
  moreover have "0 \<le> a div b"
    using assms by (simp add: pos_imp_zdiv_nonneg_iff)
  ultimately have "in64 (a div b)"
    using assms by (simp add: int64_bounds)
  then show ?thesis
    using assms by (cases "a = 0") (simp_all add: quot64_def wrap64_id)
qed

lemma rem64_pos: "0 \<le> a \<Longrightarrow> 0 < b \<Longrightarrow> rem64 a b = a mod b"
  by (cases "a = 0") (simp_all add: rem64_def)

section \<open>SQL tables\<close>

text \<open>
  A table is the list of its rows in rowid order. \<open>sql_first\<close> is \<open>QueryRow\<close>
  (\<open>None\<close> is \<open>sql.ErrNoRows\<close>), \<open>sql_update\<close> and \<open>sql_delete\<close> are
  \<open>UPDATE \<dots> WHERE\<close> and \<open>DELETE \<dots> WHERE\<close>, \<open>sql_count\<close> is
  \<open>SELECT COUNT(*)\<close> and also the affected-row count the driver reports.
\<close>

definition sql_update :: "('r \<Rightarrow> bool) \<Rightarrow> ('r \<Rightarrow> 'r) \<Rightarrow> 'r list \<Rightarrow> 'r list" where
  "sql_update P f t = map (\<lambda>r. if P r then f r else r) t"

definition sql_delete :: "('r \<Rightarrow> bool) \<Rightarrow> 'r list \<Rightarrow> 'r list" where
  "sql_delete P t = filter (\<lambda>r. \<not> P r) t"

definition sql_count :: "('r \<Rightarrow> bool) \<Rightarrow> 'r list \<Rightarrow> nat" where
  "sql_count P t = length (filter P t)"

definition sql_first :: "('r \<Rightarrow> bool) \<Rightarrow> 'r list \<Rightarrow> 'r option" where
  "sql_first P t = find P t"

definition sql_exists :: "('r \<Rightarrow> bool) \<Rightarrow> 'r list \<Rightarrow> bool" where
  "sql_exists P t = list_ex P t"

text \<open>A loop whose body may return an error: the first error ends it.\<close>

fun fold_result :: "('a \<Rightarrow> 's \<Rightarrow> 'e + 's) \<Rightarrow> 'a list \<Rightarrow> 's \<Rightarrow> 'e + 's" where
  "fold_result f [] s = Inr s"
| "fold_result f (x # xs) s = (case f x s of Inl e \<Rightarrow> Inl e | Inr s' \<Rightarrow> fold_result f xs s')"

lemma fold_result_append:
  "fold_result f (xs @ ys) s = (case fold_result f xs s of Inl e \<Rightarrow> Inl e | Inr s' \<Rightarrow> fold_result f ys s')"
  by (induction xs arbitrary: s) (auto split: sum.splits)

lemma fold_result_inv:
  assumes "fold_result f xs s = Inr s'" "P s" "\<And>x s s'. x \<in> set xs \<Longrightarrow> P s \<Longrightarrow> f x s = Inr s' \<Longrightarrow> P s'"
  shows "P s'"
  using assms
proof (induction xs arbitrary: s)
  case (Cons x xs)
  from Cons.prems(1) obtain s1 where "f x s = Inr s1" "fold_result f xs s1 = Inr s'"
    by (auto split: sum.splits)
  then show ?case
    using Cons.IH [of s1] Cons.prems(2,3) by (metis list.set_intros)
qed simp

lemma sql_first_NoneD: "sql_first P t = None \<Longrightarrow> r \<in> set t \<Longrightarrow> \<not> P r"
  by (auto simp: sql_first_def find_None_iff)

lemma sql_first_None_iff [sql_simps]: "sql_first P t = None \<longleftrightarrow> (\<forall>r \<in> set t. \<not> P r)"
  by (auto simp: sql_first_def find_None_iff)

lemma sql_first_SomeD: "sql_first P t = Some r \<Longrightarrow> r \<in> set t \<and> P r"
  by (auto simp: sql_first_def find_Some_iff)

lemma sql_exists_iff [sql_simps]: "sql_exists P t \<longleftrightarrow> (\<exists>r \<in> set t. P r)"
  by (simp add: sql_exists_def list_ex_iff)

lemma sql_count_zero_iff [sql_simps]: "sql_count P t = 0 \<longleftrightarrow> (\<forall>r \<in> set t. \<not> P r)"
  by (induction t) (auto simp: sql_count_def)

lemma sql_first_update:
  assumes "\<And>r. P r \<Longrightarrow> Q (f r) = Q r"
  shows "sql_first Q (sql_update P f t) = map_option (\<lambda>r. if P r then f r else r) (sql_first Q t)"
  using assms by (induction t) (auto simp: sql_first_def sql_update_def)

lemma set_sql_update: "set (sql_update P f t) = (\<lambda>r. if P r then f r else r) ` set t"
  by (simp add: sql_update_def)

lemma sql_update_keeps: "r \<in> set t \<Longrightarrow> \<not> P r \<Longrightarrow> r \<in> set (sql_update P f t)"
  by (force simp: sql_update_def)

lemma sql_update_all:
  "(\<And>r. r \<in> set t \<Longrightarrow> \<not> P r \<Longrightarrow> Q r) \<Longrightarrow> (\<And>r. r \<in> set t \<Longrightarrow> P r \<Longrightarrow> Q (f r)) \<Longrightarrow>
    \<forall>r \<in> set (sql_update P f t). Q r"
  by (auto simp: sql_update_def)

lemma set_sql_delete [sql_simps]: "set (sql_delete P t) = {r \<in> set t. \<not> P r}"
  by (simp add: sql_delete_def)

lemma map_sql_update_key [sql_simps]:
  "(\<And>r. P r \<Longrightarrow> key (f r) = key r) \<Longrightarrow> map key (sql_update P f t) = map key t"
  by (simp add: sql_update_def)

lemma distinct_sql_delete: "distinct (map key t) \<Longrightarrow> distinct (map key (sql_delete P t))"
  by (simp add: sql_delete_def distinct_map_filter)

lemma sql_update_none: "(\<And>r. r \<in> set t \<Longrightarrow> \<not> P r) \<Longrightarrow> sql_update P f t = t"
  by (induction t) (auto simp: sql_update_def)

text \<open>\<open>INSERT \<dots> ON CONFLICT(key) DO UPDATE\<close>.\<close>

definition sql_upsert :: "('r \<Rightarrow> bool) \<Rightarrow> 'r \<Rightarrow> ('r \<Rightarrow> 'r) \<Rightarrow> 'r list \<Rightarrow> 'r list" where
  "sql_upsert P ins f t = (if sql_exists P t then sql_update P f t else t @ [ins])"

lemma sql_first_update_same:
  assumes "\<And>r. P r \<Longrightarrow> P (f r)"
  shows "sql_first P (sql_update P f t) = map_option f (sql_first P t)"
  using assms by (induction t) (auto simp: sql_first_def sql_update_def)

lemma sql_first_append:
  "sql_first P (t @ u) = (case sql_first P t of None \<Rightarrow> sql_first P u | Some r \<Rightarrow> Some r)"
  by (induction t) (auto simp: sql_first_def)

lemma sql_first_upsert [sql_simps]:
  assumes "P ins" "\<And>r. P r \<Longrightarrow> P (f r)"
  shows "sql_first P (sql_upsert P ins f t) =
    Some (case sql_first P t of None \<Rightarrow> ins | Some r \<Rightarrow> f r)"
proof (cases "sql_first P t")
  case None
  then show ?thesis
    using assms(1) sql_first_None_iff [of P t] sql_exists_iff [of P t]
    by (simp add: sql_upsert_def sql_first_append) (simp add: sql_first_def)
next
  case (Some r)
  then have "sql_exists P t"
    using sql_first_SomeD [OF Some] by (auto simp: sql_exists_iff)
  with Some show ?thesis
    by (simp add: sql_upsert_def sql_first_update_same assms(2))
qed

text \<open>A row with another key is not affected.\<close>

lemma sql_first_update_other:
  assumes "\<And>r. key (f r) = key r" "\<And>r. P r \<Longrightarrow> key r \<noteq> k"
  shows "sql_first (\<lambda>r. key r = k) (sql_update P f t) = sql_first (\<lambda>r. key r = k) t"
  using assms by (induction t) (auto simp: sql_first_def sql_update_def)

lemma sql_first_upsert_other:
  assumes "k \<noteq> k'" "key ins = k'"
  shows "sql_first (\<lambda>r. key r = k) (sql_upsert (\<lambda>r. key r = k') ins (\<lambda>_. ins) t) = sql_first (\<lambda>r. key r = k) t"
proof -
  have "sql_first (\<lambda>r. key r = k) (sql_update (\<lambda>r. key r = k') (\<lambda>_. ins) t) = sql_first (\<lambda>r. key r = k) t"
    using assms by (induction t) (auto simp: sql_first_def sql_update_def)
  moreover have "sql_first (\<lambda>r. key r = k) (t @ [ins]) = sql_first (\<lambda>r. key r = k) t"
    using assms by (induction t) (auto simp: sql_first_def)
  ultimately show ?thesis
    by (simp add: sql_upsert_def)
qed

lemma sql_upsert_all:
  assumes "\<And>r. r \<in> set t \<Longrightarrow> \<not> P r \<Longrightarrow> Q r" "\<And>r. r \<in> set t \<Longrightarrow> P r \<Longrightarrow> Q (f r)" "Q ins"
  shows "\<forall>r \<in> set (sql_upsert P ins f t). Q r"
  using assms sql_update_all [of t P Q f] by (auto simp: sql_upsert_def sql_exists_iff)

lemma distinct_sql_upsert':
  assumes "distinct (map key t)" "key ins = k"
  shows "distinct (map key (sql_upsert (\<lambda>r. key r = k) ins (\<lambda>_. ins) t))"
proof (cases "sql_exists (\<lambda>r. key r = k) t")
  case True
  have "map key (sql_update (\<lambda>r. key r = k) (\<lambda>_. ins) t) = map key t"
    using assms(2) by (simp add: sql_update_def)
  with True assms(1) show ?thesis
    by (simp add: sql_upsert_def)
next
  case False
  then show ?thesis
    using assms by (auto simp: sql_upsert_def sql_exists_iff)
qed

lemma distinct_sql_upsert:
  assumes "distinct (map key t)" "\<And>r. P r \<longleftrightarrow> key r = k" "key ins = k" "\<And>r. key (f r) = key r"
  shows "distinct (map key (sql_upsert P ins f t))"
  using assms by (auto simp: sql_upsert_def sql_exists_iff map_sql_update_key)

lemma distinct_key_unique:
  "distinct (map key t) \<Longrightarrow> r \<in> set t \<Longrightarrow> r' \<in> set t \<Longrightarrow> key r = key r' \<Longrightarrow> r = r'"
  by (induction t) (auto simp: image_iff)

lemma sql_first_key:
  assumes "distinct (map key t)" "r \<in> set t" "key r = k"
  shows "sql_first (\<lambda>x. key x = k) t = Some r"
  using assms by (induction t) (auto simp: sql_first_def)

text \<open>An update through a key changes the one row found there.\<close>

lemma sql_update_key:
  assumes "distinct (map key t)" "sql_first (\<lambda>r. key r = k) t = Some m"
  shows "sql_update (\<lambda>r. key r = k) f t = sql_update (\<lambda>r. key r = k) (\<lambda>_. f m) t"
proof -
  have m: "m \<in> set t" "key m = k"
    using sql_first_SomeD [OF assms(2)] by simp_all
  have "(if key r = k then f r else r) = (if key r = k then f m else r)" if r: "r \<in> set t" for r
  proof (cases "key r = k")
    case True
    then have "r = m"
      using distinct_key_unique [OF assms(1) r m(1)] m(2) by simp
    then show ?thesis by simp
  qed simp
  then show ?thesis
    by (simp add: sql_update_def)
qed

lemma sql_update_id:
  assumes "\<And>r. r \<in> set t \<Longrightarrow> P r \<Longrightarrow> f r = r"
  shows "sql_update P f t = t"
  using assms by (induction t) (auto simp: sql_update_def)

lemma sql_upsert_Some: "sql_first P t = Some m \<Longrightarrow> sql_upsert P ins f t = sql_update P f t"
  using sql_first_SomeD [of P t m] by (auto simp: sql_upsert_def sql_exists_iff)

lemma sql_upsert_None: "sql_first P t = None \<Longrightarrow> sql_upsert P ins f t = t @ [ins]"
  by (auto simp: sql_upsert_def sql_exists_iff sql_first_None_iff)

lemma sql_count_key:
  assumes "distinct (map key t)" "r \<in> set t" "P r" "\<And>x. P x \<Longrightarrow> key x = key r"
  shows "sql_count P t = 1"
proof -
  have "filter P t = [r]"
    using assms
  proof (induction t)
    case (Cons x t)
    show ?case
    proof (cases "x = r")
      case True
      have "\<not> P y" if y: "y \<in> set t" for y
      proof
        assume "P y"
        then have "key r \<in> key ` set t"
          using Cons.prems(4) [of y] y by (metis imageI)
        with True Cons.prems(1) show False by simp
      qed
      then have "filter P t = []"
        by (simp only: filter_empty_conv) blast
      with True Cons.prems(3) show ?thesis by simp
    next
      case False
      then have r: "r \<in> set t"
        using Cons.prems(2) by simp
      moreover have "\<not> P x"
      proof
        assume "P x"
        then have "key x \<in> key ` set t"
          using Cons.prems(4) [of x] r by (metis imageI)
        with Cons.prems(1) show False by simp
      qed
      moreover have "filter P t = [r]"
        using Cons.prems(1) by (intro Cons.IH r Cons.prems(3,4)) simp_all
      ultimately show ?thesis by simp
    qed
  qed simp
  then show ?thesis by (simp add: sql_count_def)
qed

lemma sql_first_pred_key:
  assumes "distinct (map key t)" "r \<in> set t" "P r" "\<And>x. P x \<Longrightarrow> key x = key r"
  shows "sql_first P t = Some r"
proof -
  obtain x where x: "sql_first P t = Some x"
    using assms(2,3) by (cases "sql_first P t") (auto simp: sql_first_None_iff)
  then have "x \<in> set t" "key x = key r"
    using sql_first_SomeD [OF x] assms(4) by auto
  then have "x = r"
    using distinct_key_unique [OF assms(1)] assms(2) by blast
  with x show ?thesis by simp
qed

lemma find_filter_key:
  assumes "distinct (map key t)" "r \<in> set t"
  shows "find (\<lambda>c. key c = key r) (filter P t) = (if P r then Some r else None)"
  using assms by (induction t) (auto simp: find_None_iff, metis imageI)

lemma find_key_None: "k \<notin> key ` set us \<Longrightarrow> find (\<lambda>u. key u = k) us = None"
  by (induction us) auto

section \<open>Strings of the Go standard library\<close>

text \<open>
  A Go string is its bytes. \<open>strings.TrimSpace\<close> removes the UTF-8 encodings of the
  code points with the White\_Space property at both ends.
\<close>

definition space_encodings :: "string list" where
  "space_encodings =
    [[CHR 0x09], [CHR 0x0A], [CHR 0x0B], [CHR 0x0C], [CHR 0x0D], [CHR 0x20],
     [CHR 0xC2, CHR 0x85], [CHR 0xC2, CHR 0xA0], [CHR 0xE1, CHR 0x9A, CHR 0x80],
     [CHR 0xE2, CHR 0x80, CHR 0x80], [CHR 0xE2, CHR 0x80, CHR 0x81],
     [CHR 0xE2, CHR 0x80, CHR 0x82], [CHR 0xE2, CHR 0x80, CHR 0x83],
     [CHR 0xE2, CHR 0x80, CHR 0x84], [CHR 0xE2, CHR 0x80, CHR 0x85],
     [CHR 0xE2, CHR 0x80, CHR 0x86], [CHR 0xE2, CHR 0x80, CHR 0x87],
     [CHR 0xE2, CHR 0x80, CHR 0x88], [CHR 0xE2, CHR 0x80, CHR 0x89],
     [CHR 0xE2, CHR 0x80, CHR 0x8A], [CHR 0xE2, CHR 0x80, CHR 0xA8],
     [CHR 0xE2, CHR 0x80, CHR 0xA9], [CHR 0xE2, CHR 0x80, CHR 0xAF],
     [CHR 0xE2, CHR 0x81, CHR 0x9F], [CHR 0xE3, CHR 0x80, CHR 0x80]]"

definition strip_prefix :: "string list \<Rightarrow> string \<Rightarrow> string option" where
  "strip_prefix ps s = map_option (\<lambda>p. drop (length p) s)
     (find (\<lambda>p. p \<noteq> [] \<and> take (length p) s = p) ps)"

lemma strip_prefix_shorter:
  assumes "strip_prefix ps s = Some s'"
  shows "length s' < length s"
proof -
  from assms obtain p where p: "p \<noteq> []" "take (length p) s = p" "s' = drop (length p) s"
    by (auto simp: strip_prefix_def find_Some_iff)
  then have "length p \<le> length s"
    by (metis length_take min.cobounded1)
  moreover have "0 < length p"
    using p(1) by simp
  moreover have "length s' = length s - length p"
    using p(3) by simp
  ultimately show ?thesis
    by linarith
qed

function trim_left_by :: "string list \<Rightarrow> string \<Rightarrow> string" where
  "trim_left_by ps s = (case strip_prefix ps s of None \<Rightarrow> s | Some s' \<Rightarrow> trim_left_by ps s')"
  by pat_completeness auto
termination
  by (relation "measure (\<lambda>(ps, s). length s)") (auto dest: strip_prefix_shorter)

declare trim_left_by.simps [simp del]

definition trim_space :: "string \<Rightarrow> string" where
  "trim_space s =
     rev (trim_left_by (map rev space_encodings) (rev (trim_left_by space_encodings s)))"

definition is_digit :: "char \<Rightarrow> bool" where
  "is_digit c \<longleftrightarrow> 48 \<le> (of_char c :: nat) \<and> (of_char c :: nat) \<le> 57"

definition digit_val :: "char \<Rightarrow> int" where
  "digit_val c = int (of_char c :: nat) - 48"

text \<open>Reading a computed run: the outcome as a case distinction.\<close>

lemma run_returns: "(case r of Inl _ \<Rightarrow> False | Inr y \<Rightarrow> P y) \<Longrightarrow> \<exists>y. r = Inr y \<and> P y"
  by (cases r) auto

end
