(* ===== verification/Tables.thy ===== *)
theory Tables
  imports Prelude Complex_Main
begin

text \<open>
  The SQLite schema (\<open>panel/internal/database/schema.go\<close>): one record per table, with
  the columns the modelled statements read or write, and \<open>panel_db\<close>, the database.
  Instants are Unix seconds. A nullable column is an \<open>option\<close>. An \<open>AUTOINCREMENT\<close>
  table has a sequence, the last id it handed out.
\<close>

record server_row =
  srv_id :: id64
  srv_name :: string
  srv_status :: string
  srv_visibility :: string
  srv_version :: int
  srv_decom_at :: "unix_time option"
  srv_decom_status :: string
  srv_decom_error :: string
  srv_archived_at :: "unix_time option"
  srv_expires_at :: "unix_time option"
  srv_period :: "int option"
  srv_auto_renew :: bool
  srv_anchor :: "int option"
  srv_limit :: "int option"
  srv_count_mode :: string
  srv_reset_day :: int
  srv_reset_time :: string
  srv_updated_at :: unix_time
  srv_created_role :: string
  srv_created_at :: unix_time
  srv_owner :: "id64 option"
  srv_creator :: "id64 option"
  srv_bandwidth :: "int option"
  srv_stack :: "string option"
  srv_domain4 :: string
  srv_domain6 :: string
  srv_outbound :: string
  srv_block_china :: bool

text \<open>
  \<open>server_metrics\<close>; the CPU, memory, disk and uptime columns are one gauge record. A
  \<open>float64\<close> is a rational or one of the values the code tests for (\<open>NaN\<close> and the two
  infinities).
\<close>

datatype go_float = FNaN | FInf bool | Finite rat

record gauges =
  g_cpu_percent :: go_float
  g_memory_used :: int
  g_memory_total :: int
  g_disk_used :: int
  g_disk_total :: int
  g_uptime :: int

record metrics_row =
  met_server_id :: id64
  met_gauges :: gauges
  met_nic_rx :: int
  met_nic_tx :: int
  met_cycle_rx :: int
  met_cycle_tx :: int
  met_adjustment :: int
  met_cycle_started :: "unix_time option"
  met_updated_at :: unix_time

record agent_row =
  agt_id :: id64
  agt_server_id :: id64
  agt_token_hash :: string
  agt_implementation :: string
  agt_version :: string
  agt_api_version :: int
  agt_capabilities :: "string list"
  agt_registered_at :: unix_time
  agt_last_seen_at :: "unix_time option"
  agt_applied_version :: int
  agt_sync_status :: string
  agt_sync_error :: string
  agt_synced_at :: "unix_time option"
  agt_upgrade_target :: string
  agt_upgrade_status :: string
  agt_upgrade_error :: string
  agt_updated_at :: unix_time

record enrollment_row =
  enr_id :: id64
  enr_server_id :: id64
  enr_token_hash :: string
  enr_purpose :: string
  enr_expires_at :: unix_time
  enr_used_at :: "unix_time option"
  enr_created_at :: unix_time

record operation_row =
  op_id :: id64
  op_server_id :: id64
  op_resource_type :: string
  op_resource_id :: id64
  op_action :: string
  op_version :: int
  op_status :: string
  op_error :: string
  op_created_at :: unix_time
  op_updated_at :: unix_time
  op_applied_at :: "unix_time option"

record client_row =
  cli_id :: id64
  cli_proxy_id :: id64
  cli_assigned_user :: "id64 option"
  cli_enabled :: bool
  cli_expires_at :: "unix_time option"
  cli_limit :: "int option"
  cli_reset_mode :: string
  cli_reset_weekday :: int
  cli_reset_day :: int
  cli_reset_time :: string
  cli_effective :: bool
  cli_updated_at :: unix_time
  cli_name :: string
  cli_credential :: string
  cli_udp443 :: bool
  cli_billing :: "int option"
  cli_created_at :: unix_time

record proxy_row =
  prx_id :: id64
  prx_server_id :: id64
  prx_listen_port :: int
  prx_enabled :: bool
  prx_name :: string
  prx_protocol :: string
  prx_created_at :: unix_time
  prx_family :: string
  prx_entry_mode :: string
  prx_entry_host :: string
  prx_config :: string
  prx_role :: string

record client_metrics_row =
  cm_client_id :: id64
  cm_xray_up :: int
  cm_xray_down :: int
  cm_cycle_up :: int
  cm_cycle_down :: int
  cm_cycle_started :: unix_time
  cm_last_activity :: "unix_time option"
  cm_updated_at :: unix_time

record subscriber_profile_row =
  sp_user_id :: id64
  sp_plan_id :: "id64 option"
  sp_enabled :: bool
  sp_expires_at :: "unix_time option"
  sp_reset_mode :: string
  sp_reset_day :: int
  sp_reset_time :: string
  sp_billing :: "int option"
  sp_token :: string

record subscriber_client_row =
  sc_user_id :: id64
  sc_proxy_id :: id64
  sc_client_id :: id64
  sc_charged_up :: int
  sc_charged_down :: int
  sc_rem_up :: int
  sc_rem_down :: int

record subscriber_usage_row =
  su_user_id :: id64
  su_archived_up :: int
  su_archived_down :: int
  su_cycle_started :: unix_time
  su_updated_at :: unix_time

record plan_node_row =
  pn_plan_id :: id64
  pn_node_id :: id64

record published_node_row =
  pub_id :: id64
  pub_target_proxy :: id64
  pub_multiplier :: int
  pub_mode :: string
  pub_source_server :: "id64 option"
  pub_enabled :: bool
  pub_created_at :: unix_time
  pub_relay :: "id64 option"

record server_access_row =
  acc_server_id :: id64
  acc_user_id :: id64

record plan_row =
  pln_id :: id64
  pln_enabled :: bool
  pln_limit :: "int option"

record relay_row =
  rel_id :: id64
  rel_server_id :: id64
  rel_owner :: "id64 option"
  rel_source_client :: "id64 option"
  rel_listen_port :: int
  rel_target_type :: string
  rel_target_proxy :: "id64 option"
  rel_target_client :: "id64 option"
  rel_target_landing :: "id64 option"
  rel_network :: string
  rel_created_at :: unix_time
  rel_name :: string
  rel_address :: string
  rel_entry_mode :: string
  rel_entry_host :: string
  rel_target_host :: string
  rel_target_port :: "int option"
  rel_enabled :: bool

record landing_row =
  lan_id :: id64
  lan_owner :: id64
  lan_visibility :: string
  lan_created_at :: unix_time
  lan_name :: string
  lan_protocol :: string
  lan_host :: string
  lan_port :: int
  lan_uri :: string
  lan_role :: string

record group_row =
  grp_id :: id64
  grp_owner :: id64
  grp_created_at :: unix_time
  grp_bindings :: "(string \<times> id64 list) list"

record personal_node_row =
  psn_id :: id64
  psn_group :: id64
  psn_source_type :: string
  psn_source :: id64
  psn_enabled :: bool

record probe_task_row =
  pbt_id :: id64
  pbt_name :: string
  pbt_type :: string
  pbt_target :: string
  pbt_port :: "int option"
  pbt_interval :: int
  pbt_enabled :: bool
  pbt_default_on :: bool
  pbt_created_at :: unix_time
  pbt_updated_at :: unix_time

record probe_server_row =
  pbs_task :: id64
  pbs_server :: id64

record probe_record_row =
  pbr_server :: id64
  pbr_task :: id64
  pbr_ts :: int
  pbr_outcome :: string
  pbr_latency :: "go_float option"

record system_info_row =
  sys_server :: id64
  sys_ipv6 :: "string list"
  sys_public6 :: string
  sys_public4 :: string

record relay_port_row =
  crp_client_id :: id64
  crp_server_id :: id64
  crp_port :: int
  crp_created_at :: unix_time

record reservation_row =
  res_id :: id64
  res_server_id :: id64
  res_type :: string
  res_resource_id :: id64
  res_port :: int
  res_network :: string
  res_created_at :: unix_time

record notification_state_row =
  ns_server_id :: id64
  ns_offline_started :: "unix_time option"
  ns_offline_notified :: "unix_time option"
  ns_cycle :: "unix_time option"
  ns_step :: int

text \<open>
  The seven order tables have the same columns; their kind selects the table.
\<close>

datatype list_kind = Servers | Proxies | Relays | Landings | Users | PersonalSubscriptions | PublishedNodes

record order_row =
  ord_user_id :: id64
  ord_resource_id :: id64
  ord_position :: int

text \<open>The tables of the accounts.\<close>

record user_row =
  usr_id :: id64
  usr_username :: string
  usr_password_hash :: string
  usr_role :: string
  usr_email :: "string option"
  usr_verified_at :: "unix_time option"
  usr_created_at :: unix_time
  usr_updated_at :: unix_time

record session_row =
  ses_user_id :: id64
  ses_token_hash :: string
  ses_expires_at :: unix_time
  ses_created_at :: unix_time

record invitation_row =
  inv_id :: id64
  inv_token_hash :: string
  inv_created_by :: id64
  inv_expires_at :: unix_time
  inv_used_at :: "unix_time option"
  inv_role :: string
  inv_created_at :: unix_time

record password_request_row =
  pwr_id :: id64
  pwr_user_id :: id64
  pwr_proposed :: "string option"
  pwr_status :: string
  pwr_reviewed_by :: "id64 option"
  pwr_created_at :: unix_time
  pwr_reviewed_at :: "unix_time option"

record account_token_row =
  tok_id :: id64
  tok_user_id :: id64
  tok_purpose :: string
  tok_target :: string
  tok_hash :: string
  tok_expires_at :: unix_time
  tok_used_at :: "unix_time option"
  tok_created_at :: unix_time

record accounts_db =
  users :: "user_row list"
  users_seq :: id64
  sessions :: "session_row list"
  invitations :: "invitation_row list"
  invitations_seq :: id64
  password_requests :: "password_request_row list"
  password_requests_seq :: id64
  account_tokens :: "account_token_row list"
  account_tokens_seq :: id64

record panel_db =
  servers :: "server_row list"
  server_access :: "server_access_row list"
  server_metrics :: "metrics_row list"
  agents :: "agent_row list"
  agents_seq :: id64
  enrollments :: "enrollment_row list"
  enrollments_seq :: id64
  operations :: "operation_row list"
  operations_seq :: id64
  proxies :: "proxy_row list"
  clients :: "client_row list"
  client_metrics :: "client_metrics_row list"
  subscriber_profiles :: "subscriber_profile_row list"
  subscriber_clients :: "subscriber_client_row list"
  subscriber_usage :: "subscriber_usage_row list"
  plan_nodes :: "plan_node_row list"
  published_nodes :: "published_node_row list"
  clients_seq :: id64
  plans :: "plan_row list"
  relays :: "relay_row list"
  landings :: "landing_row list"
  landings_seq :: id64
  personal_groups :: "group_row list"
  relay_ports :: "relay_port_row list"
  reservations :: "reservation_row list"
  reservations_seq :: id64
  notification_states :: "notification_state_row list"
  list_orders :: "list_kind \<Rightarrow> order_row list"
  accounts :: accounts_db
  servers_seq :: id64
  proxies_seq :: id64
  relays_seq :: id64
  personal_nodes :: "personal_node_row list"
  probe_tasks :: "probe_task_row list"
  probe_tasks_seq :: id64
  probe_servers :: "probe_server_row list"
  probe_records :: "probe_record_row list"
  system_infos :: "system_info_row list"

text \<open>The guard \<open>archived_at IS NULL\<close> with the row's id.\<close>

definition live_server :: "id64 \<Rightarrow> server_row \<Rightarrow> bool" where
  "live_server sid r \<longleftrightarrow> srv_id r = sid \<and> srv_archived_at r = None"

lemma live_server_iff [simp]: "live_server sid r \<longleftrightarrow> srv_id r = sid \<and> srv_archived_at r = None"
  by (simp add: live_server_def)

text \<open>The primary keys the schema enforces for the tables below.\<close>

definition keys_ok :: "panel_db \<Rightarrow> bool" where
  "keys_ok d \<longleftrightarrow> distinct (map srv_id (servers d)) \<and> distinct (map met_server_id (server_metrics d)) \<and>
     distinct (map agt_id (agents d)) \<and> distinct (map cli_id (clients d)) \<and>
     distinct (map prx_id (proxies d)) \<and> distinct (map cm_client_id (client_metrics d))"

text \<open>An empty database and a registered server without limits, for concrete runs.\<close>

definition empty_accounts :: accounts_db where
  "empty_accounts = \<lparr>users = [], users_seq = 0, sessions = [], invitations = [], invitations_seq = 0,
     password_requests = [], password_requests_seq = 0, account_tokens = [], account_tokens_seq = 0\<rparr>"

definition empty_db :: panel_db where
  "empty_db = \<lparr>servers = [], server_access = [], server_metrics = [], agents = [], agents_seq = 0, enrollments = [],
     enrollments_seq = 0, operations = [], operations_seq = 0, proxies = [], clients = [],
     client_metrics = [], subscriber_profiles = [], subscriber_clients = [], subscriber_usage = [],
     plan_nodes = [], published_nodes = [], clients_seq = 0, plans = [], relays = [], landings = [], landings_seq = 0,
     personal_groups = [], relay_ports = [], reservations = [], reservations_seq = 0, notification_states = [],
     list_orders = (\<lambda>_. []), accounts = empty_accounts, servers_seq = 0, proxies_seq = 0, relays_seq = 0,
     personal_nodes = [], probe_tasks = [], probe_tasks_seq = 0, probe_servers = [], probe_records = [], system_infos = []\<rparr>"

definition plain_server :: "id64 \<Rightarrow> server_row" where
  "plain_server sid = \<lparr>srv_id = sid, srv_name = ''vps'', srv_status = ''offline'',
     srv_visibility = ''public'', srv_version = 1, srv_decom_at = None, srv_decom_status = [],
     srv_decom_error = [], srv_archived_at = None, srv_expires_at = None, srv_period = None,
     srv_auto_renew = False, srv_anchor = None, srv_limit = None, srv_count_mode = ''single'',
     srv_reset_day = 1, srv_reset_time = ''00:00'', srv_updated_at = 0, srv_created_role = ''admin'',
     srv_created_at = 0, srv_owner = None, srv_creator = None, srv_bandwidth = None, srv_stack = None,
     srv_domain4 = [], srv_domain6 = [], srv_outbound = ''auto'', srv_block_china = False\<rparr>"

end
