(* ===== verification/GoTime.thy ===== *)
theory GoTime
  imports Prelude
begin

text \<open>
  Go's \<open>time\<close> package as far as the panel uses it: instants in whole seconds of Unix
  time, the proleptic Gregorian calendar, \<open>time.Date\<close> with its normalisation of month
  and day overflow, \<open>Time.AddDate\<close>, the calendar fields of an instant in a fixed zone,
  and the layout \<open>15:04\<close>. The lemmas show that the calendar fields and \<open>time.Date\<close>
  are inverse to each other and that months partition the days.
\<close>

section \<open>The Gregorian calendar\<close>

definition leap :: "int \<Rightarrow> bool" where
  "leap y \<longleftrightarrow> y mod 4 = 0 \<and> (y mod 100 \<noteq> 0 \<or> y mod 400 = 0)"

text \<open>The leap days in the years 1 to \<open>k\<close>.\<close>

definition leaps :: "int \<Rightarrow> int" where
  "leaps k = k div 4 - k div 100 + k div 400"

text \<open>Days from 0001-01-01 to the first of January of year \<open>y\<close>.\<close>

definition days_before_year :: "int \<Rightarrow> int" where
  "days_before_year y = 365 * (y - 1) + leaps (y - 1)"

definition days_before_month :: "bool \<Rightarrow> int \<Rightarrow> int" where
  "days_before_month l m =
     (if m \<le> 1 then 0 else if m = 2 then 31
      else (if l then 1 else 0) +
        (if m = 3 then 59 else if m = 4 then 90 else if m = 5 then 120 else if m = 6 then 151
         else if m = 7 then 181 else if m = 8 then 212 else if m = 9 then 243
         else if m = 10 then 273 else if m = 11 then 304 else if m = 12 then 334 else 365))"

definition month_len :: "int \<Rightarrow> int \<Rightarrow> int" where
  "month_len y m = days_before_month (leap y) (m + 1) - days_before_month (leap y) m"

text \<open>Days since 1970-01-01; the month is 1 to 12, the day is unrestricted.\<close>

definition days_of :: "int \<Rightarrow> int \<Rightarrow> int \<Rightarrow> int" where
  "days_of y m d = days_before_year y + days_before_month (leap y) m + d - 1 - 719162"

definition year_of :: "int \<Rightarrow> int" where
  "year_of n = (let g = (400 * (n + 719162)) div 146097 + 1 in
     if n + 719162 < days_before_year g then g - 1
     else if days_before_year (g + 1) \<le> n + 719162 then g + 1 else g)"

definition month_of_yday :: "bool \<Rightarrow> int \<Rightarrow> int" where
  "month_of_yday l d =
     (if d < days_before_month l 2 then 1 else if d < days_before_month l 3 then 2
      else if d < days_before_month l 4 then 3 else if d < days_before_month l 5 then 4
      else if d < days_before_month l 6 then 5 else if d < days_before_month l 7 then 6
      else if d < days_before_month l 8 then 7 else if d < days_before_month l 9 then 8
      else if d < days_before_month l 10 then 9 else if d < days_before_month l 11 then 10
      else if d < days_before_month l 12 then 11 else 12)"

definition yday_of :: "int \<Rightarrow> int" where
  "yday_of n = n + 719162 - days_before_year (year_of n)"

definition month_of :: "int \<Rightarrow> int" where
  "month_of n = month_of_yday (leap (year_of n)) (yday_of n)"

definition day_of :: "int \<Rightarrow> int" where
  "day_of n = yday_of n - days_before_month (leap (year_of n)) (month_of n) + 1"

section \<open>Instants in a zone of fixed offset\<close>

text \<open>\<open>off\<close> is the zone's offset east of UTC in seconds.\<close>

definition local_day :: "int \<Rightarrow> unix_time \<Rightarrow> int" where
  "local_day off t = (t + off) div 86400"

definition local_secs :: "int \<Rightarrow> unix_time \<Rightarrow> int" where
  "local_secs off t = (t + off) mod 86400"

definition t_year :: "int \<Rightarrow> unix_time \<Rightarrow> int" where
  "t_year off t = year_of (local_day off t)"

definition t_month :: "int \<Rightarrow> unix_time \<Rightarrow> int" where
  "t_month off t = month_of (local_day off t)"

definition t_day :: "int \<Rightarrow> unix_time \<Rightarrow> int" where
  "t_day off t = day_of (local_day off t)"

definition t_hour :: "int \<Rightarrow> unix_time \<Rightarrow> int" where
  "t_hour off t = local_secs off t div 3600"

definition t_minute :: "int \<Rightarrow> unix_time \<Rightarrow> int" where
  "t_minute off t = local_secs off t mod 3600 div 60"

definition t_second :: "int \<Rightarrow> unix_time \<Rightarrow> int" where
  "t_second off t = local_secs off t mod 60"

text \<open>\<open>Time.Weekday\<close>: Sunday is 0; 1970-01-01 was a Thursday.\<close>

definition t_weekday :: "int \<Rightarrow> unix_time \<Rightarrow> int" where
  "t_weekday off t = (local_day off t + 4) mod 7"

text \<open>
  \<open>time.Date\<close>: a month outside 1 to 12 carries into the year, and days, hours, minutes
  and seconds outside their usual range simply add up.
\<close>

definition go_date :: "int \<Rightarrow> int \<Rightarrow> int \<Rightarrow> int \<Rightarrow> int \<Rightarrow> int \<Rightarrow> int \<Rightarrow> unix_time" where
  "go_date off y mo d h mi s =
     days_of (y + (mo - 1) div 12) ((mo - 1) mod 12 + 1) d * 86400 + h * 3600 + mi * 60 + s - off"

definition add_date :: "int \<Rightarrow> unix_time \<Rightarrow> int \<Rightarrow> int \<Rightarrow> int \<Rightarrow> unix_time" where
  "add_date off t dy dm dd =
     go_date off (t_year off t + dy) (t_month off t + dm) (t_day off t + dd)
       (t_hour off t) (t_minute off t) (t_second off t)"

text \<open>The zone \<open>time.FixedZone("Asia/Shanghai", 8*60*60)\<close>.\<close>

definition shanghai :: int where
  "shanghai = 28800"

section \<open>The layout 15:04\<close>

text \<open>
  \<open>getnum\<close> of Go's parser: two digits, or one digit where the layout does not insist
  on two.
\<close>

fun getnum :: "bool \<Rightarrow> string \<Rightarrow> (int \<times> string) option" where
  "getnum fixed (a # b # s) =
     (if \<not> is_digit a then None
      else if is_digit b then Some (digit_val a * 10 + digit_val b, s)
      else if fixed then None else Some (digit_val a, b # s))"
| "getnum fixed [a] = (if \<not> is_digit a \<or> fixed then None else Some (digit_val a, []))"
| "getnum fixed [] = None"

definition parse_hhmm :: "string \<Rightarrow> (int \<times> int) option" where
  "parse_hhmm s = (case getnum False s of
     Some (h, CHR '':'' # r) \<Rightarrow> (case getnum True r of
       Some (m, []) \<Rightarrow> if 0 \<le> h \<and> h < 24 \<and> 0 \<le> m \<and> m < 60 then Some (h, m) else None
     | _ \<Rightarrow> None)
   | _ \<Rightarrow> None)"

definition digit_char :: "int \<Rightarrow> char" where
  "digit_char n = char_of (nat (n + 48))"

definition format_hhmm :: "int \<Rightarrow> int \<Rightarrow> string" where
  "format_hhmm h m =
     [digit_char (h div 10), digit_char (h mod 10), CHR '':'', digit_char (m div 10), digit_char (m mod 10)]"

section \<open>Years\<close>

lemma div_pred:
  assumes "0 < (k::int)"
  shows "y div k - (y - 1) div k = (if y mod k = 0 then 1 else 0)"
proof -
  have y: "y = k * (y div k) + y mod k"
    by simp
  have r: "0 \<le> y mod k" "y mod k < k"
    using assms by simp_all
  show ?thesis
  proof (cases "y mod k = 0")
    case True
    then have "(y - 1) div k = y div k - 1"
      using assms y by (intro int_div_pos_eq [where r = "k - 1"]) (simp_all add: algebra_simps)
    with True show ?thesis by simp
  next
    case False
    then have "(y - 1) div k = y div k"
      using r y by (intro int_div_pos_eq [where r = "y mod k - 1"]) simp_all
    with False show ?thesis by simp
  qed
qed

lemma leap_cases:
  "leap y = (if y mod 4 = 0 then if y mod 100 = 0 then y mod 400 = 0 else True else False)"
  by (simp add: leap_def)

lemma mod_4_100_400: "(y::int) mod 100 = 0 \<Longrightarrow> y mod 4 = 0" "(y::int) mod 400 = 0 \<Longrightarrow> y mod 100 = 0"
proof -
  have c: "y mod 100 mod 4 = y mod 4" "y mod 400 mod 100 = y mod 100"
    by (rule mod_mod_cancel, simp)+
  show "y mod 100 = 0 \<Longrightarrow> y mod 4 = 0" "y mod 400 = 0 \<Longrightarrow> y mod 100 = 0"
    using c by simp_all
qed

lemma leaps_step: "leaps y - leaps (y - 1) = (if leap y then 1 else 0)"
proof -
  have alg: "(a - b + c) - (a' - b' + c') = (a - a') - (b - b') + (c - c')"
    for a b c a' b' c' :: int
    by simp
  have bits: "(C \<Longrightarrow> B) \<Longrightarrow> (B \<Longrightarrow> A) \<Longrightarrow>
      (if A then 1 else 0) - (if B then 1 else 0) + (if C then 1 else 0) =
      (if (if A then if B then C else True else False) then 1 else (0::int))" for A B C
    by auto
  have "leaps y - leaps (y - 1) = (y div 4 - (y - 1) div 4) - (y div 100 - (y - 1) div 100)
      + (y div 400 - (y - 1) div 400)"
    unfolding leaps_def by (rule alg)
  also have "\<dots> = (if y mod 4 = 0 then 1 else 0) - (if y mod 100 = 0 then 1 else 0)
      + (if y mod 400 = 0 then 1 else 0)"
    by (simp only: div_pred zero_less_numeral)
  also have "\<dots> = (if leap y then 1 else 0)"
    unfolding leap_cases by (rule bits [OF mod_4_100_400(2) mod_4_100_400(1)])
  finally show ?thesis .
qed

lemma days_before_year_Suc:
  "days_before_year (y + 1) = days_before_year y + (if leap y then 366 else 365)"
  using leaps_step [of y] by (simp add: days_before_year_def split: if_splits)

lemma leaps_bounds: "97 * k - 699 \<le> 400 * leaps k" "400 * leaps k \<le> 97 * k + 396"
proof -
  define a b c where "a = k div 4" and "b = k div 100" and "c = k div 400"
  have dm: "n * (k div n) \<le> k" "k < n * (k div n) + n" if "0 < n" for n :: int
    using pos_mod_sign [OF that, of k] pos_mod_bound [OF that, of k] mult_div_mod_eq [of n k]
    by linarith+
  have "4 * a \<le> k" "k < 4 * a + 4" "100 * b \<le> k" "k < 100 * b + 100" "400 * c \<le> k" "k < 400 * c + 400"
    unfolding a_def b_def c_def by (rule dm, simp)+
  moreover have "leaps k = a - b + c"
    by (simp only: leaps_def a_def b_def c_def)
  ultimately show "97 * k - 699 \<le> 400 * leaps k" "400 * leaps k \<le> 97 * k + 396"
    by linarith+
qed

lemma year_of_bounds:
  "days_before_year (year_of n) \<le> n + 719162" "n + 719162 < days_before_year (year_of n + 1)"
proof -
  define q where "q = (400 * (n + 719162)) div 146097"
  have q: "146097 * q \<le> 400 * (n + 719162)" "400 * (n + 719162) < 146097 * q + 146097"
    unfolding q_def
    using pos_mod_sign [of 146097 "400 * (n + 719162)"] pos_mod_bound [of 146097 "400 * (n + 719162)"]
      mult_div_mod_eq [of 146097 "400 * (n + 719162)"]
    by linarith+
  have lo: "days_before_year q \<le> n + 719162"
    using q leaps_bounds(2) [of "q - 1"] unfolding days_before_year_def by simp
  have hi: "n + 719162 < days_before_year (q + 3)"
  proof -
    have "days_before_year (q + 3) = 365 * (q + 2) + leaps (q + 2)"
      unfolding days_before_year_def by (rule arg_cong2 [where f = "(+)"]; rule arg_cong; simp)
    with q leaps_bounds(1) [of "q + 2"] show ?thesis by simp
  qed
  have y: "year_of n = (if n + 719162 < days_before_year (q + 1) then q
      else if days_before_year (q + 2) \<le> n + 719162 then q + 2 else q + 1)"
    unfolding year_of_def Let_def q_def [symmetric]
    by (simp only: add_diff_cancel_right' add.assoc one_add_one)
  show "days_before_year (year_of n) \<le> n + 719162" "n + 719162 < days_before_year (year_of n + 1)"
    unfolding y using lo hi by (auto simp: add.commute [of 2] add.commute [of 3])
qed

lemma days_before_year_mono: "a \<le> b \<Longrightarrow> days_before_year a \<le> days_before_year b"
proof (induction "nat (b - a)" arbitrary: b)
  case 0
  then show ?case by simp
next
  case (Suc k)
  then have "days_before_year a \<le> days_before_year (b - 1)"
    by (intro Suc.hyps(1)) auto
  also have "days_before_year (b - 1) \<le> days_before_year (b - 1 + 1)"
    unfolding days_before_year_Suc by simp
  finally show ?case by simp
qed

lemma year_of_unique:
  assumes "days_before_year y \<le> n + 719162" "n + 719162 < days_before_year (y + 1)"
  shows "year_of n = y"
proof (rule antisym)
  show "year_of n \<le> y"
  proof (rule ccontr)
    assume "\<not> year_of n \<le> y"
    then have "days_before_year (y + 1) \<le> days_before_year (year_of n)"
      by (intro days_before_year_mono) simp
    with assms(2) year_of_bounds(1) [of n] show False by linarith
  qed
  show "y \<le> year_of n"
  proof (rule ccontr)
    assume "\<not> y \<le> year_of n"
    then have "days_before_year (year_of n + 1) \<le> days_before_year y"
      by (intro days_before_year_mono) simp
    with assms(1) year_of_bounds(2) [of n] show False by linarith
  qed
qed

section \<open>Months and days\<close>

lemma month_cases:
  assumes "1 \<le> m" "m \<le> (12::int)"
  obtains "m = 1" | "m = 2" | "m = 3" | "m = 4" | "m = 5" | "m = 6" | "m = 7" | "m = 8"
    | "m = 9" | "m = 10" | "m = 11" | "m = 12"
proof -
  have "m = 1 \<or> m = 2 \<or> m = 3 \<or> m = 4 \<or> m = 5 \<or> m = 6 \<or> m = 7 \<or> m = 8
      \<or> m = 9 \<or> m = 10 \<or> m = 11 \<or> m = 12"
    using assms by presburger
  then show thesis
    using that by blast
qed

lemma yday_bounds: "0 \<le> yday_of n" "yday_of n < (if leap (year_of n) then 366 else 365)"
  using year_of_bounds [of n] unfolding yday_of_def days_before_year_Suc by simp_all

lemma month_of_yday_range: "1 \<le> month_of_yday l d" "month_of_yday l d \<le> 12"
  by (simp_all add: month_of_yday_def)

lemma month_of_yday_bounds:
  assumes "0 \<le> d" "d < (if l then 366 else 365)"
  shows "days_before_month l (month_of_yday l d) \<le> d" "d < days_before_month l (month_of_yday l d + 1)"
  using assms by (cases l; simp add: month_of_yday_def days_before_month_def)+

lemma month_of_yday_eq:
  assumes "1 \<le> m" "m \<le> 12" "days_before_month l m \<le> d" "d < days_before_month l (m + 1)"
  shows "month_of_yday l d = m"
  using assms(1,2)
  by (rule month_cases; use assms(3,4) in \<open>cases l; simp add: month_of_yday_def days_before_month_def\<close>)

lemma month_len_range:
  assumes "1 \<le> m" "m \<le> 12"
  shows "28 \<le> month_len y m" "month_len y m \<le> 31"
  using assms by (rule month_cases; cases "leap y"; simp add: month_len_def days_before_month_def)+

lemma month_range: "1 \<le> month_of n" "month_of n \<le> 12"
  unfolding month_of_def by (rule month_of_yday_range)+

lemma day_range: "1 \<le> day_of n" "day_of n \<le> month_len (year_of n) (month_of n)"
proof -
  note b = month_of_yday_bounds [OF yday_bounds [of n]]
  show "1 \<le> day_of n" "day_of n \<le> month_len (year_of n) (month_of n)"
    using b unfolding day_of_def month_len_def month_of_def by linarith+
qed

lemma t_day_range: "1 \<le> t_day off t" "t_day off t \<le> 31"
  using day_range [of "local_day off t"]
    month_len_range(2) [OF month_range, of "year_of (local_day off t)" "local_day off t"]
  unfolding t_day_def by linarith+

text \<open>The calendar fields of a day determine it, and every valid date has these fields.\<close>

lemma days_of_civil: "days_of (year_of n) (month_of n) (day_of n) = n"
  by (simp add: days_of_def day_of_def yday_of_def)

lemma civil_days_of:
  assumes "1 \<le> m" "m \<le> 12" "1 \<le> d" "d \<le> month_len y m"
  shows "year_of (days_of y m d) = y" "month_of (days_of y m d) = m" "day_of (days_of y m d) = d"
proof -
  have dbm: "0 \<le> days_before_month (leap y) m"
    "days_before_month (leap y) (m + 1) \<le> (if leap y then 366 else 365)"
    using assms(1,2) by (rule month_cases; simp add: days_before_month_def)+
  show y: "year_of (days_of y m d) = y"
  proof (rule year_of_unique)
    show "days_before_year y \<le> days_of y m d + 719162"
      using assms dbm by (simp add: days_of_def)
    show "days_of y m d + 719162 < days_before_year (y + 1)"
      using assms dbm unfolding days_before_year_Suc by (simp add: days_of_def month_len_def)
  qed
  have yd: "yday_of (days_of y m d) = days_before_month (leap y) m + d - 1"
    using y by (simp add: yday_of_def days_of_def)
  show m: "month_of (days_of y m d) = m"
    unfolding month_of_def y yd
    using assms by (intro month_of_yday_eq) (simp_all add: month_len_def)
  show "day_of (days_of y m d) = d"
    unfolding day_of_def y yd m by simp
qed

section \<open>The sequence of months\<close>

text \<open>Months are numbered \<open>12 * year + month - 1\<close>.\<close>

definition month_start :: "int \<Rightarrow> int" where
  "month_start k = days_of (k div 12) (k mod 12 + 1) 1"

definition month_index :: "int \<Rightarrow> int" where
  "month_index n = 12 * year_of n + month_of n - 1"

definition index_len :: "int \<Rightarrow> int" where
  "index_len k = month_len (k div 12) (k mod 12 + 1)"

lemma index_year_month:
  "1 \<le> m \<Longrightarrow> m \<le> 12 \<Longrightarrow> (12 * y + m - 1) div 12 = y \<and> (12 * y + m - 1) mod 12 + 1 = m"
  for y m :: int
  using int_div_pos_eq [of "12 * y + m - 1" 12 y "m - 1"] int_mod_pos_eq [of "12 * y + m - 1" 12 y "m - 1"] by simp

lemma index_len_range: "28 \<le> index_len k" "index_len k \<le> 31"
  unfolding index_len_def by (rule month_len_range; simp)+

lemma days_of_shift: "days_of y m d = days_of y m 1 + (d - 1)"
  by (simp add: days_of_def)

lemma days_of_next_month:
  "days_of (y + 1) 1 1 = days_of y 12 1 + month_len y 12"
  "days_of y (m + 1) 1 = days_of y m 1 + month_len y m"
proof -
  show "days_of y (m + 1) 1 = days_of y m 1 + month_len y m"
    unfolding days_of_def month_len_def by simp
  have "days_before_month l 1 = 0" "days_before_month l 13 = (if l then 366 else 365)" for l
    by (simp_all add: days_before_month_def)
  then show "days_of (y + 1) 1 1 = days_of y 12 1 + month_len y 12"
    unfolding days_of_def month_len_def days_before_year_Suc by simp
qed

lemma month_start_Suc: "month_start (k + 1) = month_start k + index_len k"
proof (cases "k mod 12 = 11")
  case True
  then have k: "k + 1 = 12 * (k div 12 + 1) + 0"
    using mult_div_mod_eq [of 12 k] by simp
  have e: "(k + 1) div 12 = k div 12 + 1" "(k + 1) mod 12 + 1 = 1" "k mod 12 + 1 = 12"
    using int_div_pos_eq [OF k] int_mod_pos_eq [OF k] True by simp_all
  show ?thesis
    unfolding month_start_def index_len_def e by (rule days_of_next_month)
next
  case False
  then have r: "k + 1 = 12 * (k div 12) + (k mod 12 + 1)" "0 \<le> k mod 12 + 1" "k mod 12 + 1 < 12"
    using pos_mod_sign [of 12 k] pos_mod_bound [of 12 k] by auto
  have e: "(k + 1) div 12 = k div 12" "(k + 1) mod 12 + 1 = k mod 12 + 1 + 1"
    using int_div_pos_eq [OF r] int_mod_pos_eq [OF r] by simp_all
  show ?thesis
    unfolding month_start_def index_len_def e by (rule days_of_next_month)
qed

lemma month_start_of_index: "month_start (month_index n) = n - (day_of n - 1)"
  using index_year_month [OF month_range] days_of_civil [of n]
    days_of_shift [of "year_of n" "month_of n" "day_of n"]
  unfolding month_start_def month_index_def by simp

lemma index_len_of_index: "index_len (month_index n) = month_len (year_of n) (month_of n)"
  using index_year_month [OF month_range] unfolding index_len_def month_index_def by simp

lemma month_index_bounds:
  "month_start (month_index n) \<le> n" "n < month_start (month_index n + 1)"
  using day_range [of n] unfolding month_start_Suc month_start_of_index index_len_of_index
  by linarith+

lemma month_start_le: "k \<le> l \<Longrightarrow> month_start k \<le> month_start l"
proof (induction "nat (l - k)" arbitrary: l)
  case 0
  then show ?case by simp
next
  case (Suc j)
  then have "month_start k \<le> month_start (l - 1)"
    by (intro Suc.hyps(1)) auto
  also have "month_start (l - 1) \<le> month_start (l - 1 + 1)"
    using index_len_range(1) [of "l - 1"] unfolding month_start_Suc by linarith
  finally show ?case by simp
qed

lemma month_index_unique:
  assumes "month_start k \<le> n" "n < month_start (k + 1)"
  shows "month_index n = k"
proof (rule ccontr)
  assume "month_index n \<noteq> k"
  then consider "month_index n + 1 \<le> k" | "k + 1 \<le> month_index n" by linarith
  then show False
    using assms month_index_bounds [of n] month_start_le [of "month_index n + 1" k]
      month_start_le [of "k + 1" "month_index n"]
    by cases linarith+
qed

text \<open>\<open>time.Date\<close> with any month number lands in the month of that number.\<close>

lemma go_date_index:
  "go_date off y m d h mi s =
     (month_start (12 * y + m - 1) + d - 1) * 86400 + h * 3600 + mi * 60 + s - off"
proof -
  have e: "(12 * y + m - 1) div 12 = y + (m - 1) div 12" "(12 * y + m - 1) mod 12 = (m - 1) mod 12"
    using div_mult_self2 [of "12::int" "m - 1" y] mod_mult_self2 [of "m - 1" 12 y]
    by (simp_all add: algebra_simps)
  show ?thesis
    unfolding go_date_def month_start_def e days_of_shift [of _ _ d] by simp
qed

lemma local_of_date:
  assumes "0 \<le> r" "r < 86400"
  shows "local_day off (n * 86400 + r - off) = n" "local_secs off (n * 86400 + r - off) = r"
  using assms unfolding local_day_def local_secs_def by simp_all

lemma local_split: "t = local_day off t * 86400 + local_secs off t - off"
  unfolding local_day_def local_secs_def by simp

lemma local_secs_range: "0 \<le> local_secs off t" "local_secs off t < 86400"
  unfolding local_secs_def by simp_all

text \<open>The idiom \<open>time.Date(year, month+1, 0, \<dots>).Day()\<close> is the length of the month.\<close>

lemma last_day_idiom:
  assumes "1 \<le> m" "m \<le> 12"
  shows "t_day off (go_date off y (m + 1) 0 0 0 0) = month_len y m"
proof -
  have "go_date off y (m + 1) 0 0 0 0 = days_of y m (month_len y m) * 86400 + 0 - off"
    using index_year_month [OF assms, of y] month_start_Suc [of "12 * y + m - 1"]
      days_of_shift [of y m "month_len y m"]
    unfolding go_date_index month_start_def index_len_def by (simp add: algebra_simps)
  then have "local_day off (go_date off y (m + 1) 0 0 0 0) = days_of y m (month_len y m)"
    by (simp only: local_of_date zero_less_numeral order_refl)
  moreover have "1 \<le> month_len y m"
    using month_len_range(1) [OF assms] by (rule order_trans [rotated]) simp
  ultimately show ?thesis
    using civil_days_of(3) [OF assms, of "month_len y m" y] by (simp add: t_day_def)
qed

section \<open>Times of day\<close>

definition secs_of_hm :: "int \<Rightarrow> int \<Rightarrow> int" where
  "secs_of_hm h m = h * 3600 + m * 60"

lemma secs_of_hm_range:
  "0 \<le> h \<Longrightarrow> h < 24 \<Longrightarrow> 0 \<le> m \<Longrightarrow> m < 60 \<Longrightarrow> 0 \<le> secs_of_hm h m \<and> secs_of_hm h m < 86400"
  by (simp add: secs_of_hm_def)

lemma parse_hhmm_range:
  "parse_hhmm s = Some (h, m) \<Longrightarrow> 0 \<le> h \<and> h < 24 \<and> 0 \<le> m \<and> m < 60"
  by (auto simp: parse_hhmm_def split: option.splits list.splits prod.splits if_splits char.splits bool.splits)

lemma digit_char_simps:
  assumes "0 \<le> n" "n < 10"
  shows "is_digit (digit_char n)" "digit_val (digit_char n) = n"
proof -
  have b: "48 \<le> nat (n + 48)" "nat (n + 48) \<le> 57"
    using assms by arith+
  then have "nat (n + 48) mod 256 = nat (n + 48)"
    by simp
  with b show "is_digit (digit_char n)" "digit_val (digit_char n) = n"
    using assms by (simp_all add: is_digit_def digit_val_def digit_char_def)
qed

lemma parse_format_hhmm:
  assumes "0 \<le> h" "h < 24" "0 \<le> m" "m < 60"
  shows "parse_hhmm (format_hhmm h m) = Some (h, m)"
proof -
  have "0 \<le> h div 10" "h div 10 < 10" "0 \<le> m div 10" "m div 10 < 10"
    using assms by linarith+
  then show ?thesis
    using assms by (simp add: parse_hhmm_def format_hhmm_def digit_char_simps)
qed

end
