(* ===== verification/ResetCycle.thy ===== *)
theory ResetCycle
  imports GoTime
begin

text \<open>
  The interface between the billing clocks and the traffic accounting. A clock is a strictly
  increasing sequence of reset boundaries and an estimate of the boundary number of an
  instant; the panel's functions compute from the two the start of the current cycle. The
  locale \<open>reset_clock\<close> holds what the accounting code relies on, and the daily, weekly and
  monthly clocks below are its interpretations.
\<close>

section \<open>The contract\<close>

definition cycle_start :: "(int \<Rightarrow> unix_time) \<Rightarrow> (unix_time \<Rightarrow> int) \<Rightarrow> unix_time \<Rightarrow> unix_time" where
  "cycle_start bnd idx t = (if t < bnd (idx t) then bnd (idx t - 1) else bnd (idx t))"

definition cycle_next :: "(int \<Rightarrow> unix_time) \<Rightarrow> (unix_time \<Rightarrow> int) \<Rightarrow> unix_time \<Rightarrow> unix_time" where
  "cycle_next bnd idx t = (if t < bnd (idx t) then bnd (idx t) else bnd (idx t + 1))"

locale reset_clock =
  fixes bnd :: "int \<Rightarrow> unix_time"
    and idx :: "unix_time \<Rightarrow> int"
  assumes bnd_step: "bnd k < bnd (k + 1)"
    and idx_lower: "bnd (idx t - 1) \<le> t"
    and idx_upper: "t < bnd (idx t + 1)"
begin

lemma bnd_mono: "k \<le> l \<Longrightarrow> bnd k \<le> bnd l"
proof (induction "nat (l - k)" arbitrary: l)
  case 0
  then show ?case by simp
next
  case (Suc j)
  then have "bnd k \<le> bnd (l - 1)"
    by (intro Suc.hyps(1)) auto
  also have "bnd (l - 1) \<le> bnd l"
    using bnd_step [of "l - 1"] by simp
  finally show ?case .
qed

lemma bnd_less: "k < l \<Longrightarrow> bnd k < bnd l"
  using bnd_step [of k] bnd_mono [of "k + 1" l] by linarith

lemma bnd_less_iff: "bnd k < bnd l \<longleftrightarrow> k < l"
  using bnd_less [of k l] bnd_mono [of l k] by linarith

text \<open>The cycle of \<open>t\<close> is the half-open interval between two successive boundaries.\<close>

lemma cycle_cases:
  obtains k where "cycle_start bnd idx t = bnd k" "cycle_next bnd idx t = bnd (k + 1)"
    "bnd k \<le> t" "t < bnd (k + 1)"
proof (cases "t < bnd (idx t)")
  case True
  then show thesis
    using that [of "idx t - 1"] idx_lower [of t] by (simp add: cycle_start_def cycle_next_def)
next
  case False
  then show thesis
    using that [of "idx t"] idx_upper [of t] by (simp add: cycle_start_def cycle_next_def)
qed

lemma interval_unique:
  assumes "bnd k \<le> t" "t < bnd (k + 1)" "bnd l \<le> t" "t < bnd (l + 1)"
  shows "k = l"
proof -
  have "bnd k < bnd (l + 1)" "bnd l < bnd (k + 1)"
    using assms by linarith+
  then show ?thesis by (simp add: bnd_less_iff)
qed

lemma cycle_of_interval:
  assumes "bnd k \<le> t" "t < bnd (k + 1)"
  shows "cycle_start bnd idx t = bnd k" "cycle_next bnd idx t = bnd (k + 1)"
proof -
  obtain l where l: "cycle_start bnd idx t = bnd l" "cycle_next bnd idx t = bnd (l + 1)"
    "bnd l \<le> t" "t < bnd (l + 1)"
    by (rule cycle_cases)
  with interval_unique [OF assms l(3,4)]
  show "cycle_start bnd idx t = bnd k" "cycle_next bnd idx t = bnd (k + 1)" by simp_all
qed

lemma start_le: "cycle_start bnd idx t \<le> t"
  by (rule cycle_cases [of t]) simp

lemma next_gt: "t < cycle_next bnd idx t"
  by (rule cycle_cases [of t]) simp

lemma start_less_next: "cycle_start bnd idx t < cycle_next bnd idx t"
  using start_le next_gt by (rule le_less_trans)

lemma same_cycle:
  assumes "cycle_start bnd idx t \<le> u" "u < cycle_next bnd idx t"
  shows "cycle_start bnd idx u = cycle_start bnd idx t \<and> cycle_next bnd idx u = cycle_next bnd idx t"
  using assms by (metis cycle_cases cycle_of_interval)

lemma start_idem: "cycle_start bnd idx (cycle_start bnd idx t) = cycle_start bnd idx t"
  using same_cycle [OF order_refl start_less_next] by simp

lemma start_of_next: "cycle_start bnd idx (cycle_next bnd idx t) = cycle_next bnd idx t"
proof -
  obtain k where k: "cycle_next bnd idx t = bnd (k + 1)"
    by (rule cycle_cases)
  show ?thesis
    unfolding k by (rule cycle_of_interval(1) [OF order_refl bnd_step])
qed

lemma start_greatest: "bnd k \<le> t \<Longrightarrow> bnd k \<le> cycle_start bnd idx t"
proof -
  assume k: "bnd k \<le> t"
  obtain l where l: "cycle_start bnd idx t = bnd l" "t < bnd (l + 1)"
    by (rule cycle_cases)
  with k have "bnd k < bnd (l + 1)" by linarith
  then show ?thesis
    unfolding l(1) by (intro bnd_mono) (simp add: bnd_less_iff)
qed

lemma start_mono: "t \<le> u \<Longrightarrow> cycle_start bnd idx t \<le> cycle_start bnd idx u"
  by (metis cycle_cases order_trans start_greatest)

text \<open>A new cycle has begun exactly when the announced reset instant has been reached.\<close>

lemma new_cycle_iff:
  assumes "t \<le> u"
  shows "cycle_start bnd idx t < cycle_start bnd idx u \<longleftrightarrow> cycle_next bnd idx t \<le> u"
proof
  assume "cycle_start bnd idx t < cycle_start bnd idx u"
  then show "cycle_next bnd idx t \<le> u"
    using same_cycle [of t u] start_le [of t] assms by fastforce
next
  assume "cycle_next bnd idx t \<le> u"
  then have "cycle_next bnd idx t \<le> cycle_start bnd idx u"
    using start_mono start_of_next by metis
  then show "cycle_start bnd idx t < cycle_start bnd idx u"
    using start_less_next [of t] by linarith
qed

end

section \<open>The daily, weekly and monthly clocks\<close>

text \<open>
  \<open>hm\<close> is the reset time of day in seconds; \<open>off\<close> is the zone. The monthly clock
  clamps the reset day to the length of the month.
\<close>

definition daily_bnd :: "int \<Rightarrow> int \<Rightarrow> int \<Rightarrow> unix_time" where
  "daily_bnd off hm k = k * 86400 + hm - off"

definition weekly_bnd :: "int \<Rightarrow> int \<Rightarrow> int \<Rightarrow> int \<Rightarrow> unix_time" where
  "weekly_bnd off wd hm k = (7 * k + wd - 4) * 86400 + hm - off"

definition weekly_idx :: "int \<Rightarrow> int \<Rightarrow> unix_time \<Rightarrow> int" where
  "weekly_idx off wd t = (local_day off t + 4 - wd) div 7"

definition monthly_bnd :: "int \<Rightarrow> int \<Rightarrow> int \<Rightarrow> int \<Rightarrow> unix_time" where
  "monthly_bnd off day hm k = (month_start k + min day (index_len k) - 1) * 86400 + hm - off"

definition monthly_idx :: "int \<Rightarrow> unix_time \<Rightarrow> int" where
  "monthly_idx off t = month_index (local_day off t)"

text \<open>A reset time is a time of day; a reset day is 1 to 31.\<close>

definition valid_hm :: "int \<Rightarrow> bool" where
  "valid_hm hm \<longleftrightarrow> 0 \<le> hm \<and> hm < 86400"

lemma daily_clock: "valid_hm hm \<Longrightarrow> reset_clock (daily_bnd off hm) (local_day off)"
proof unfold_locales
  fix k t :: int
  assume hm: "valid_hm hm"
  show "daily_bnd off hm k < daily_bnd off hm (k + 1)"
    by (simp add: daily_bnd_def)
  show "daily_bnd off hm (local_day off t - 1) \<le> t"
    using hm local_split [of t off] local_secs_range(1) [of off t]
    unfolding daily_bnd_def valid_hm_def by (simp add: algebra_simps)
  show "t < daily_bnd off hm (local_day off t + 1)"
    using hm local_split [of t off] local_secs_range(2) [of off t]
    unfolding daily_bnd_def valid_hm_def by (simp add: algebra_simps)
qed

lemma weekly_clock: "valid_hm hm \<Longrightarrow> reset_clock (weekly_bnd off wd hm) (weekly_idx off wd)"
proof unfold_locales
  fix k t :: int
  assume hm: "valid_hm hm"
  define q where "q = weekly_idx off wd t"
  have q: "7 * q \<le> local_day off t + 4 - wd" "local_day off t + 4 - wd < 7 * q + 7"
    unfolding q_def weekly_idx_def
    using pos_mod_sign [of 7 "local_day off t + 4 - wd"] pos_mod_bound [of 7 "local_day off t + 4 - wd"]
      mult_div_mod_eq [of 7 "local_day off t + 4 - wd"] by linarith+
  show "weekly_bnd off wd hm k < weekly_bnd off wd hm (k + 1)"
    by (simp add: weekly_bnd_def)
  have "weekly_bnd off wd hm (q - 1) \<le> t"
    using hm q local_split [of t off] local_secs_range(1) [of off t]
    unfolding weekly_bnd_def valid_hm_def by (simp add: algebra_simps)
  then show "weekly_bnd off wd hm (weekly_idx off wd t - 1) \<le> t" by (simp add: q_def)
  have "t < weekly_bnd off wd hm (q + 1)"
    using hm q local_split [of t off] local_secs_range(2) [of off t]
    unfolding weekly_bnd_def valid_hm_def by (simp add: algebra_simps)
  then show "t < weekly_bnd off wd hm (weekly_idx off wd t + 1)" by (simp add: q_def)
qed

lemma monthly_bnd_in_month:
  assumes "1 \<le> day" "valid_hm hm"
  shows "month_start k * 86400 - off \<le> monthly_bnd off day hm k"
    "monthly_bnd off day hm k < month_start (k + 1) * 86400 - off"
proof -
  define d where "d = min day (index_len k)"
  have "1 \<le> d" "d \<le> index_len k"
    using assms(1) index_len_range(1) [of k] by (simp_all add: d_def)
  then show "month_start k * 86400 - off \<le> monthly_bnd off day hm k"
    "monthly_bnd off day hm k < month_start (k + 1) * 86400 - off"
    using assms(2) unfolding monthly_bnd_def month_start_Suc valid_hm_def d_def [symmetric]
    by (simp_all add: algebra_simps)
qed

lemma monthly_clock:
  assumes "1 \<le> day" "valid_hm hm"
  shows "reset_clock (monthly_bnd off day hm) (monthly_idx off)"
proof unfold_locales
  fix k t :: int
  show "monthly_bnd off day hm k < monthly_bnd off day hm (k + 1)"
    using monthly_bnd_in_month(2) [OF assms, of off k] monthly_bnd_in_month(1) [OF assms, of "k + 1" off]
    by linarith
  let ?n = "local_day off t"
  have t: "?n * 86400 - off \<le> t" "t < (?n + 1) * 86400 - off"
    using local_split [of t off] local_secs_range [of off t] by (simp_all add: algebra_simps)
  show "monthly_bnd off day hm (monthly_idx off t - 1) \<le> t"
    using month_index_bounds(1) [of ?n] t(1) monthly_bnd_in_month(2) [OF assms, of off "monthly_idx off t - 1"]
    unfolding monthly_idx_def by simp
  show "t < monthly_bnd off day hm (monthly_idx off t + 1)"
    using month_index_bounds(2) [of ?n] t(2) monthly_bnd_in_month(1) [OF assms, of "monthly_idx off t + 1" off]
    unfolding monthly_idx_def by simp
qed

lemma monthly_idx_bnd:
  assumes "1 \<le> day" "valid_hm hm"
  shows "monthly_idx off (monthly_bnd off day hm k) = k"
proof -
  let ?t = "monthly_bnd off day hm k"
  have "month_start k \<le> local_day off ?t" "local_day off ?t < month_start (k + 1)"
    using monthly_bnd_in_month(1) [OF assms, of k off] monthly_bnd_in_month(2) [OF assms, of off k]
      local_split [of ?t off] local_secs_range [of off ?t]
    by linarith+
  then show ?thesis
    unfolding monthly_idx_def by (rule month_index_unique)
qed

lemma monthly_bnd_secs:
  assumes "valid_hm hm"
  shows "local_secs off (monthly_bnd off day hm k) = hm"
  unfolding monthly_bnd_def using assms local_of_date(2) unfolding valid_hm_def by blast

text \<open>
  The clocks interpret the contract. A reset time of day is below one day and a reset day is
  at least 1; the normalising \<open>mod\<close> and \<open>max\<close> disappear for such values.
\<close>

interpretation daily: reset_clock "daily_bnd off (hm mod 86400)" "local_day off" for off hm
  by (rule daily_clock) (simp add: valid_hm_def)

interpretation weekly: reset_clock "weekly_bnd off wd (hm mod 86400)" "weekly_idx off wd" for off wd hm
  by (rule weekly_clock) (simp add: valid_hm_def)

interpretation monthly: reset_clock "monthly_bnd off (max 1 day) (hm mod 86400)" "monthly_idx off"
  for off day hm
  by (rule monthly_clock) (simp_all add: valid_hm_def)

lemma valid_hm_mod [simp]: "valid_hm hm \<Longrightarrow> hm mod 86400 = hm"
  by (simp add: valid_hm_def)

lemma valid_hm_secs:
  "0 \<le> h \<Longrightarrow> h < 24 \<Longrightarrow> 0 \<le> m \<Longrightarrow> m < 60 \<Longrightarrow> valid_hm (h * 3600 + m * 60)"
  by (simp add: valid_hm_def)

section \<open>From the code's calendar computations to the clocks\<close>

text \<open>
  The code builds a boundary with \<open>time.Date\<close> from calendar fields, clamping the day with
  the last-day idiom. These lemmas put such a computation into the form of the clocks.
\<close>

definition clamped_date :: "int \<Rightarrow> int \<Rightarrow> int \<Rightarrow> int \<Rightarrow> int \<Rightarrow> int \<Rightarrow> int \<Rightarrow> unix_time" where
  "clamped_date off y m day h mi s =
     (let last_day = t_day off (go_date off y (m + 1) 0 0 0 0);
          d = (if day > last_day then last_day else day)
      in go_date off y m d h mi s)"

lemma clamped_date_bnd:
  assumes "1 \<le> m" "m \<le> 12"
  shows "clamped_date off y m day h mi s = monthly_bnd off day (h * 3600 + mi * 60 + s) (12 * y + m - 1)"
proof -
  have "index_len (12 * y + m - 1) = month_len y m"
    using index_year_month [OF assms, of y] by (simp add: index_len_def)
  then show ?thesis
    unfolding clamped_date_def Let_def last_day_idiom [OF assms]
    unfolding go_date_index monthly_bnd_def by (simp add: min_def)
qed

lemma t_month_range: "1 \<le> t_month off t" "t_month off t \<le> 12"
  unfolding t_month_def by (rule month_range)+

lemma monthly_idx_fields: "monthly_idx off t = 12 * t_year off t + t_month off t - 1"
  by (simp add: monthly_idx_def month_index_def t_year_def t_month_def)

text \<open>\<open>time.Date(y, m+j, 1, 0, \<dots>)\<close> is the first of the month \<open>j\<close> months later.\<close>

lemma first_of_month_fields:
  "12 * t_year off (go_date off y m 1 0 0 0) + t_month off (go_date off y m 1 0 0 0) - 1 = 12 * y + m - 1"
proof -
  have "go_date off y m 1 0 0 0 = month_start (12 * y + m - 1) * 86400 + 0 - off"
    unfolding go_date_index by simp
  then have d: "local_day off (go_date off y m 1 0 0 0) = month_start (12 * y + m - 1)"
    by (simp only: local_of_date zero_less_numeral order_refl)
  have "month_index (month_start (12 * y + m - 1)) = 12 * y + m - 1"
    using index_len_range(1) [of "12 * y + m - 1"]
    by (intro month_index_unique [OF order_refl], unfold month_start_Suc) linarith
  then show ?thesis
    unfolding monthly_idx_fields [symmetric] monthly_idx_def d .
qed

lemma local_day_date:
  assumes "valid_hm (h * 3600 + mi * 60 + s)"
  shows "local_day off (go_date off y m d h mi s) = month_start (12 * y + m - 1) + d - 1"
    "local_secs off (go_date off y m d h mi s) = h * 3600 + mi * 60 + s"
proof -
  have e: "go_date off y m d h mi s =
      (month_start (12 * y + m - 1) + d - 1) * 86400 + (h * 3600 + mi * 60 + s) - off"
    unfolding go_date_index by simp
  show "local_day off (go_date off y m d h mi s) = month_start (12 * y + m - 1) + d - 1"
    "local_secs off (go_date off y m d h mi s) = h * 3600 + mi * 60 + s"
    unfolding e using assms local_of_date unfolding valid_hm_def by blast+
qed

lemma hms_split: "t_hour off t * 3600 + t_minute off t * 60 + t_second off t = local_secs off t"
proof -
  have "s div 3600 * 3600 + s mod 3600 div 60 * 60 + s mod 60 = s" for s :: int
  proof -
    have "s mod 60 = s mod 3600 mod 60"
      by (rule mod_mod_cancel [symmetric]) simp
    then show ?thesis
      by (metis div_mult_mod_eq add.assoc)
  qed
  then show ?thesis by (simp add: t_hour_def t_minute_def t_second_def)
qed

lemma date_of_fields:
  "go_date off (t_year off t) (t_month off t) (t_day off t + j) (t_hour off t) (t_minute off t) (t_second off t)
     = t + j * 86400"
proof -
  have "month_start (12 * t_year off t + t_month off t - 1) = local_day off t - (t_day off t - 1)"
    using month_start_of_index [of "local_day off t"]
    unfolding monthly_idx_fields [symmetric] monthly_idx_def t_day_def .
  then show ?thesis
    using hms_split [of off t] local_split [of t off]
    unfolding go_date_index by (simp add: algebra_simps)
qed

lemma add_date_days: "add_date off t 0 0 j = t + j * 86400"
  using date_of_fields [of off t j] by (simp add: add_date_def)

lemma day_date:
  "go_date off (t_year off t) (t_month off t) (t_day off t) h mi s
     = local_day off t * 86400 + h * 3600 + mi * 60 + s - off"
proof -
  have "month_start (12 * t_year off t + t_month off t - 1) = local_day off t - (t_day off t - 1)"
    using month_start_of_index [of "local_day off t"]
    unfolding monthly_idx_fields [symmetric] monthly_idx_def t_day_def .
  then show ?thesis
    unfolding go_date_index by (simp add: algebra_simps)
qed

text \<open>The start of the monthly cycle and the following boundary, as the code computes them.\<close>

lemma monthly_start_clock:
  fixes off now :: int
  defines "prev \<equiv> go_date off (t_year off now) (t_month off now - 1) 1 0 0 0"
  shows "(if now < clamped_date off (t_year off now) (t_month off now) day h mi 0
      then clamped_date off (t_year off prev) (t_month off prev) day h mi 0
      else clamped_date off (t_year off now) (t_month off now) day h mi 0)
    = cycle_start (monthly_bnd off day (h * 3600 + mi * 60)) (monthly_idx off) now"
proof -
  have p: "monthly_idx off prev = monthly_idx off now - 1"
    unfolding prev_def monthly_idx_fields [of off "go_date off y m d h mi s" for y m d h mi s]
      first_of_month_fields unfolding monthly_idx_fields by simp
  show ?thesis
    unfolding clamped_date_bnd [OF t_month_range] monthly_idx_fields [symmetric] p cycle_start_def
    by (simp only: add_0_right)
qed

definition reset_secs :: "string \<Rightarrow> int" where
  "reset_secs v = (case parse_hhmm v of None \<Rightarrow> 0 | Some (h, m) \<Rightarrow> h * 3600 + m * 60)"

lemma valid_hm_reset_secs: "valid_hm (reset_secs v)"
  by (auto simp: reset_secs_def valid_hm_def split: option.split dest: parse_hhmm_range)

abbreviation month_reset :: "int \<Rightarrow> string \<Rightarrow> int \<Rightarrow> unix_time" where
  "month_reset day time \<equiv> monthly_bnd shanghai day (reset_secs time)"

lemma month_reset_clock: "1 \<le> day \<Longrightarrow> reset_clock (month_reset day time) (monthly_idx shanghai)"
  by (rule monthly_clock [OF _ valid_hm_reset_secs])

end
