(* ===== verification/Renewal.thy ===== *)
theory Renewal
  imports Tables ResetCycle
begin

text \<open>
  Server renewal (\<open>panel/internal/server/renewal.go\<close>): the next expiration of a renewal
  period, the renewal settings update with its rules on period, anchor day and automatic
  renewal, and the automatic renewal job with its catch-up loop.
\<close>

datatype renewal_error = ErrInvalidRenewalPeriod | ErrRenewalNotFound | ErrAutoRenewRequirements

record renewal_update =
  expires_at_set :: bool
  upd_expires_at :: "unix_time option"
  renewal_period_set :: bool
  upd_period_months :: "int option"
  auto_renew_set :: bool
  upd_auto_renew :: bool

definition valid_renewal_period :: "int \<Rightarrow> bool" where
  "valid_renewal_period months \<longleftrightarrow> months \<in> {1, 3, 6, 12, 24, 36}"

definition next_renewal_expiration :: "unix_time \<Rightarrow> int \<Rightarrow> int \<Rightarrow> renewal_error + unix_time" where
  "next_renewal_expiration current period anchor =
     (if \<not> valid_renewal_period period \<or> anchor < 1 \<or> anchor > 31 then Inl ErrInvalidRenewalPeriod
      else
        let target = go_date shanghai (t_year shanghai current) (t_month shanghai current + period) 1 0 0 0;
            last_day = t_day shanghai
              (go_date shanghai (t_year shanghai target) (t_month shanghai target + 1) 0 0 0 0);
            day = (if anchor > last_day then last_day else anchor)
        in Inr (go_date shanghai (t_year shanghai target) (t_month shanghai target) day 23 59 59))"

text \<open>\<open>UpdateRenewalSettings\<close>: the new column values, then the guarded \<open>UPDATE\<close>.\<close>

definition renewal_columns ::
  "renewal_update \<Rightarrow> server_row \<Rightarrow> renewal_error + (unix_time option \<times> int option \<times> bool \<times> int option)" where
  "renewal_columns u row =
     (let expires = (if expires_at_set u then upd_expires_at u else srv_expires_at row);
          period = (if renewal_period_set u then upd_period_months u else srv_period row);
          auto = (if auto_renew_set u then upd_auto_renew u else srv_auto_renew row);
          anchor = srv_anchor row
      in if auto_renew_set u \<and> upd_auto_renew u \<and> (expires = None \<or> period = None)
         then Inl ErrAutoRenewRequirements
         else Inr (case expires of
            None \<Rightarrow> (None, None, False, None)
          | Some e \<Rightarrow> (case period of
               None \<Rightarrow> (expires, None, False, None)
             | Some p \<Rightarrow>
                 if expires_at_set u \<or> (renewal_period_set u \<and> anchor = None)
                 then (expires, period, auto, Some (t_day shanghai e))
                 else (expires, period, auto, anchor))))"

definition update_renewal_settings ::
  "unix_time \<Rightarrow> id64 \<Rightarrow> renewal_update \<Rightarrow> panel_db \<Rightarrow> renewal_error + panel_db" where
  "update_renewal_settings now sid u d =
     (if renewal_period_set u \<and>
         (case upd_period_months u of None \<Rightarrow> False | Some m \<Rightarrow> \<not> valid_renewal_period m)
      then Inl ErrInvalidRenewalPeriod
      else case sql_first (live_server sid) (servers d) of
        None \<Rightarrow> Inl ErrRenewalNotFound
      | Some row \<Rightarrow> (case renewal_columns u row of
          Inl e \<Rightarrow> Inl e
        | Inr (expires, period, auto, anchor) \<Rightarrow>
            Inr (d\<lparr>servers := sql_update (live_server sid)
              (\<lambda>r. r\<lparr>srv_expires_at := expires, srv_period := period, srv_auto_renew := auto,
                     srv_anchor := anchor, srv_updated_at := now\<rparr>) (servers d)\<rparr>)))"

section \<open>The next expiration\<close>

text \<open>
  In the numbering of months the next expiration is the clamped anchor day, 23:59:59, of the
  month \<open>period\<close> months after the current expiration's.
\<close>

lemma next_renewal_bnd:
  assumes "valid_renewal_period p" "1 \<le> anchor" "anchor \<le> 31"
  shows "next_renewal_expiration e p anchor =
    Inr (monthly_bnd shanghai anchor 86399 (monthly_idx shanghai e + p))"
proof -
  let ?t = "go_date shanghai (t_year shanghai e) (t_month shanghai e + p) 1 0 0 0"
  have k: "12 * t_year shanghai ?t + t_month shanghai ?t - 1 = monthly_idx shanghai e + p"
    unfolding first_of_month_fields monthly_idx_fields by simp
  have "next_renewal_expiration e p anchor =
      Inr (clamped_date shanghai (t_year shanghai ?t) (t_month shanghai ?t) anchor 23 59 59)"
    using assms by (simp add: next_renewal_expiration_def clamped_date_def Let_def)
  also have "\<dots> = Inr (monthly_bnd shanghai anchor (23 * 3600 + 59 * 60 + 59)
      (12 * t_year shanghai ?t + t_month shanghai ?t - 1))"
    by (simp only: clamped_date_bnd [OF t_month_range])
  finally show ?thesis unfolding k by simp
qed

lemma renewal_clock: "1 \<le> anchor \<Longrightarrow> reset_clock (monthly_bnd off anchor 86399) (monthly_idx off)"
  by (rule monthly_clock) (simp_all add: valid_hm_def)

lemma valid_renewal_period_pos: "valid_renewal_period p \<Longrightarrow> 1 \<le> p"
  by (auto simp: valid_renewal_period_def)

lemma next_renewal_InrD:
  assumes "next_renewal_expiration e p anchor = Inr e'"
  shows "valid_renewal_period p" "1 \<le> anchor" "anchor \<le> 31"
    "e' = monthly_bnd shanghai anchor 86399 (monthly_idx shanghai e + p)"
proof -
  show a: "valid_renewal_period p" "1 \<le> anchor" "anchor \<le> 31"
    using assms by (auto simp: next_renewal_expiration_def split: if_splits)
  show "e' = monthly_bnd shanghai anchor 86399 (monthly_idx shanghai e + p)"
    using assms next_renewal_bnd [OF a] by simp
qed

lemma next_renewal_later:
  assumes "next_renewal_expiration e p anchor = Inr e'"
  shows "e < e'"
proof -
  note a = next_renewal_InrD [OF assms]
  have "e < monthly_bnd shanghai anchor 86399 (monthly_idx shanghai e + 1)"
    by (rule reset_clock.idx_upper [OF renewal_clock [OF a(2)]])
  also have "\<dots> \<le> monthly_bnd shanghai anchor 86399 (monthly_idx shanghai e + p)"
    by (rule reset_clock.bnd_mono [OF renewal_clock [OF a(2)]])
      (use valid_renewal_period_pos [OF a(1)] in simp)
  finally show ?thesis using a(4) by simp
qed

section \<open>The automatic renewal job\<close>

function catch_up :: "unix_time \<Rightarrow> int \<Rightarrow> int \<Rightarrow> unix_time \<Rightarrow> renewal_error + unix_time" where
  "catch_up now period anchor e =
     (if now < e then Inr e
      else case next_renewal_expiration e period anchor of
        Inl err \<Rightarrow> Inl err
      | Inr e' \<Rightarrow> catch_up now period anchor e')"
  by pat_completeness auto
termination
  by (relation "measure (\<lambda>(now, period, anchor, e). nat (now - e + 1))")
    (auto dest: next_renewal_later)

declare catch_up.simps [simp del]






text \<open>
  The catch-up loop returns the first expiration after \<open>now\<close> in the arithmetic sequence of
  months that starts at the old expiration, always on the anchor day.
\<close>

lemma catch_up_spec:
  assumes "valid_renewal_period p" "1 \<le> anchor" "anchor \<le> 31" "e \<le> now"
  shows "\<exists>j \<ge> 1. catch_up now p anchor e =
      Inr (monthly_bnd shanghai anchor 86399 (monthly_idx shanghai e + j * p)) \<and>
    now < monthly_bnd shanghai anchor 86399 (monthly_idx shanghai e + j * p) \<and>
    (j = 1 \<or> monthly_bnd shanghai anchor 86399 (monthly_idx shanghai e + (j - 1) * p) \<le> now)"
  using assms(4)
proof (induction "nat (now - e)" arbitrary: e rule: less_induct)
  case less
  let ?b = "\<lambda>k. monthly_bnd shanghai anchor 86399 k"
  let ?e' = "?b (monthly_idx shanghai e + p)"
  have nxt: "next_renewal_expiration e p anchor = Inr ?e'"
    by (rule next_renewal_bnd [OF assms(1-3)])
  have step: "catch_up now p anchor e = catch_up now p anchor ?e'"
    using less.prems nxt by (subst catch_up.simps) simp
  have idx: "monthly_idx shanghai ?e' = monthly_idx shanghai e + p"
    using assms(2) by (simp add: monthly_idx_bnd valid_hm_def)
  show ?case
  proof (cases "now < ?e'")
    case True
    then have "catch_up now p anchor ?e' = Inr ?e'"
      by (subst catch_up.simps) simp
    with True step show ?thesis by (intro exI [of _ 1]) simp
  next
    case False
    then obtain j where "1 \<le> j" "catch_up now p anchor ?e' = Inr (?b (monthly_idx shanghai e + p + j * p))"
      "now < ?b (monthly_idx shanghai e + p + j * p)"
      "j = 1 \<or> ?b (monthly_idx shanghai e + p + (j - 1) * p) \<le> now"
      using less.hyps [of ?e'] next_renewal_later [OF nxt] less.prems idx by auto
    with False step show ?thesis
      by (intro exI [of _ "j + 1"]) (auto simp: algebra_simps)
  qed
qed

text \<open>
  C28. The catch-up loop of \<open>ApplyAutomaticRenewals\<close> terminates for every server whose
  period and anchor day satisfy the schema's checks, and it returns the first expiration after
  \<open>now\<close> among those \<open>period\<close>, \<open>2 * period\<close>, \<dots> months after the old one, at 23:59:59
  Shanghai time of the anchor day (clamped to the month), so repeated renewals never drift.
\<close>

theorem catch_up_first_after_now:
  assumes "valid_renewal_period p" "1 \<le> anchor" "anchor \<le> 31" "e \<le> now"
  shows "\<exists>j \<ge> 1. catch_up now p anchor e =
      Inr (monthly_bnd shanghai anchor 86399 (monthly_idx shanghai e + j * p)) \<and>
    now < monthly_bnd shanghai anchor 86399 (monthly_idx shanghai e + j * p) \<and>
    (j = 1 \<or> monthly_bnd shanghai anchor 86399 (monthly_idx shanghai e + (j - 1) * p) \<le> now)"
  using assms by (rule catch_up_spec)

text \<open>A server that expired on 2024-01-31 with a monthly period, renewed on 2024-04-15.\<close>

theorem catch_up_first_after_now_witness:
  "\<exists>j \<ge> 1. catch_up 1713139200 1 31 1706716799 =
      Inr (monthly_bnd shanghai 31 86399 (monthly_idx shanghai 1706716799 + j * 1)) \<and>
    1713139200 < monthly_bnd shanghai 31 86399 (monthly_idx shanghai 1706716799 + j * 1) \<and>
    (j = 1 \<or> monthly_bnd shanghai 31 86399 (monthly_idx shanghai 1706716799 + (j - 1) * 1) \<le> 1713139200)"
  by (rule catch_up_first_after_now) (simp_all add: valid_renewal_period_def)

lemma catch_up_1713139200: "catch_up 1713139200 1 31 1706716799 = Inr 1714492799"
  by code_simp

section \<open>The job as one pass over the table\<close>

text \<open>The schema's checks on the renewal columns, and what the settings update maintains.\<close>

definition renewal_row_ok :: "server_row \<Rightarrow> bool" where
  "renewal_row_ok r \<longleftrightarrow>
     (case srv_period r of None \<Rightarrow> True | Some p \<Rightarrow> valid_renewal_period p) \<and>
     (case srv_anchor r of None \<Rightarrow> True | Some a \<Rightarrow> 1 \<le> a \<and> a \<le> 31) \<and>
     (srv_period r \<noteq> None \<longrightarrow> srv_expires_at r \<noteq> None) \<and>
     (srv_anchor r \<noteq> None \<longleftrightarrow> srv_period r \<noteq> None) \<and>
     (srv_auto_renew r \<longrightarrow> srv_period r \<noteq> None)"








section \<open>The settings update\<close>

lemma renewal_columns_ok:
  assumes "renewal_row_ok row" "renewal_columns u row = Inr (expires, period, auto, anchor)"
    and "case upd_period_months u of None \<Rightarrow> True | Some m \<Rightarrow> valid_renewal_period m"
  shows "renewal_row_ok (row\<lparr>srv_expires_at := expires, srv_period := period, srv_auto_renew := auto,
    srv_anchor := anchor, srv_updated_at := now\<rparr>)"
proof -
  define e where "e = (if expires_at_set u then upd_expires_at u else srv_expires_at row)"
  define p where "p = (if renewal_period_set u then upd_period_months u else srv_period row)"
  have cols: "renewal_columns u row =
    (if auto_renew_set u \<and> upd_auto_renew u \<and> (e = None \<or> p = None) then Inl ErrAutoRenewRequirements
     else Inr (case e of None \<Rightarrow> (None, None, False, None)
       | Some x \<Rightarrow> (case p of None \<Rightarrow> (e, None, False, None)
          | Some m \<Rightarrow> if expires_at_set u \<or> (renewal_period_set u \<and> srv_anchor row = None)
              then (e, p, if auto_renew_set u then upd_auto_renew u else srv_auto_renew row, Some (t_day shanghai x))
              else (e, p, if auto_renew_set u then upd_auto_renew u else srv_auto_renew row, srv_anchor row))))"
    unfolding renewal_columns_def Let_def e_def p_def by (simp split: option.split)
  have p_ok: "p = Some m \<Longrightarrow> valid_renewal_period m" for m
    using assms(1,3) by (auto simp: p_def renewal_row_ok_def split: if_splits)
  have anchor_ok: "srv_anchor row = Some a \<Longrightarrow> 1 \<le> a \<and> a \<le> 31" for a
    using assms(1) by (simp add: renewal_row_ok_def)
  have old: "p \<noteq> None \<Longrightarrow> \<not> renewal_period_set u \<Longrightarrow> srv_anchor row \<noteq> None"
    using assms(1) by (simp add: p_def renewal_row_ok_def)
  show ?thesis
  proof (cases e)
    case None
    then show ?thesis
      using assms(2) unfolding cols by (auto simp: renewal_row_ok_def split: if_splits)
  next
    case (Some x)
    show ?thesis
    proof (cases p)
      case None
      then show ?thesis
        using assms(2) Some unfolding cols by (auto simp: renewal_row_ok_def split: if_splits)
    next
      case (Some m)
      then show ?thesis
        using assms(2) \<open>e = Some x\<close> p_ok anchor_ok old t_day_range [of shanghai x] unfolding cols
        by (auto simp: renewal_row_ok_def split: if_splits)
    qed
  qed
qed

text \<open>
  \<open>UpdateRenewalSettings\<close> keeps the renewal invariant (a valid period needs an
  expiration, automatic renewal needs both, an anchor day exists exactly with a period) for
  every server, for every combination of set and cleared fields, and changes nothing but the
  server rows.
\<close>

theorem update_renewal_keeps_invariant:
  assumes "update_renewal_settings now sid u d = Inr d'"
    and "\<forall>r \<in> set (servers d). renewal_row_ok r" and "distinct (map srv_id (servers d))"
    and "renewal_period_set u \<or> upd_period_months u = None"
  shows "(\<forall>r \<in> set (servers d'). renewal_row_ok r) \<and> d' = d\<lparr>servers := servers d'\<rparr> \<and>
    (\<forall>r \<in> set (servers d). srv_id r \<noteq> sid \<longrightarrow> r \<in> set (servers d'))"
proof -
  obtain row expires period auto anchor where r: "sql_first (live_server sid) (servers d) = Some row"
    "renewal_columns u row = Inr (expires, period, auto, anchor)"
    "d' = d\<lparr>servers := sql_update (live_server sid)
      (\<lambda>r. r\<lparr>srv_expires_at := expires, srv_period := period, srv_auto_renew := auto,
        srv_anchor := anchor, srv_updated_at := now\<rparr>) (servers d)\<rparr>"
    and p: "case upd_period_months u of None \<Rightarrow> True | Some m \<Rightarrow> valid_renewal_period m"
    using assms(1,4) by (auto simp: update_renewal_settings_def split: if_splits option.splits sum.splits)
  have row: "row \<in> set (servers d)" "srv_id row = sid"
    using sql_first_SomeD [OF r(1)] by auto
  have new: "renewal_row_ok (r\<lparr>srv_expires_at := expires, srv_period := period, srv_auto_renew := auto,
      srv_anchor := anchor, srv_updated_at := now\<rparr>)" if "r \<in> set (servers d)" "srv_id r = sid" for r
  proof -
    have "r = row"
      using distinct_key_unique [OF assms(3) that(1) row(1)] that(2) row(2) by simp
    then show ?thesis
      using renewal_columns_ok [OF _ r(2) p] assms(2) row(1) by blast
  qed
  have t: "servers d' = sql_update (live_server sid)
      (\<lambda>r. r\<lparr>srv_expires_at := expires, srv_period := period, srv_auto_renew := auto,
        srv_anchor := anchor, srv_updated_at := now\<rparr>) (servers d)"
    unfolding r(3) by simp
  have "\<forall>r \<in> set (servers d'). renewal_row_ok r"
    unfolding t by (rule sql_update_all) (use assms(2) new in auto)
  moreover have "d' = d\<lparr>servers := servers d'\<rparr>"
    unfolding r(3) by simp
  moreover have "r \<in> set (servers d')" if "r \<in> set (servers d)" "srv_id r \<noteq> sid" for r
    unfolding t by (rule sql_update_keeps) (use that in simp_all)
  ultimately show ?thesis
    by blast
qed

definition quarterly_update :: renewal_update where
  "quarterly_update = \<lparr>expires_at_set = True, upd_expires_at = Some 1706716799, renewal_period_set = True,
     upd_period_months = Some 3, auto_renew_set = True, upd_auto_renew = True\<rparr>"

lemma quarterly_columns:
  "renewal_columns quarterly_update r = Inr (Some 1706716799, Some 3, True, Some (t_day shanghai 1706716799))"
  by (simp add: renewal_columns_def quarterly_update_def)

theorem update_renewal_keeps_invariant_witness:
  "\<exists>d'. update_renewal_settings 1700000000 1 quarterly_update (empty_db\<lparr>servers := [plain_server 1]\<rparr>) = Inr d' \<and>
    (\<forall>r \<in> set (servers d'). renewal_row_ok r)"
proof -
  let ?d = "empty_db\<lparr>servers := [plain_server 1]\<rparr>"
  have first: "sql_first (live_server 1) (servers ?d) = Some (plain_server 1)"
    by (simp add: sql_first_def plain_server_def)
  have valid: "\<not> (renewal_period_set quarterly_update \<and>
      (case upd_period_months quarterly_update of None \<Rightarrow> False | Some m \<Rightarrow> \<not> valid_renewal_period m))"
    by (simp add: quarterly_update_def valid_renewal_period_def)
  have "\<exists>d'. update_renewal_settings 1700000000 1 quarterly_update ?d = Inr d'"
    unfolding update_renewal_settings_def if_not_P [OF valid] first option.case quarterly_columns
      sum.case prod.case by (rule exI) (rule refl)
  then obtain d' where d': "update_renewal_settings 1700000000 1 quarterly_update ?d = Inr d'" ..
  have "\<forall>r \<in> set (servers ?d). renewal_row_ok r" "distinct (map srv_id (servers ?d))"
    "renewal_period_set quarterly_update \<or> upd_period_months quarterly_update = None"
    by (simp_all add: plain_server_def renewal_row_ok_def quarterly_update_def)
  then show ?thesis
    using update_renewal_keeps_invariant [OF d'] d' by blast
qed

end
