(* ===== verification/Counters.thy ===== *)
theory Counters
  imports Prelude
begin

text \<open>
  Monotone byte counters read at intervals. A counter may fall back to a smaller value when its
  process restarts. The locale \<open>counter_delta\<close> is what the three accounting components
  rely on for the difference of two successive readings; each of them interprets it on its own
  delta function.
\<close>

section \<open>The contract\<close>

fun metered :: "(int \<Rightarrow> int \<Rightarrow> int) \<Rightarrow> int \<Rightarrow> int list \<Rightarrow> int" where
  "metered delta prev [] = 0"
| "metered delta prev (x # xs) = delta prev x + metered delta x xs"

definition last_reading :: "int \<Rightarrow> int list \<Rightarrow> int" where
  "last_reading prev xs = last (prev # xs)"

lemma last_reading_simps [simp]:
  "last_reading prev [] = prev" "last_reading prev (x # xs) = last_reading x xs"
  by (simp_all add: last_reading_def)

lemma metered_append:
  "metered delta prev (xs @ ys) = metered delta prev xs + metered delta (last_reading prev xs) ys"
  by (induction xs arbitrary: prev) simp_all

text \<open>The readings of a counter: not negative and representable.\<close>

definition reading :: "int \<Rightarrow> bool" where
  "reading x \<longleftrightarrow> 0 \<le> x \<and> x \<le> max_int64"

lemma reading_last: "reading prev \<Longrightarrow> \<forall>x \<in> set xs. reading x \<Longrightarrow> reading (last_reading prev xs)"
  by (induction xs arbitrary: prev) simp_all

locale counter_delta =
  fixes delta :: "int \<Rightarrow> int \<Rightarrow> int"
  assumes delta_nonneg: "reading prev \<Longrightarrow> reading cur \<Longrightarrow> 0 \<le> delta prev cur"
    and delta_le: "reading prev \<Longrightarrow> reading cur \<Longrightarrow> delta prev cur \<le> cur"
    and delta_grow: "reading prev \<Longrightarrow> reading cur \<Longrightarrow> prev \<le> cur \<Longrightarrow> delta prev cur = cur - prev"
    and delta_restart: "reading prev \<Longrightarrow> reading cur \<Longrightarrow> cur < prev \<Longrightarrow> delta prev cur = 0"
begin

lemma delta_in64: "reading prev \<Longrightarrow> reading cur \<Longrightarrow> in64 (delta prev cur)"
  using delta_nonneg [of prev cur] delta_le [of prev cur]
  by (simp add: reading_def int64_bounds)

lemma delta_reading: "reading prev \<Longrightarrow> reading cur \<Longrightarrow> reading (delta prev cur)"
  using delta_nonneg [of prev cur] delta_le [of prev cur] by (simp add: reading_def)

lemma delta_max: "reading prev \<Longrightarrow> reading cur \<Longrightarrow> delta prev cur = max 0 (cur - prev)"
  using delta_grow [of prev cur] delta_restart [of prev cur] by (cases "prev \<le> cur") auto

lemma metered_nonneg: "reading prev \<Longrightarrow> \<forall>x \<in> set xs. reading x \<Longrightarrow> 0 \<le> metered delta prev xs"
  by (induction xs arbitrary: prev) (auto intro!: add_nonneg_nonneg delta_nonneg)

text \<open>A counter that never falls is metered exactly; a restart loses at most what was counted
  before the first reading after it.\<close>

lemma metered_sorted:
  "reading prev \<Longrightarrow> \<forall>x \<in> set xs. reading x \<Longrightarrow> sorted (prev # xs) \<Longrightarrow>
    metered delta prev xs = last_reading prev xs - prev"
proof (induction xs arbitrary: prev)
  case (Cons x xs)
  then have "metered delta x xs = last_reading x xs - x" "delta prev x = x - prev"
    by (auto intro: delta_grow)
  then show ?case by simp
qed simp

lemma metered_restart:
  assumes "reading prev" "\<forall>x \<in> set xs. reading x" "sorted (prev # xs)"
    and "\<forall>x \<in> set (y # ys). reading x" "sorted (y # ys)" "y < last_reading prev xs"
  shows "metered delta prev (xs @ y # ys) = (last_reading prev xs - prev) + (last_reading y ys - y)"
proof -
  have "delta (last_reading prev xs) y = 0"
    using assms reading_last by (auto intro: delta_restart)
  then show ?thesis
    using assms by (simp add: metered_append metered_sorted)
qed

lemma metered_lower: 
  "reading prev \<Longrightarrow> \<forall>x \<in> set xs. reading x \<Longrightarrow> last_reading prev xs - prev \<le> metered delta prev xs"
proof (induction xs arbitrary: prev)
  case (Cons x xs)
  then have "last_reading x xs - x \<le> metered delta x xs" "x - prev \<le> delta prev x"
    by (auto simp: delta_max)
  then show ?case by simp
qed simp

end

section \<open>Saturating sums\<close>

text \<open>The overflow guard the code writes before every addition of two counters.\<close>

lemma guard_iff:
  assumes "reading b"
  shows "a > sub64 max_int64 b \<longleftrightarrow> a + b > max_int64"
proof -
  have "sub64 max_int64 b = max_int64 - b"
    using assms by (simp add: sub64_nonneg reading_def max_int64_def)
  then show ?thesis by linarith
qed

lemma reading_add: "reading a \<Longrightarrow> reading b \<Longrightarrow> \<not> a > sub64 max_int64 b \<Longrightarrow> reading (a + b) \<and> add64 a b = a + b"
  using guard_iff [of b a] by (auto simp: reading_def add64_def int64_bounds intro!: wrap64_id)

lemma reading_0 [simp]: "reading 0"
  by (simp add: reading_def max_int64_def)

lemma reading_in64: "reading a \<Longrightarrow> in64 a"
  by (simp add: reading_def int64_bounds)

end
