(* ===== verification/ServerTraffic.thy ===== *)
theory ServerTraffic
  imports Tables ResetCycle Counters
begin

text \<open>
  Server traffic (\<open>panel/internal/server/traffic.go\<close>, \<open>ReportMetrics\<close> of
  \<open>metrics.go\<close>): the monthly cycle of a server, the metered bytes of a cycle, the
  administrator's adjustment, and the Agent's metrics report. An operation is a function of the
  clock, its arguments and the database; \<open>Inl\<close> is the error returned, after the rollback.
\<close>

datatype server_error = ErrServerNotFound | ErrInvalidMetrics | ErrInvalidTrafficConfig
  | ErrInvalidTrafficTarget | ErrInvalidAgentToken

record traffic_config =
  monthly_limit_bytes :: "int option"
  count_mode :: string
  reset_day :: int
  reset_time :: string

record metrics_report =
  rep_gauges :: gauges
  rep_has_network :: bool
  rep_nic_rx :: int
  rep_nic_tx :: int

section \<open>Usage\<close>

definition measured_traffic_used_bytes :: "string \<Rightarrow> int \<Rightarrow> int \<Rightarrow> int" where
  "measured_traffic_used_bytes mode cycle_rx cycle_tx =
     (let tx = max cycle_tx 0 in
      if mode \<noteq> ''bidirectional'' then tx
      else let rx = max cycle_rx 0 in
        if rx > sub64 max_int64 tx then max_int64 else add64 rx tx)"

definition server_measured_bytes :: "string \<Rightarrow> metrics_row option \<Rightarrow> int" where
  "server_measured_bytes mode m = (case m of
     None \<Rightarrow> 0
   | Some r \<Rightarrow> measured_traffic_used_bytes mode (met_cycle_rx r) (met_cycle_tx r))"

definition traffic_used_bytes :: "string \<Rightarrow> metrics_row option \<Rightarrow> int" where
  "traffic_used_bytes mode m =
     (let measured = server_measured_bytes mode m in
      case m of
        None \<Rightarrow> measured
      | Some r \<Rightarrow>
          let adjustment = met_adjustment r in
          if adjustment > 0 \<and> measured > sub64 max_int64 adjustment then max_int64
          else if adjustment < 0 \<and> adjustment < neg64 measured then 0
          else add64 measured adjustment)"

section \<open>The traffic cycle\<close>

definition valid_traffic_reset_time :: "string \<Rightarrow> bool" where
  "valid_traffic_reset_time v = (case parse_hhmm v of None \<Rightarrow> False | Some (h, m) \<Rightarrow> format_hhmm h m = v)"

definition monthly_traffic_boundary :: "int \<Rightarrow> int \<Rightarrow> int \<Rightarrow> int \<Rightarrow> int \<Rightarrow> int \<Rightarrow> unix_time" where
  "monthly_traffic_boundary year month day hour minute location =
     (let last_day = t_day location (go_date location year (month + 1) 0 0 0 0);
          day' = (if day > last_day then last_day else day)
      in go_date location year month day' hour minute 0)"

definition traffic_cycle_start :: "unix_time \<Rightarrow> int \<Rightarrow> string \<Rightarrow> server_error + unix_time" where
  "traffic_cycle_start now day time = (case parse_hhmm time of
     None \<Rightarrow> Inl ErrInvalidTrafficConfig
   | Some (h, m) \<Rightarrow>
       if format_hhmm h m \<noteq> time \<or> day < 1 \<or> day > 31 then Inl ErrInvalidTrafficConfig
       else
         let boundary = monthly_traffic_boundary (t_year shanghai now) (t_month shanghai now) day h m shanghai
         in if now < boundary then
              let previous = go_date shanghai (t_year shanghai now) (t_month shanghai now - 1) 1 0 0 0
              in Inr (monthly_traffic_boundary (t_year shanghai previous) (t_month shanghai previous)
                   day h m shanghai)
            else Inr boundary)"

section \<open>Configuration and adjustment\<close>

definition update_traffic_config ::
  "unix_time \<Rightarrow> id64 \<Rightarrow> traffic_config \<Rightarrow> panel_db \<Rightarrow> server_error + panel_db" where
  "update_traffic_config now sid c d =
     (if (case monthly_limit_bytes c of None \<Rightarrow> False | Some l \<Rightarrow> l < 0) \<or>
         (count_mode c \<noteq> ''single'' \<and> count_mode c \<noteq> ''bidirectional'') \<or>
         reset_day c < 1 \<or> reset_day c > 31 \<or> \<not> valid_traffic_reset_time (reset_time c)
      then Inl ErrInvalidTrafficConfig
      else
        let limit = (case monthly_limit_bytes c of None \<Rightarrow> None | Some l \<Rightarrow> if l > 0 then Some l else None)
        in if sql_count (live_server sid) (servers d) \<noteq> 1 then Inl ErrServerNotFound
           else Inr (d\<lparr>servers := sql_update (live_server sid)
             (\<lambda>r. r\<lparr>srv_limit := limit, srv_count_mode := count_mode c, srv_reset_day := reset_day c,
                    srv_reset_time := reset_time c, srv_updated_at := now\<rparr>) (servers d)\<rparr>))"

abbreviation metrics_of :: "id64 \<Rightarrow> metrics_row \<Rightarrow> bool" where
  "metrics_of sid \<equiv> (\<lambda>m. met_server_id m = sid)"

definition zero_gauges :: gauges where
  "zero_gauges = \<lparr>g_cpu_percent = Finite 0, g_memory_used = 0, g_memory_total = 0, g_disk_used = 0,
     g_disk_total = 0, g_uptime = 0\<rparr>"

definition new_metrics :: "id64 \<Rightarrow> unix_time \<Rightarrow> metrics_row" where
  "new_metrics sid now = \<lparr>met_server_id = sid, met_gauges = zero_gauges, met_nic_rx = 0, met_nic_tx = 0,
     met_cycle_rx = 0, met_cycle_tx = 0, met_adjustment = 0, met_cycle_started = None,
     met_updated_at = now\<rparr>"

definition update_traffic_adjustment ::
  "unix_time \<Rightarrow> id64 \<Rightarrow> int \<Rightarrow> panel_db \<Rightarrow> server_error + panel_db" where
  "update_traffic_adjustment now sid target d =
     (if target < 0 then Inl ErrInvalidTrafficTarget
      else case sql_first (live_server sid) (servers d) of
        None \<Rightarrow> Inl ErrServerNotFound
      | Some s \<Rightarrow>
          let m = sql_first (metrics_of sid) (server_metrics d);
              measured = measured_traffic_used_bytes (srv_count_mode s)
                (case m of None \<Rightarrow> 0 | Some r \<Rightarrow> met_cycle_rx r)
                (case m of None \<Rightarrow> 0 | Some r \<Rightarrow> met_cycle_tx r);
              adjustment = sub64 target measured
          in Inr (d\<lparr>server_metrics := sql_upsert (metrics_of sid)
               ((new_metrics sid now)\<lparr>met_adjustment := adjustment\<rparr>)
               (\<lambda>r. r\<lparr>met_adjustment := adjustment\<rparr>) (server_metrics d)\<rparr>))"

definition clear_traffic_adjustment :: "id64 \<Rightarrow> panel_db \<Rightarrow> server_error + panel_db" where
  "clear_traffic_adjustment sid d =
     (case sql_first (live_server sid) (servers d) of
        None \<Rightarrow> Inl ErrServerNotFound
      | Some s \<Rightarrow> Inr (d\<lparr>server_metrics := sql_update (metrics_of sid)
          (\<lambda>r. r\<lparr>met_adjustment := 0\<rparr>) (server_metrics d)\<rparr>))"

section \<open>The metrics report\<close>

definition traffic_delta :: "int \<Rightarrow> int \<Rightarrow> int" where
  "traffic_delta current previous = (if current < previous then 0 else sub64 current previous)"

definition valid_cpu :: "go_float \<Rightarrow> bool" where
  "valid_cpu x = (case x of FNaN \<Rightarrow> False | FInf _ \<Rightarrow> False | Finite q \<Rightarrow> \<not> q < 0 \<and> \<not> q > 100)"

definition invalid_metrics_report :: "metrics_report \<Rightarrow> bool" where
  "invalid_metrics_report rep =
     (let g = rep_gauges rep in
      \<not> valid_cpu (g_cpu_percent g) \<or> g_memory_used g < 0 \<or> g_memory_total g < 0 \<or>
      g_memory_used g > g_memory_total g \<or> g_disk_used g < 0 \<or> g_disk_total g < 0 \<or>
      g_disk_used g > g_disk_total g \<or> g_uptime g < 0 \<or> rep_nic_rx rep < 0 \<or> rep_nic_tx rep < 0)"

text \<open>The network part of the report: the metrics row with its counters moved forward.\<close>

definition account_network ::
  "unix_time \<Rightarrow> int \<Rightarrow> string \<Rightarrow> metrics_report \<Rightarrow> metrics_row \<Rightarrow> server_error + metrics_row" where
  "account_network now day time rep m =
     (case traffic_cycle_start now day time of
        Inl e \<Rightarrow> Inl e
      | Inr start \<Rightarrow>
          let counted = (\<lambda>rx tx adj st. m\<lparr>met_nic_rx := rep_nic_rx rep, met_nic_tx := rep_nic_tx rep,
                met_cycle_rx := rx, met_cycle_tx := tx, met_adjustment := adj, met_cycle_started := Some st\<rparr>)
          in case met_cycle_started m of
            None \<Rightarrow> Inr (counted 0 0 (met_adjustment m) start)
          | Some stored \<Rightarrow>
              if stored < start then Inr (counted 0 0 0 start)
              else
                let drx = traffic_delta (rep_nic_rx rep) (met_nic_rx m);
                    dtx = traffic_delta (rep_nic_tx rep) (met_nic_tx m)
                in if met_cycle_rx m > sub64 max_int64 drx \<or> met_cycle_tx m > sub64 max_int64 dtx
                   then Inl ErrInvalidMetrics
                   else Inr (counted (add64 (met_cycle_rx m) drx) (add64 (met_cycle_tx m) dtx)
                          (met_adjustment m) stored))"

definition report_metrics ::
  "unix_time \<Rightarrow> id64 \<Rightarrow> id64 \<Rightarrow> metrics_report \<Rightarrow> panel_db \<Rightarrow> server_error + panel_db" where
  "report_metrics now aid sid rep d =
     (if invalid_metrics_report rep then Inl ErrInvalidMetrics
      else if \<not> sql_exists (\<lambda>a. agt_id a = aid \<and> agt_server_id a = sid) (agents d) then Inl ErrInvalidAgentToken
      else case sql_first (\<lambda>s. srv_id s = sid) (servers d) of
        None \<Rightarrow> Inl ErrInvalidAgentToken
      | Some s \<Rightarrow>
          let m = (case sql_first (metrics_of sid) (server_metrics d) of
                None \<Rightarrow> new_metrics sid now | Some r \<Rightarrow> r)
          in case (if rep_has_network rep then account_network now (srv_reset_day s) (srv_reset_time s) rep m
                   else Inr m) of
            Inl e \<Rightarrow> Inl e
          | Inr m' \<Rightarrow>
              let saved = m'\<lparr>met_gauges := rep_gauges rep, met_updated_at := now\<rparr>
              in Inr (d\<lparr>server_metrics := sql_upsert (metrics_of sid) saved (\<lambda>_. saved) (server_metrics d)\<rparr>))"

section \<open>The cycle is the monthly clock\<close>

abbreviation traffic_cycle :: "int \<Rightarrow> string \<Rightarrow> unix_time \<Rightarrow> unix_time" where
  "traffic_cycle day time \<equiv> cycle_start (month_reset day time) (monthly_idx shanghai)"

abbreviation traffic_next :: "int \<Rightarrow> string \<Rightarrow> unix_time \<Rightarrow> unix_time" where
  "traffic_next day time \<equiv> cycle_next (month_reset day time) (monthly_idx shanghai)"

definition valid_reset_config :: "int \<Rightarrow> string \<Rightarrow> bool" where
  "valid_reset_config day time \<longleftrightarrow> 1 \<le> day \<and> day \<le> 31 \<and> valid_traffic_reset_time time"

lemma traffic_cycle_start_eq:
  assumes "valid_reset_config day time"
  shows "traffic_cycle_start now day time = Inr (traffic_cycle day time now)"
proof -
  obtain h m where hm: "parse_hhmm time = Some (h, m)" "format_hhmm h m = time"
    using assms by (auto simp: valid_reset_config_def valid_traffic_reset_time_def split: option.splits)
  have b: "monthly_traffic_boundary y mo day h m shanghai = clamped_date shanghai y mo day h m 0" for y mo
    by (simp add: monthly_traffic_boundary_def clamped_date_def)
  have "traffic_cycle_start now day time = Inr (cycle_start (monthly_bnd shanghai day (h * 3600 + m * 60))
      (monthly_idx shanghai) now)"
    unfolding monthly_start_clock [symmetric] traffic_cycle_start_def Let_def
    using assms by (simp add: hm valid_reset_config_def b)
  then show ?thesis by (simp add: reset_secs_def hm)
qed

lemma traffic_cycle_start_invalid:
  "\<not> valid_reset_config day time \<Longrightarrow> traffic_cycle_start now day time = Inl ErrInvalidTrafficConfig"
  by (auto simp: valid_reset_config_def valid_traffic_reset_time_def traffic_cycle_start_def split: option.splits)

text \<open>
  \<open>trafficCycleStart\<close> accepts exactly the reset day and time of a valid traffic
  configuration, and then returns the last monthly reset instant (day clamped to the month,
  Shanghai time) that is not after \<open>now\<close>; the one after it is in the future.
\<close>

theorem traffic_cycle_start_current:
  "traffic_cycle_start now day time =
     (if valid_reset_config day time then Inr (traffic_cycle day time now) else Inl ErrInvalidTrafficConfig) \<and>
   (valid_reset_config day time \<longrightarrow>
     (\<exists>k. traffic_cycle day time now = month_reset day time k \<and>
        month_reset day time k \<le> now \<and> now < month_reset day time (k + 1)))"
proof -
  have "\<exists>k. traffic_cycle day time now = month_reset day time k \<and>
        month_reset day time k \<le> now \<and> now < month_reset day time (k + 1)" if "valid_reset_config day time"
    using reset_clock.cycle_cases [OF month_reset_clock, of day time now] that
    unfolding valid_reset_config_def by metis
  then show ?thesis
    by (simp add: traffic_cycle_start_eq traffic_cycle_start_invalid)
qed

text \<open>2024-03-30 with reset day 31: the cycle began on 29 February 2024, 00:00.\<close>

theorem traffic_cycle_start_current_witness:
  "\<exists>k. traffic_cycle 31 ''00:00'' 1711756800 = month_reset 31 ''00:00'' k \<and>
     month_reset 31 ''00:00'' k \<le> 1711756800 \<and> 1711756800 < month_reset 31 ''00:00'' (k + 1)"
proof -
  have "valid_reset_config 31 ''00:00''"
    by (simp add: valid_reset_config_def) code_simp
  then show ?thesis
    using traffic_cycle_start_current [of 1711756800 31 "''00:00''"] by blast
qed

lemma traffic_cycle_start_1711756800: "traffic_cycle_start 1711756800 31 ''00:00'' = Inr 1709136000"
  by code_simp

section \<open>Usage and adjustment\<close>

interpretation nic: counter_delta "\<lambda>prev cur. traffic_delta cur prev"
  by unfold_locales (auto simp: traffic_delta_def reading_def sub64_nonneg)

lemma max_reading: "in64 x \<Longrightarrow> reading (max x 0)"
  by (simp add: reading_def int64_bounds)

lemma measured_eq:
  assumes "in64 rx" "in64 tx"
  shows "measured_traffic_used_bytes mode rx tx =
    (if mode = ''bidirectional'' then min max_int64 (max rx 0 + max tx 0) else max tx 0)"
proof -
  let ?rx = "max rx 0" and ?tx = "max tx 0"
  note r = max_reading [OF assms(1)] max_reading [OF assms(2)]
  show ?thesis
  proof (cases "?rx > sub64 max_int64 ?tx")
    case True
    then show ?thesis
      using guard_iff [OF r(2)] by (simp add: measured_traffic_used_bytes_def Let_def)
  next
    case False
    then show ?thesis
      using guard_iff [OF r(2), of ?rx] reading_add [OF r(1) r(2) False]
      by (simp add: measured_traffic_used_bytes_def Let_def)
  qed
qed

lemma measured_reading: "in64 rx \<Longrightarrow> in64 tx \<Longrightarrow> reading (measured_traffic_used_bytes mode rx tx)"
  by (simp add: measured_eq reading_def int64_bounds)

definition metrics_row_ok :: "metrics_row \<Rightarrow> bool" where
  "metrics_row_ok m \<longleftrightarrow> reading (met_nic_rx m) \<and> reading (met_nic_tx m) \<and>
     reading (met_cycle_rx m) \<and> reading (met_cycle_tx m) \<and> in64 (met_adjustment m) \<and>
     (let g = met_gauges m in valid_cpu (g_cpu_percent g) \<and>
        0 \<le> g_memory_used g \<and> g_memory_used g \<le> g_memory_total g \<and>
        0 \<le> g_disk_used g \<and> g_disk_used g \<le> g_disk_total g \<and> 0 \<le> g_uptime g)"

lemma server_measured_reading:
  "metrics_row_ok m \<Longrightarrow> reading (server_measured_bytes mode (Some m))"
  by (simp add: server_measured_bytes_def metrics_row_ok_def measured_reading reading_in64)

text \<open>
  \<open>TrafficUsedBytes\<close> is the measured usage plus the adjustment, cut off at 0 and at
  the largest \<open>int64\<close>; it never wraps around.
\<close>

theorem traffic_used_bytes_clamped:
  assumes "metrics_row_ok m"
  shows "traffic_used_bytes mode (Some m) =
    max 0 (min max_int64 (server_measured_bytes mode (Some m) + met_adjustment m))"
proof -
  define u where "u = server_measured_bytes mode (Some m)"
  define a where "a = met_adjustment m"
  have u: "0 \<le> u" "u \<le> max_int64"
    using server_measured_reading [OF assms] by (simp_all add: u_def reading_def)
  have a: "in64 a"
    using assms by (simp add: a_def metrics_row_ok_def)
  have n: "neg64 u = - u"
    using u by (intro neg64_exact) (simp add: int64_bounds)
  have used: "traffic_used_bytes mode (Some m) =
      (if a > 0 \<and> u > sub64 max_int64 a then max_int64 else if a < 0 \<and> a < neg64 u then 0 else add64 u a)"
    by (simp add: traffic_used_bytes_def Let_def u_def a_def)
  have guard: "u > sub64 max_int64 a \<longleftrightarrow> u + a > max_int64" if "a > 0"
    using a that by (intro guard_iff) (simp add: reading_def in64_def)
  have sum: "add64 u a = u + a" if "0 \<le> u + a" "u + a \<le> max_int64"
    using that by (intro add64_exact) (simp add: int64_bounds)
  have "traffic_used_bytes mode (Some m) = max 0 (min max_int64 (u + a))"
  proof (cases "a > 0")
    case True
    with guard u sum show ?thesis unfolding used by (simp add: max_int64_def)
  next
    case False
    with u sum show ?thesis unfolding used n by (auto simp: max_int64_def)
  qed
  then show ?thesis by (simp only: u_def a_def)
qed

definition sample_metrics :: "id64 \<Rightarrow> int \<Rightarrow> int \<Rightarrow> int \<Rightarrow> metrics_row" where
  "sample_metrics sid rx tx adj = (new_metrics sid 0)\<lparr>met_nic_rx := rx, met_nic_tx := tx,
     met_cycle_rx := rx, met_cycle_tx := tx, met_adjustment := adj, met_cycle_started := Some 1709136000\<rparr>"

lemma sample_metrics_ok: "reading rx \<Longrightarrow> reading tx \<Longrightarrow> in64 adj \<Longrightarrow> metrics_row_ok (sample_metrics sid rx tx adj)"
  by (simp add: metrics_row_ok_def sample_metrics_def new_metrics_def zero_gauges_def valid_cpu_def)

lemma sample_metrics_fields [simp]:
  "met_server_id (sample_metrics sid rx tx adj) = sid" "met_nic_rx (sample_metrics sid rx tx adj) = rx"
  "met_nic_tx (sample_metrics sid rx tx adj) = tx" "met_cycle_rx (sample_metrics sid rx tx adj) = rx"
  "met_cycle_tx (sample_metrics sid rx tx adj) = tx" "met_adjustment (sample_metrics sid rx tx adj) = adj"
  "met_cycle_started (sample_metrics sid rx tx adj) = Some 1709136000"
  by (simp_all add: sample_metrics_def new_metrics_def)

theorem traffic_used_bytes_clamped_witness:
  "traffic_used_bytes ''bidirectional'' (Some (sample_metrics 1 max_int64 7 (- 5))) = max_int64 - 5"
proof -
  have "metrics_row_ok (sample_metrics 1 max_int64 7 (- 5))"
    by (rule sample_metrics_ok) (simp_all add: reading_def int64_bounds)
  moreover have "server_measured_bytes ''bidirectional'' (Some (sample_metrics 1 max_int64 7 (- 5))) = max_int64"
    by (simp add: server_measured_bytes_def sample_metrics_def measured_eq int64_bounds)
  moreover have "met_adjustment (sample_metrics 1 max_int64 7 (- 5)) = - 5"
    by (simp add: sample_metrics_def)
  ultimately show ?thesis
    using traffic_used_bytes_clamped [of "sample_metrics 1 max_int64 7 (- 5)" "''bidirectional''"]
    by (simp add: max_int64_def)
qed

abbreviation metrics_at :: "id64 \<Rightarrow> panel_db \<Rightarrow> metrics_row option" where
  "metrics_at sid d \<equiv> sql_first (metrics_of sid) (server_metrics d)"

definition metrics_ok :: "panel_db \<Rightarrow> bool" where
  "metrics_ok d \<longleftrightarrow> (\<forall>m \<in> set (server_metrics d). metrics_row_ok m)"

lemma metrics_at_ok: "metrics_ok d \<Longrightarrow> metrics_at sid d = Some m \<Longrightarrow> metrics_row_ok m \<and> met_server_id m = sid"
  using sql_first_SomeD by (fastforce simp: metrics_ok_def)

lemma new_metrics_ok: "metrics_row_ok (new_metrics sid now)"
  by (simp add: metrics_row_ok_def new_metrics_def zero_gauges_def valid_cpu_def int64_bounds)

lemma set_adjustment_ok: "metrics_row_ok m \<Longrightarrow> in64 a \<Longrightarrow> metrics_row_ok (m\<lparr>met_adjustment := a\<rparr>)"
  by (simp add: metrics_row_ok_def)

lemma measured_set_adjustment:
  "server_measured_bytes mode (Some (m\<lparr>met_adjustment := a\<rparr>)) = server_measured_bytes mode (Some m)"
  by (simp add: server_measured_bytes_def)

lemma measured_new: "server_measured_bytes mode (Some (new_metrics sid now)) = 0"
  by (simp add: server_measured_bytes_def new_metrics_def measured_eq int64_bounds)

lemma measured_columns:
  "measured_traffic_used_bytes mode (case m of None \<Rightarrow> 0 | Some r \<Rightarrow> met_cycle_rx r)
     (case m of None \<Rightarrow> 0 | Some r \<Rightarrow> met_cycle_tx r) = server_measured_bytes mode m"
  by (cases m) (simp_all add: server_measured_bytes_def measured_eq int64_bounds)

lemma used_after_set:
  assumes "metrics_row_ok m" "reading target" "server_measured_bytes mode (Some m) = u"
  shows "in64 (sub64 target u) \<and> traffic_used_bytes mode (Some (m\<lparr>met_adjustment := sub64 target u\<rparr>)) = target"
proof -
  have u: "reading u"
    using server_measured_reading [OF assms(1), of mode] assms(3) by simp
  then have a: "sub64 target u = target - u" "in64 (target - u)"
    using assms(2) by (simp_all add: sub64_nonneg reading_def int64_bounds)
  then have ok: "metrics_row_ok (m\<lparr>met_adjustment := sub64 target u\<rparr>)"
    using assms(1) by (simp add: set_adjustment_ok)
  show ?thesis
    using traffic_used_bytes_clamped [OF ok, of mode, unfolded measured_set_adjustment assms(3)] a assms(2)
    by (simp add: reading_def)
qed

text \<open>
  C34. \<open>UpdateTrafficAdjustment\<close> makes the server's displayed usage exactly the target,
  whatever was measured and whether or not the server has reported metrics before, and
  \<open>ClearTrafficAdjustment\<close> brings the measured usage back. Both keep the stored metrics
  well-formed.
\<close>

theorem traffic_adjustment_roundtrip:
  assumes "sql_first (live_server sid) (servers d) = Some s" "metrics_ok d" "reading target"
  shows "\<exists>d1 d2. update_traffic_adjustment now sid target d = Inr d1 \<and> metrics_ok d1 \<and>
    traffic_used_bytes (srv_count_mode s) (metrics_at sid d1) = target \<and>
    clear_traffic_adjustment sid d1 = Inr d2 \<and> metrics_ok d2 \<and>
    traffic_used_bytes (srv_count_mode s) (metrics_at sid d2) =
      server_measured_bytes (srv_count_mode s) (metrics_at sid d)"
proof -
  define mode where "mode = srv_count_mode s"
  define u where "u = server_measured_bytes mode (metrics_at sid d)"
  define m where "m = (case metrics_at sid d of None \<Rightarrow> new_metrics sid now | Some r \<Rightarrow> r)"
  define adj where "adj = sub64 target u"
  have m: "metrics_row_ok m" "server_measured_bytes mode (Some m) = u"
  proof -
    have "metrics_row_ok m \<and> server_measured_bytes mode (Some m) = u"
    proof (cases "metrics_at sid d")
      case None
      then show ?thesis
        unfolding m_def u_def by (simp add: new_metrics_ok measured_new) (simp add: server_measured_bytes_def)
    next
      case (Some r)
      then show ?thesis
        unfolding m_def u_def using metrics_at_ok [OF assms(2) Some] by simp
    qed
    then show "metrics_row_ok m" "server_measured_bytes mode (Some m) = u" by simp_all
  qed
  note used = used_after_set [OF m(1) assms(3) m(2), folded adj_def]
  define t1 where "t1 = sql_upsert (metrics_of sid) ((new_metrics sid now)\<lparr>met_adjustment := adj\<rparr>)
      (\<lambda>r. r\<lparr>met_adjustment := adj\<rparr>) (server_metrics d)"
  define t2 where "t2 = sql_update (metrics_of sid) (\<lambda>r. r\<lparr>met_adjustment := 0\<rparr>) t1"
  have "0 \<le> target"
    using assms(3) by (simp add: reading_def)
  then have r1: "update_traffic_adjustment now sid target d = Inr (d\<lparr>server_metrics := t1\<rparr>)"
    unfolding update_traffic_adjustment_def measured_columns assms(1)
    by (simp add: Let_def t1_def adj_def u_def mode_def)
  have r2: "clear_traffic_adjustment sid (d\<lparr>server_metrics := t1\<rparr>) = Inr (d\<lparr>server_metrics := t2\<rparr>)"
    using assms(1) by (simp add: clear_traffic_adjustment_def t2_def)
  have "sql_first (metrics_of sid) t1 =
      Some (case metrics_at sid d of None \<Rightarrow> (new_metrics sid now)\<lparr>met_adjustment := adj\<rparr>
        | Some r \<Rightarrow> r\<lparr>met_adjustment := adj\<rparr>)"
    unfolding t1_def by (rule sql_first_upsert) (simp_all add: new_metrics_def)
  then have f1: "sql_first (metrics_of sid) t1 = Some (m\<lparr>met_adjustment := adj\<rparr>)"
    by (simp add: m_def split: option.split)
  have f2: "sql_first (metrics_of sid) t2 = Some (m\<lparr>met_adjustment := 0\<rparr>)"
    unfolding t2_def by (subst sql_first_update_same) (simp_all add: f1)
  have ok1: "\<forall>r \<in> set t1. metrics_row_ok r"
    unfolding t1_def
    by (rule sql_upsert_all) (use assms(2) used in \<open>auto simp: metrics_ok_def intro: set_adjustment_ok new_metrics_ok\<close>)
  have ok2: "\<forall>r \<in> set t2. metrics_row_ok r"
    unfolding t2_def by (rule sql_update_all) (use ok1 in \<open>auto simp: int64_bounds intro: set_adjustment_ok\<close>)
  have "traffic_used_bytes mode (Some (m\<lparr>met_adjustment := 0\<rparr>)) = u"
    using traffic_used_bytes_clamped [OF set_adjustment_ok [OF m(1)], of 0 mode] server_measured_reading [OF m(1), of mode] m(2)
    by (simp add: measured_set_adjustment reading_def int64_bounds)
  then show ?thesis
    using r1 r2 f1 f2 ok1 ok2 used unfolding mode_def [symmetric] u_def [symmetric]
    by (intro exI [of _ "d\<lparr>server_metrics := t1\<rparr>"] exI [of _ "d\<lparr>server_metrics := t2\<rparr>"])
      (simp add: metrics_ok_def)
qed

theorem traffic_adjustment_roundtrip_witness:
  "\<exists>d1 d2. update_traffic_adjustment 1711756800 1 100
      (empty_db\<lparr>servers := [plain_server 1], server_metrics := [sample_metrics 1 10 20 0]\<rparr>) = Inr d1 \<and>
    traffic_used_bytes ''single'' (metrics_at 1 d1) = 100 \<and> clear_traffic_adjustment 1 d1 = Inr d2 \<and>
    traffic_used_bytes ''single'' (metrics_at 1 d2) = 20"
proof -
  let ?d = "empty_db\<lparr>servers := [plain_server 1], server_metrics := [sample_metrics 1 10 20 0]\<rparr>"
  have "sql_first (live_server 1) (servers ?d) = Some (plain_server 1)"
    by (simp add: sql_first_def plain_server_def)
  moreover have "metrics_ok ?d"
    by (simp add: metrics_ok_def sample_metrics_ok reading_def int64_bounds)
  moreover have "reading 100"
    by (simp add: reading_def max_int64_def)
  moreover have "metrics_at 1 ?d = Some (sample_metrics 1 10 20 0)"
    by (simp add: sql_first_def sample_metrics_def new_metrics_def)
  moreover have "server_measured_bytes ''single'' (Some (sample_metrics 1 10 20 0)) = 20"
    by (simp add: server_measured_bytes_def sample_metrics_def measured_eq int64_bounds)
  moreover have "srv_count_mode (plain_server 1) = ''single''"
    by (simp add: plain_server_def)
  ultimately show ?thesis
    using traffic_adjustment_roundtrip [of 1 ?d "plain_server 1" 100 1711756800] by metis
qed

section \<open>Reports\<close>

definition agent_of :: "id64 \<Rightarrow> id64 \<Rightarrow> panel_db \<Rightarrow> bool" where
  "agent_of aid sid d \<longleftrightarrow> sql_exists (\<lambda>a. agt_id a = aid \<and> agt_server_id a = sid) (agents d)"

text \<open>The row a report saves, given the accounted one.\<close>

definition saved_metrics :: "unix_time \<Rightarrow> metrics_report \<Rightarrow> metrics_row \<Rightarrow> metrics_row" where
  "saved_metrics now rep m = m\<lparr>met_gauges := rep_gauges rep, met_updated_at := now\<rparr>"

definition base_metrics :: "id64 \<Rightarrow> unix_time \<Rightarrow> panel_db \<Rightarrow> metrics_row" where
  "base_metrics sid now d = (case metrics_at sid d of None \<Rightarrow> new_metrics sid now | Some r \<Rightarrow> r)"

lemma report_metrics_eq:
  "report_metrics now aid sid rep d =
    (if invalid_metrics_report rep then Inl ErrInvalidMetrics
     else if \<not> agent_of aid sid d then Inl ErrInvalidAgentToken
     else case sql_first (\<lambda>s. srv_id s = sid) (servers d) of
       None \<Rightarrow> Inl ErrInvalidAgentToken
     | Some s \<Rightarrow> (case (if rep_has_network rep
           then account_network now (srv_reset_day s) (srv_reset_time s) rep (base_metrics sid now d)
           else Inr (base_metrics sid now d)) of
         Inl e \<Rightarrow> Inl e
       | Inr m \<Rightarrow> Inr (d\<lparr>server_metrics := sql_upsert (metrics_of sid) (saved_metrics now rep m)
           (\<lambda>_. saved_metrics now rep m) (server_metrics d)\<rparr>)))"
  by (simp only: report_metrics_def agent_of_def base_metrics_def saved_metrics_def Let_def)

lemma base_metrics_ok:
  assumes "metrics_ok d"
  shows "metrics_row_ok (base_metrics sid now d)" "met_server_id (base_metrics sid now d) = sid"
proof -
  have "metrics_row_ok (base_metrics sid now d) \<and> met_server_id (base_metrics sid now d) = sid"
  proof (cases "metrics_at sid d")
    case None
    then show ?thesis by (simp add: base_metrics_def new_metrics_ok) (simp add: new_metrics_def)
  next
    case (Some r)
    then show ?thesis
      using metrics_at_ok [OF assms Some] by (simp add: base_metrics_def)
  qed
  then show "metrics_row_ok (base_metrics sid now d)" "met_server_id (base_metrics sid now d) = sid"
    by simp_all
qed

lemma valid_report:
  assumes "\<not> invalid_metrics_report rep" "in64 (rep_nic_rx rep)" "in64 (rep_nic_tx rep)"
  shows "reading (rep_nic_rx rep)" "reading (rep_nic_tx rep)"
  using assms by (auto simp: invalid_metrics_report_def reading_def in64_def Let_def)

text \<open>The three cases of the network accounting.\<close>

lemma account_new_cycle:
  assumes "valid_reset_config day time"
    and "case met_cycle_started m of None \<Rightarrow> True | Some st \<Rightarrow> st < traffic_cycle day time now"
  shows "account_network now day time rep m = Inr (m\<lparr>met_nic_rx := rep_nic_rx rep,
    met_nic_tx := rep_nic_tx rep, met_cycle_rx := 0, met_cycle_tx := 0,
    met_adjustment := (if met_cycle_started m = None then met_adjustment m else 0),
    met_cycle_started := Some (traffic_cycle day time now)\<rparr>)"
  using assms by (simp add: account_network_def traffic_cycle_start_eq Let_def split: option.splits)

lemma account_same_cycle:
  fixes m rep
  defines "drx \<equiv> traffic_delta (rep_nic_rx rep) (met_nic_rx m)"
    and "dtx \<equiv> traffic_delta (rep_nic_tx rep) (met_nic_tx m)"
  assumes "valid_reset_config day time" "metrics_row_ok m" "reading (rep_nic_rx rep)" "reading (rep_nic_tx rep)"
    and "met_cycle_started m = Some st" "traffic_cycle day time now \<le> st"
  shows "account_network now day time rep m =
    (if met_cycle_rx m + drx > max_int64 \<or> met_cycle_tx m + dtx > max_int64 then Inl ErrInvalidMetrics
     else Inr (m\<lparr>met_nic_rx := rep_nic_rx rep, met_nic_tx := rep_nic_tx rep,
       met_cycle_rx := met_cycle_rx m + drx, met_cycle_tx := met_cycle_tx m + dtx,
       met_cycle_started := Some st\<rparr>))"
proof -
  have d: "reading drx" "reading dtx" and c: "reading (met_cycle_rx m)" "reading (met_cycle_tx m)"
    using assms(4-6) unfolding drx_def dtx_def by (auto simp: metrics_row_ok_def intro: nic.delta_reading)
  have "account_network now day time rep m =
      (if met_cycle_rx m > sub64 max_int64 drx \<or> met_cycle_tx m > sub64 max_int64 dtx then Inl ErrInvalidMetrics
       else Inr (m\<lparr>met_nic_rx := rep_nic_rx rep, met_nic_tx := rep_nic_tx rep,
         met_cycle_rx := add64 (met_cycle_rx m) drx, met_cycle_tx := add64 (met_cycle_tx m) dtx,
         met_cycle_started := Some st\<rparr>))"
    using assms(3,7,8) by (simp add: account_network_def traffic_cycle_start_eq Let_def drx_def dtx_def)
  then show ?thesis
    using reading_add [OF c(1) d(1)] reading_add [OF c(2) d(2)]
    by (simp only: guard_iff [OF d(1)] guard_iff [OF d(2)]) auto
qed

lemma account_network_ok:
  assumes "metrics_row_ok m" "reading (rep_nic_rx rep)" "reading (rep_nic_tx rep)"
    and "account_network now day time rep m = Inr m'"
  shows "metrics_row_ok m' \<and> met_server_id m' = met_server_id m \<and> met_gauges m' = met_gauges m"
proof -
  have valid: "valid_reset_config day time"
  proof (rule ccontr)
    assume "\<not> valid_reset_config day time"
    then show False
      using assms(4) by (simp add: account_network_def traffic_cycle_start_invalid)
  qed
  show ?thesis
  proof (cases "case met_cycle_started m of None \<Rightarrow> True | Some st \<Rightarrow> st < traffic_cycle day time now")
    case True
    have "m' = m\<lparr>met_nic_rx := rep_nic_rx rep,
      met_nic_tx := rep_nic_tx rep, met_cycle_rx := 0, met_cycle_tx := 0,
      met_adjustment := (if met_cycle_started m = None then met_adjustment m else 0),
      met_cycle_started := Some (traffic_cycle day time now)\<rparr>"
      using account_new_cycle [OF valid True, of rep] assms(4) by simp
    then show ?thesis
      using assms(1-3) by (simp add: metrics_row_ok_def int64_bounds)
  next
    case False
    then obtain st where "met_cycle_started m = Some st" "traffic_cycle day time now \<le> st"
      by (auto split: option.splits)
    from account_same_cycle [OF valid assms(1-3) this]
    have "met_cycle_rx m + traffic_delta (rep_nic_rx rep) (met_nic_rx m) \<le> max_int64"
      "met_cycle_tx m + traffic_delta (rep_nic_tx rep) (met_nic_tx m) \<le> max_int64"
      "m' = m\<lparr>met_nic_rx := rep_nic_rx rep, met_nic_tx := rep_nic_tx rep,
         met_cycle_rx := met_cycle_rx m + traffic_delta (rep_nic_rx rep) (met_nic_rx m),
         met_cycle_tx := met_cycle_tx m + traffic_delta (rep_nic_tx rep) (met_nic_tx m),
         met_cycle_started := Some st\<rparr>"
      using assms(4) by (auto split: if_splits)
    then show ?thesis
      using assms(1-3) nic.delta_nonneg [of "met_nic_rx m" "rep_nic_rx rep"]
        nic.delta_nonneg [of "met_nic_tx m" "rep_nic_tx rep"]
      by (simp add: metrics_row_ok_def reading_def)
  qed
qed

lemma account_network_error:
  "account_network now day time rep m = Inl e \<Longrightarrow>
    e = ErrInvalidMetrics \<or> (e = ErrInvalidTrafficConfig \<and> \<not> valid_reset_config day time)"
  using traffic_cycle_start_eq [of day time now] traffic_cycle_start_invalid [of day time now]
  by (auto simp: account_network_def Let_def split: sum.splits option.splits if_splits)

lemma report_metrics_InrD:
  assumes "report_metrics now aid sid rep d = Inr d'"
  obtains s m where "\<not> invalid_metrics_report rep" "agent_of aid sid d"
    "sql_first (\<lambda>s. srv_id s = sid) (servers d) = Some s"
    "(if rep_has_network rep
      then account_network now (srv_reset_day s) (srv_reset_time s) rep (base_metrics sid now d)
      else Inr (base_metrics sid now d)) = Inr m"
    "d' = d\<lparr>server_metrics := sql_upsert (metrics_of sid) (saved_metrics now rep m)
       (\<lambda>_. saved_metrics now rep m) (server_metrics d)\<rparr>"
proof -
  define acc where "acc s = (if rep_has_network rep
      then account_network now (srv_reset_day s) (srv_reset_time s) rep (base_metrics sid now d)
      else Inr (base_metrics sid now d))" for s :: server_row
  have "\<not> invalid_metrics_report rep \<and> agent_of aid sid d \<and>
      (\<exists>s m. sql_first (\<lambda>s. srv_id s = sid) (servers d) = Some s \<and> acc s = Inr m \<and>
        d' = d\<lparr>server_metrics := sql_upsert (metrics_of sid) (saved_metrics now rep m)
          (\<lambda>_. saved_metrics now rep m) (server_metrics d)\<rparr>)"
    using assms unfolding report_metrics_eq acc_def [symmetric]
    by (auto split: if_split_asm option.splits sum.splits)
  then obtain s m where r: "\<not> invalid_metrics_report rep" "agent_of aid sid d"
    "sql_first (\<lambda>s. srv_id s = sid) (servers d) = Some s" "acc s = Inr m"
    "d' = d\<lparr>server_metrics := sql_upsert (metrics_of sid) (saved_metrics now rep m)
       (\<lambda>_. saved_metrics now rep m) (server_metrics d)\<rparr>"
    by blast
  show thesis
    by (rule that [OF r(1-3) r(4) [unfolded acc_def] r(5)])
qed

text \<open>
  A metrics report that is accepted keeps every stored metrics row well-formed (counters
  not negative and representable, gauges within their totals), is saved as the row of the
  reporting Agent's own server with the reported gauges, and leaves the rows of all other
  servers and every other table as they were.
\<close>

theorem report_metrics_keeps_ok:
  assumes "report_metrics now aid sid rep d = Inr d'" "metrics_ok d"
    and "in64 (rep_nic_rx rep)" "in64 (rep_nic_tx rep)"
  shows "metrics_ok d' \<and> agent_of aid sid d \<and>
    (\<exists>m. metrics_at sid d' = Some m \<and> met_gauges m = rep_gauges rep \<and> met_updated_at m = now) \<and>
    (\<forall>other. other \<noteq> sid \<longrightarrow> metrics_at other d' = metrics_at other d) \<and>
    d' = d\<lparr>server_metrics := server_metrics d'\<rparr>"
proof -
  from assms(1) obtain s m where valid: "\<not> invalid_metrics_report rep" and agent: "agent_of aid sid d"
    and s: "sql_first (\<lambda>s. srv_id s = sid) (servers d) = Some s"
    and acc: "(if rep_has_network rep
      then account_network now (srv_reset_day s) (srv_reset_time s) rep (base_metrics sid now d)
      else Inr (base_metrics sid now d)) = Inr m"
    and d': "d' = d\<lparr>server_metrics := sql_upsert (metrics_of sid) (saved_metrics now rep m)
       (\<lambda>_. saved_metrics now rep m) (server_metrics d)\<rparr>"
    by (rule report_metrics_InrD)
  note base = base_metrics_ok [OF assms(2), of sid now]
  have m: "metrics_row_ok m \<and> met_server_id m = sid"
    using acc account_network_ok [OF base(1) valid_report [OF valid assms(3,4)]] base
    by (auto split: if_splits)
  define w where "w = saved_metrics now rep m"
  define t where "t = sql_upsert (metrics_of sid) w (\<lambda>_. w) (server_metrics d)"
  have w: "metrics_row_ok w" "met_server_id w = sid" "met_gauges w = rep_gauges rep" "met_updated_at w = now"
    using m valid by (auto simp: w_def saved_metrics_def metrics_row_ok_def invalid_metrics_report_def Let_def)
  have "\<forall>r \<in> set t. metrics_row_ok r"
    unfolding t_def by (rule sql_upsert_all) (use assms(2) w(1) in \<open>simp_all add: metrics_ok_def\<close>)
  moreover have "sql_first (metrics_of sid) t = Some w"
    unfolding t_def using w(2) by (simp add: sql_first_upsert split: option.split)
  moreover have "sql_first (metrics_of k) t = sql_first (metrics_of k) (server_metrics d)" if "k \<noteq> sid" for k
    using that w(2) unfolding t_def by (rule sql_first_upsert_other)
  ultimately show ?thesis
    using w(3,4) agent unfolding d' w_def [symmetric] t_def [symmetric] by (simp add: metrics_ok_def)
qed

definition idle_agent :: "id64 \<Rightarrow> id64 \<Rightarrow> agent_row" where
  "idle_agent aid sid = \<lparr>agt_id = aid, agt_server_id = sid, agt_token_hash = ''hash'',
     agt_implementation = ''vps-agent'', agt_version = ''v1.0.0'', agt_api_version = 1,
     agt_capabilities = [], agt_registered_at = 0, agt_last_seen_at = None, agt_applied_version = 0,
     agt_sync_status = ''pending'', agt_sync_error = [], agt_synced_at = None, agt_upgrade_target = [],
     agt_upgrade_status = [], agt_upgrade_error = [], agt_updated_at = 0\<rparr>"

definition traffic_report :: "int \<Rightarrow> int \<Rightarrow> metrics_report" where
  "traffic_report rx tx = \<lparr>rep_gauges = zero_gauges, rep_has_network = True, rep_nic_rx = rx, rep_nic_tx = tx\<rparr>"

definition metered_db :: panel_db where
  "metered_db = empty_db\<lparr>servers := [plain_server 1], agents := [idle_agent 5 1],
     server_metrics := [sample_metrics 1 1000 500 0]\<rparr>"

lemma metered_db_at [simp]: "metrics_at 1 metered_db = Some (sample_metrics 1 1000 500 0)"
  by (simp add: metered_db_def sql_first_def sample_metrics_def new_metrics_def)

lemma metered_db_agent [simp]: "agent_of 5 1 metered_db"
  by (simp add: metered_db_def agent_of_def sql_exists_def idle_agent_def)

lemma metered_db_server [simp]: "sql_first (\<lambda>s. srv_id s = 1) (servers metered_db) = Some (plain_server 1)"
  by (simp add: metered_db_def sql_first_def plain_server_def)

lemma metered_db_ok [simp]: "metrics_ok metered_db"
  by (simp add: metered_db_def metrics_ok_def sample_metrics_ok reading_def int64_bounds)

lemma traffic_report_valid [simp]:
  "0 \<le> rx \<Longrightarrow> 0 \<le> tx \<Longrightarrow> \<not> invalid_metrics_report (traffic_report rx tx)"
  "rep_has_network (traffic_report rx tx)" "rep_nic_rx (traffic_report rx tx) = rx"
  "rep_nic_tx (traffic_report rx tx) = tx"
  by (simp_all add: invalid_metrics_report_def traffic_report_def zero_gauges_def valid_cpu_def)

lemma plain_reset_config [simp]: "valid_reset_config (srv_reset_day (plain_server sid)) (srv_reset_time (plain_server sid))"
  by (simp add: plain_server_def valid_reset_config_def) code_simp

theorem report_metrics_keeps_ok_witness:
  "\<exists>d'. report_metrics 1709136060 5 1 (traffic_report 1200 600) metered_db = Inr d' \<and> metrics_ok d'"
proof -
  have "traffic_cycle 1 ''00:00'' 1709136060 \<le> 1709136000"
    by code_simp
  then have "\<exists>m. account_network 1709136060 1 ''00:00'' (traffic_report 1200 600) (sample_metrics 1 1000 500 0) = Inr m"
    using plain_reset_config [of 1]
    by (subst account_same_cycle)
      (simp_all add: plain_server_def sample_metrics_ok reading_def int64_bounds traffic_delta_def sub64_nonneg)
  then have "\<exists>d'. report_metrics 1709136060 5 1 (traffic_report 1200 600) metered_db = Inr d'"
    unfolding report_metrics_eq by (auto simp: base_metrics_def plain_server_def)
  then obtain d' where d': "report_metrics 1709136060 5 1 (traffic_report 1200 600) metered_db = Inr d'" ..
  show ?thesis
    using report_metrics_keeps_ok [OF d'] d' by (simp add: int64_bounds)
qed

section \<open>A cycle of reports\<close>

fun report_all :: "id64 \<Rightarrow> id64 \<Rightarrow> (unix_time \<times> metrics_report) list \<Rightarrow> panel_db \<Rightarrow> server_error + panel_db" where
  "report_all aid sid [] d = Inr d"
| "report_all aid sid ((now, rep) # rs) d = (case report_metrics now aid sid rep d of
     Inl e \<Rightarrow> Inl e
   | Inr d' \<Rightarrow> report_all aid sid rs d')"

abbreviation nic_metered :: "int \<Rightarrow> int list \<Rightarrow> int" where
  "nic_metered \<equiv> metered (\<lambda>prev cur. traffic_delta cur prev)"

lemma report_in_cycle:
  assumes "\<not> invalid_metrics_report rep" "rep_has_network rep" "reading (rep_nic_rx rep)" "reading (rep_nic_tx rep)"
    and "agent_of aid sid d" "sql_first (\<lambda>s. srv_id s = sid) (servers d) = Some s"
    and "valid_reset_config (srv_reset_day s) (srv_reset_time s)"
    and "metrics_at sid d = Some m" "metrics_row_ok m" "met_server_id m = sid" "met_cycle_started m = Some st"
    and "now < traffic_next (srv_reset_day s) (srv_reset_time s) st"
    and "met_cycle_rx m + traffic_delta (rep_nic_rx rep) (met_nic_rx m) \<le> max_int64"
    and "met_cycle_tx m + traffic_delta (rep_nic_tx rep) (met_nic_tx m) \<le> max_int64"
  shows "\<exists>d' m'. report_metrics now aid sid rep d = Inr d' \<and> agents d' = agents d \<and> servers d' = servers d \<and>
    metrics_at sid d' = Some m' \<and> metrics_row_ok m' \<and> met_server_id m' = sid \<and> met_cycle_started m' = Some st \<and>
    met_nic_rx m' = rep_nic_rx rep \<and> met_nic_tx m' = rep_nic_tx rep \<and> met_adjustment m' = met_adjustment m \<and>
    met_cycle_rx m' = met_cycle_rx m + traffic_delta (rep_nic_rx rep) (met_nic_rx m) \<and>
    met_cycle_tx m' = met_cycle_tx m + traffic_delta (rep_nic_tx rep) (met_nic_tx m)"
proof -
  let ?day = "srv_reset_day s" and ?time = "srv_reset_time s"
  have clock: "reset_clock (month_reset ?day ?time) (monthly_idx shanghai)"
    using assms(7) by (intro month_reset_clock) (simp add: valid_reset_config_def)
  have "traffic_cycle ?day ?time now \<le> st"
  proof (cases "st \<le> now")
    case True
    then have "\<not> traffic_cycle ?day ?time st < traffic_cycle ?day ?time now"
      using reset_clock.new_cycle_iff [OF clock True] assms(12) by simp
    then show ?thesis
      using reset_clock.start_le [OF clock, of st] by simp
  next
    case False
    then show ?thesis
      using reset_clock.start_le [OF clock, of now] by simp
  qed
  note acc = account_same_cycle [OF assms(7,9,3,4,11) this]
  define m1 where "m1 = m\<lparr>met_nic_rx := rep_nic_rx rep, met_nic_tx := rep_nic_tx rep,
         met_cycle_rx := met_cycle_rx m + traffic_delta (rep_nic_rx rep) (met_nic_rx m),
         met_cycle_tx := met_cycle_tx m + traffic_delta (rep_nic_tx rep) (met_nic_tx m),
         met_cycle_started := Some st\<rparr>"
  have acc1: "account_network now ?day ?time rep m = Inr m1"
    using acc assms(13,14) by (simp add: m1_def)
  define m2 where "m2 = saved_metrics now rep m1"
  define t where "t = sql_upsert (metrics_of sid) m2 (\<lambda>_. m2) (server_metrics d)"
  have rep: "report_metrics now aid sid rep d = Inr (d\<lparr>server_metrics := t\<rparr>)"
    using assms(1,2,5,6,8) acc1 by (simp add: report_metrics_eq base_metrics_def t_def m2_def)
  have "metrics_row_ok m1"
    using account_network_ok [OF assms(9,3,4) acc1] by simp
  then have m2: "metrics_row_ok m2" "met_server_id m2 = sid"
    using assms(1,10) by (auto simp: m2_def m1_def saved_metrics_def metrics_row_ok_def invalid_metrics_report_def Let_def)
  have "sql_first (metrics_of sid) t = Some m2"
    unfolding t_def using m2(2) by (simp add: sql_first_upsert split: option.split)
  with rep m2 show ?thesis
    by (intro exI [of _ "d\<lparr>server_metrics := t\<rparr>"] exI [of _ m2]) (simp add: m2_def m1_def saved_metrics_def)
qed

text \<open>
  C4. Within one traffic cycle the panel meters exactly what the Agent reports: after any
  sequence of reports made before the next reset instant, the cycle counters have grown by the
  metered bytes of the two interfaces counters (a fall of a counter counts nothing), which for
  a counter that never fell is the last reading minus the first; the cycle start and the
  adjustment do not move, and every report is accepted as long as the counters stay
  representable.
\<close>

theorem cycle_accounting:
  assumes "\<forall>(now, rep) \<in> set rs. \<not> invalid_metrics_report rep \<and> rep_has_network rep \<and>
      reading (rep_nic_rx rep) \<and> reading (rep_nic_tx rep) \<and>
      now < traffic_next (srv_reset_day s) (srv_reset_time s) st"
    and "agent_of aid sid d" "sql_first (\<lambda>s. srv_id s = sid) (servers d) = Some s"
    and "valid_reset_config (srv_reset_day s) (srv_reset_time s)"
    and "metrics_at sid d = Some m" "metrics_row_ok m" "met_server_id m = sid" "met_cycle_started m = Some st"
    and "met_cycle_rx m + nic_metered (met_nic_rx m) (map (\<lambda>r. rep_nic_rx (snd r)) rs) \<le> max_int64"
    and "met_cycle_tx m + nic_metered (met_nic_tx m) (map (\<lambda>r. rep_nic_tx (snd r)) rs) \<le> max_int64"
  shows "\<exists>d' m'. report_all aid sid rs d = Inr d' \<and> metrics_at sid d' = Some m' \<and>
    met_cycle_rx m' = met_cycle_rx m + nic_metered (met_nic_rx m) (map (\<lambda>r. rep_nic_rx (snd r)) rs) \<and>
    met_cycle_tx m' = met_cycle_tx m + nic_metered (met_nic_tx m) (map (\<lambda>r. rep_nic_tx (snd r)) rs) \<and>
    met_cycle_started m' = Some st \<and> met_adjustment m' = met_adjustment m \<and>
    (sorted (met_nic_tx m # map (\<lambda>r. rep_nic_tx (snd r)) rs) \<longrightarrow>
       met_cycle_tx m' = met_cycle_tx m + (last_reading (met_nic_tx m) (map (\<lambda>r. rep_nic_tx (snd r)) rs) - met_nic_tx m))"
proof -
  have run: "\<exists>d' m'. report_all aid sid rs d = Inr d' \<and> metrics_at sid d' = Some m' \<and>
    met_cycle_rx m' = met_cycle_rx m + nic_metered (met_nic_rx m) (map (\<lambda>r. rep_nic_rx (snd r)) rs) \<and>
    met_cycle_tx m' = met_cycle_tx m + nic_metered (met_nic_tx m) (map (\<lambda>r. rep_nic_tx (snd r)) rs) \<and>
    met_cycle_started m' = Some st \<and> met_adjustment m' = met_adjustment m"
    using assms
  proof (induction rs arbitrary: d m)
    case Nil
    then show ?case by simp
  next
    case (Cons r rs)
    obtain now rep where r: "r = (now, rep)" by fastforce
    let ?rx = "traffic_delta (rep_nic_rx rep) (met_nic_rx m)"
    let ?tx = "traffic_delta (rep_nic_tx rep) (met_nic_tx m)"
    have rep: "\<not> invalid_metrics_report rep" "rep_has_network rep" "reading (rep_nic_rx rep)"
      "reading (rep_nic_tx rep)" "now < traffic_next (srv_reset_day s) (srv_reset_time s) st"
      and rest: "\<forall>(now, rep) \<in> set rs. \<not> invalid_metrics_report rep \<and> rep_has_network rep \<and>
        reading (rep_nic_rx rep) \<and> reading (rep_nic_tx rep) \<and>
        now < traffic_next (srv_reset_day s) (srv_reset_time s) st"
      using Cons.prems(1) by (simp_all add: r)
    have rx: "0 \<le> nic_metered (rep_nic_rx rep) (map (\<lambda>r. rep_nic_rx (snd r)) rs)"
      by (rule nic.metered_nonneg [OF rep(3)]) (use rest in auto)
    have tx: "0 \<le> nic_metered (rep_nic_tx rep) (map (\<lambda>r. rep_nic_tx (snd r)) rs)"
      by (rule nic.metered_nonneg [OF rep(4)]) (use rest in auto)
    have b: "met_cycle_rx m + ?rx \<le> max_int64" "met_cycle_tx m + ?tx \<le> max_int64"
      using Cons.prems(9,10) rx tx by (simp_all add: r)
    obtain d1 m1 where 1: "report_metrics now aid sid rep d = Inr d1" "agents d1 = agents d"
      "servers d1 = servers d" "metrics_at sid d1 = Some m1" "metrics_row_ok m1" "met_server_id m1 = sid"
      "met_cycle_started m1 = Some st" "met_nic_rx m1 = rep_nic_rx rep" "met_nic_tx m1 = rep_nic_tx rep"
      "met_adjustment m1 = met_adjustment m" "met_cycle_rx m1 = met_cycle_rx m + ?rx"
      "met_cycle_tx m1 = met_cycle_tx m + ?tx"
      using report_in_cycle [OF rep(1-4) Cons.prems(2-8) rep(5) b] by blast
    have "agent_of aid sid d1" "sql_first (\<lambda>s. srv_id s = sid) (servers d1) = Some s"
      using Cons.prems(2,3) 1(2,3) by (simp_all add: agent_of_def)
    from Cons.IH [OF rest this Cons.prems(4) 1(4-7)] show ?case
      using Cons.prems(9,10) 1 by (auto simp: r add.assoc)
  qed
  have "nic_metered (met_nic_tx m) (map (\<lambda>r. rep_nic_tx (snd r)) rs) =
      last_reading (met_nic_tx m) (map (\<lambda>r. rep_nic_tx (snd r)) rs) - met_nic_tx m"
    if "sorted (met_nic_tx m # map (\<lambda>r. rep_nic_tx (snd r)) rs)"
    by (rule nic.metered_sorted [OF _ _ that]) (use assms(1,6) in \<open>auto simp: metrics_row_ok_def\<close>)
  then show ?thesis
    using run by metis
qed

lemma nic_next_1709136000: "traffic_next 1 ''00:00'' 1709136000 = 1709222400"
  by code_simp

theorem cycle_accounting_witness:
  "\<exists>d' m'. report_all 5 1 [(1709136060, traffic_report 1200 600), (1709136120, traffic_report 50 900)] metered_db = Inr d' \<and>
    metrics_at 1 d' = Some m' \<and> met_cycle_rx m' = 1200 \<and> met_cycle_tx m' = 900 \<and>
    met_cycle_started m' = Some 1709136000"
proof -
  let ?rs = "[(1709136060, traffic_report 1200 600), (1709136120, traffic_report 50 900)]"
  have "nic_metered 1000 [1200, 50] = 200" "nic_metered 500 [600, 900] = 400"
    by (simp_all add: traffic_delta_def sub64_exact int64_bounds)
  moreover have "metrics_row_ok (sample_metrics 1 1000 500 0)"
    by (simp add: sample_metrics_ok reading_def int64_bounds)
  ultimately have "\<exists>d' m'. report_all 5 1 ?rs metered_db = Inr d' \<and> metrics_at 1 d' = Some m' \<and>
      met_cycle_rx m' = 1000 + 200 \<and> met_cycle_tx m' = 500 + 400 \<and> met_cycle_started m' = Some 1709136000"
    using cycle_accounting [of ?rs "plain_server 1" 1709136000 5 1 metered_db "sample_metrics 1 1000 500 0"]
      plain_reset_config [of 1]
    by (auto simp: reading_def max_int64_def plain_server_def nic_next_1709136000)
  then show ?thesis by simp
qed

text \<open>
  The first report at or after the announced reset instant starts the new cycle: both
  cycle counters and the administrator's adjustment are zero, so the displayed usage is zero,
  the interface counters become the new baseline, and the stored cycle start is the reset
  instant of the current cycle, later than the old one.
\<close>

theorem new_cycle_resets:
  assumes "\<not> invalid_metrics_report rep" "rep_has_network rep"
    and "agent_of aid sid d" "sql_first (\<lambda>s. srv_id s = sid) (servers d) = Some s"
    and "valid_reset_config (srv_reset_day s) (srv_reset_time s)"
    and "metrics_at sid d = Some m" "met_cycle_started m = Some st" "st \<le> now"
    and "traffic_next (srv_reset_day s) (srv_reset_time s) st \<le> now"
  shows "\<exists>d' m'. report_metrics now aid sid rep d = Inr d' \<and> metrics_at sid d' = Some m' \<and>
    traffic_used_bytes (srv_count_mode s) (Some m') = 0 \<and> met_adjustment m' = 0 \<and>
    met_nic_rx m' = rep_nic_rx rep \<and> met_nic_tx m' = rep_nic_tx rep \<and>
    met_cycle_started m' = Some (traffic_cycle (srv_reset_day s) (srv_reset_time s) now) \<and>
    st < traffic_cycle (srv_reset_day s) (srv_reset_time s) now"
proof -
  let ?day = "srv_reset_day s" and ?time = "srv_reset_time s"
  let ?st = "traffic_cycle ?day ?time now"
  have clock: "reset_clock (month_reset ?day ?time) (monthly_idx shanghai)"
    using assms(5) by (intro month_reset_clock) (simp add: valid_reset_config_def)
  have "traffic_next ?day ?time st \<le> ?st"
    using reset_clock.start_mono [OF clock assms(9)] by (simp add: reset_clock.start_of_next [OF clock])
  then have later: "st < ?st"
    using reset_clock.next_gt [OF clock, of st] by linarith
  have sid: "met_server_id m = sid"
    using sql_first_SomeD [OF assms(6)] by simp
  define m1 where "m1 = m\<lparr>met_nic_rx := rep_nic_rx rep, met_nic_tx := rep_nic_tx rep,
    met_cycle_rx := 0, met_cycle_tx := 0, met_adjustment := 0, met_cycle_started := Some ?st\<rparr>"
  have acc: "account_network now ?day ?time rep m = Inr m1"
    using account_new_cycle [OF assms(5), of now m rep] assms(7) later by (simp add: m1_def)
  define m2 where "m2 = saved_metrics now rep m1"
  define t where "t = sql_upsert (metrics_of sid) m2 (\<lambda>_. m2) (server_metrics d)"
  have "report_metrics now aid sid rep d = Inr (d\<lparr>server_metrics := t\<rparr>)"
    using assms(1-4,6) acc by (simp add: report_metrics_eq base_metrics_def t_def m2_def)
  moreover have "sql_first (metrics_of sid) t = Some m2"
    unfolding t_def using sid by (simp add: sql_first_upsert m2_def m1_def saved_metrics_def split: option.split)
  moreover have "traffic_used_bytes (srv_count_mode s) (Some m2) = 0"
    by (simp add: traffic_used_bytes_def server_measured_bytes_def m2_def m1_def saved_metrics_def measured_eq
        add64_exact int64_bounds)
  ultimately show ?thesis
    using later by (intro exI [of _ "d\<lparr>server_metrics := t\<rparr>"] exI [of _ m2])
      (simp add: m2_def m1_def saved_metrics_def)
qed

theorem new_cycle_resets_witness:
  "\<exists>d' m'. report_metrics 1709222400 5 1 (traffic_report 1200 600) metered_db = Inr d' \<and>
    metrics_at 1 d' = Some m' \<and> traffic_used_bytes ''single'' (Some m') = 0 \<and>
    met_nic_rx m' = 1200 \<and> met_cycle_started m' = Some 1709222400"
proof -
  have "traffic_cycle 1 ''00:00'' 1709222400 = 1709222400"
    by code_simp
  then show ?thesis
    using new_cycle_resets [of "traffic_report 1200 600" 5 1 metered_db "plain_server 1"
        "sample_metrics 1 1000 500 0" 1709136000 1709222400] plain_reset_config [of 1]
    by (auto simp: plain_server_def nic_next_1709136000)
qed

end
