(* ===== verification/DesiredState.thy ===== *)
theory DesiredState
  imports Tables
begin

text \<open>
  The desired-state version of a server (\<open>bumpVersion\<close>,
  \<open>panel/internal/proxy/desired.go\<close>): every change of what an Agent has to run increments the
  version of its server and marks its Agent as out of date. All components that change the
  configuration of a server go through it.
\<close>

datatype proxy_error = ErrInvalidClientTraffic | ErrInvalidClientTrafficConfig | ErrClientNotFound
  | ErrSubscriptionManagedClient | ErrServerDecommissioning | ErrProxyServerNotFound
  | ErrInvalidCredential | ErrInvalidName | ErrAssignmentUserNotFound | ErrInvalidAssignmentRole
  | ErrProxyNotFound | ErrNotDistributable | ErrInvalidRelayPortCount | ErrRelayPortsUnavailable
  | ErrClientNotAssigned | ErrRelayPortsActive | ErrListenerConflict

record mutation =
  mut_server_id :: id64
  mut_version :: int

definition bumpable :: "id64 \<Rightarrow> server_row \<Rightarrow> bool" where
  "bumpable sid s \<longleftrightarrow> srv_id s = sid \<and> srv_archived_at s = None \<and> srv_decom_status s = []"

definition bump_version :: "unix_time \<Rightarrow> id64 \<Rightarrow> panel_db \<Rightarrow> proxy_error + (int \<times> panel_db)" where
  "bump_version now sid d =
     (let srv = sql_update (bumpable sid)
            (\<lambda>s. s\<lparr>srv_version := srv_version s + 1, srv_updated_at := now\<rparr>) (servers d);
          agt = sql_update (\<lambda>a. agt_server_id a = sid)
            (\<lambda>a. a\<lparr>agt_sync_status := ''pending'', agt_sync_error := [], agt_updated_at := now\<rparr>) (agents d)
      in if sql_count (bumpable sid) (servers d) \<noteq> 1 then
           (case sql_first (live_server sid) (servers d) of
              Some s \<Rightarrow> if srv_decom_status s \<noteq> [] then Inl ErrServerDecommissioning else Inl ErrProxyServerNotFound
            | None \<Rightarrow> Inl ErrProxyServerNotFound)
         else case sql_first (\<lambda>s. srv_id s = sid) srv of
           None \<Rightarrow> Inl ErrProxyServerNotFound
         | Some s \<Rightarrow> Inr (srv_version s, d\<lparr>servers := srv, agents := agt\<rparr>))"

text \<open>\<open>None\<close> is the zero \<open>Mutation\<close>: nothing to synchronise.\<close>

definition bump_if :: "bool \<Rightarrow> unix_time \<Rightarrow> id64 \<Rightarrow> panel_db \<Rightarrow> proxy_error + (mutation option \<times> panel_db)" where
  "bump_if changed now sid d =
     (if \<not> changed then Inr (None, d)
      else case bump_version now sid d of
        Inl e \<Rightarrow> Inl e
      | Inr (v, d') \<Rightarrow> Inr (Some \<lparr>mut_server_id = sid, mut_version = v\<rparr>, d'))"

lemma bump_version_ok:
  assumes "distinct (map srv_id (servers d))" "s \<in> set (servers d)" "bumpable sid s"
  shows "bump_version now sid d = Inr (srv_version s + 1, d\<lparr>
      servers := sql_update (bumpable sid) (\<lambda>s. s\<lparr>srv_version := srv_version s + 1, srv_updated_at := now\<rparr>) (servers d),
      agents := sql_update (\<lambda>a. agt_server_id a = sid)
        (\<lambda>a. a\<lparr>agt_sync_status := ''pending'', agt_sync_error := [], agt_updated_at := now\<rparr>) (agents d)\<rparr>)"
proof -
  have key: "bumpable sid x \<Longrightarrow> srv_id x = srv_id s" for x
    using assms(3) by (simp add: bumpable_def)
  have sid: "srv_id s = sid"
    using assms(3) by (simp add: bumpable_def)
  have count: "sql_count (bumpable sid) (servers d) = 1"
    by (intro sql_count_key [where key = srv_id and r = s] assms key)
  have "sql_first (\<lambda>x. srv_id x = sid) (servers d) = Some s"
    by (rule sql_first_key [OF assms(1,2) sid])
  then have "sql_first (\<lambda>x. srv_id x = sid) (sql_update (bumpable sid)
      (\<lambda>s. s\<lparr>srv_version := srv_version s + 1, srv_updated_at := now\<rparr>) (servers d)) =
    Some (s\<lparr>srv_version := srv_version s + 1, srv_updated_at := now\<rparr>)"
    using assms(3) by (subst sql_first_update) simp_all
  with count show ?thesis
    by (simp add: bump_version_def Let_def)
qed

lemma bump_version_error:
  assumes "distinct (map srv_id (servers d))" "s \<in> set (servers d)" "srv_id s = sid" "\<not> bumpable sid s"
  shows "bump_version now sid d =
    Inl (if srv_archived_at s = None then ErrServerDecommissioning else ErrProxyServerNotFound)"
proof -
  have no: "\<not> bumpable sid x" if "x \<in> set (servers d)" for x
  proof
    assume b: "bumpable sid x"
    then have "srv_id x = srv_id s"
      using assms(3) by (simp add: bumpable_def)
    then have "x = s"
      using distinct_key_unique [OF assms(1) that assms(2)] by simp
    with b assms(4) show False by simp
  qed
  then have "sql_count (bumpable sid) (servers d) = 0"
    unfolding sql_count_zero_iff by blast
  moreover have "sql_first (live_server sid) (servers d) = (if srv_archived_at s = None then Some s else None)"
  proof (cases "srv_archived_at s = None")
    case True
    then have "sql_first (live_server sid) (servers d) = Some s"
      using assms(3) by (intro sql_first_pred_key [OF assms(1,2)]) simp_all
    with True show ?thesis by simp
  next
    case False
    have "\<not> live_server sid x" if "x \<in> set (servers d)" for x
    proof
      assume l: "live_server sid x"
      then have "x = s"
        using distinct_key_unique [OF assms(1) that assms(2)] assms(3) by simp
      with l False show False by simp
    qed
    then have "sql_first (live_server sid) (servers d) = None"
      by (simp only: sql_first_None_iff) blast
    with False show ?thesis by simp
  qed
  ultimately show ?thesis
    using assms(3,4) by (auto simp: bump_version_def Let_def bumpable_def)
qed

end
