(* ===== verification/ClientTraffic.thy ===== *)
theory ClientTraffic
  imports DesiredState ResetCycle Counters
begin

text \<open>
  Traffic and lifecycle of proxy clients (\<open>panel/internal/proxy/traffic.go\<close>): the reset
  clocks of the four modes, the lifecycle of a client, the accounting of a traffic report, the
  reconciliation before a configuration is handed out, and the manual reset.
\<close>

record client_traffic_config =
  ctc_limit :: "int option"
  ctc_mode :: string
  ctc_weekday :: int
  ctc_day :: int
  ctc_time :: string

record client_view =
  cv_enabled :: bool
  cv_expires_at :: "unix_time option"
  cv_limit :: "int option"
  cv_metrics :: "(int \<times> int) option"

record client_lifecycle =
  lc_expired :: bool
  lc_exhausted :: bool
  lc_effective :: bool
  lc_status :: string

record client_traffic_report =
  ctr_client_id :: id64
  ctr_uplink :: int
  ctr_downlink :: int

section \<open>Lifecycle\<close>

definition client_used_bytes :: "(int \<times> int) option \<Rightarrow> int" where
  "client_used_bytes m = (case m of
     None \<Rightarrow> 0
   | Some (up, down) \<Rightarrow> if up > sub64 max_int64 down then max_int64 else add64 up down)"

definition client_lifecycle_at :: "unix_time \<Rightarrow> client_view \<Rightarrow> client_lifecycle" where
  "client_lifecycle_at now c =
     (let used = client_used_bytes (cv_metrics c);
          expired = (case cv_expires_at c of None \<Rightarrow> False | Some e \<Rightarrow> \<not> now < e);
          exhausted = (case cv_limit c of None \<Rightarrow> False | Some l \<Rightarrow> l > 0 \<and> used \<ge> l);
          warning = (case cv_limit c of None \<Rightarrow> False
            | Some l \<Rightarrow> l > 0 \<and> used \<ge> sub64 l (quot64 l 10))
      in \<lparr>lc_expired = expired, lc_exhausted = exhausted,
          lc_effective = (cv_enabled c \<and> \<not> expired \<and> \<not> exhausted),
          lc_status = (if \<not> cv_enabled c then ''disabled''
            else if expired then ''expired''
            else if exhausted then ''exhausted''
            else if warning then ''warning''
            else ''normal'')\<rparr>)"

section \<open>Reset clocks\<close>

definition valid_client_reset_time :: "string \<Rightarrow> bool" where
  "valid_client_reset_time v = (case parse_hhmm (trim_space v) of
     None \<Rightarrow> False | Some (h, m) \<Rightarrow> format_hhmm h m = v)"

definition normalize_client_traffic_config ::
  "client_traffic_config \<Rightarrow> proxy_error + client_traffic_config" where
  "normalize_client_traffic_config c =
     (let c1 = (if ctc_mode c = [] then c\<lparr>ctc_mode := ''never''\<rparr> else c);
          c2 = (if ctc_weekday c1 = 0 then c1\<lparr>ctc_weekday := 1\<rparr> else c1);
          c3 = (if ctc_day c2 = 0 then c2\<lparr>ctc_day := 1\<rparr> else c2);
          c4 = (if ctc_time c3 = [] then c3\<lparr>ctc_time := ''00:00''\<rparr> else c3);
          c5 = (case ctc_limit c4 of None \<Rightarrow> c4 | Some l \<Rightarrow> if l \<le> 0 then c4\<lparr>ctc_limit := None\<rparr> else c4)
      in if ctc_weekday c5 < 1 \<or> ctc_weekday c5 > 7 \<or> ctc_day c5 < 1 \<or> ctc_day c5 > 31 \<or>
            \<not> valid_client_reset_time (ctc_time c5)
         then Inl ErrInvalidClientTrafficConfig
         else if ctc_mode c5 = ''never'' \<or> ctc_mode c5 = ''daily'' \<or> ctc_mode c5 = ''weekly'' \<or>
            ctc_mode c5 = ''monthly''
         then Inr c5
         else Inl ErrInvalidClientTrafficConfig)"

definition client_monthly_boundary :: "int \<Rightarrow> int \<Rightarrow> int \<Rightarrow> int \<Rightarrow> int \<Rightarrow> unix_time" where
  "client_monthly_boundary year month day hour minute =
     (let last_day = t_day shanghai (go_date shanghai year (month + 1) 0 0 0 0);
          day' = (if day > last_day then last_day else day)
      in go_date shanghai year month day' hour minute 0)"

definition current_client_cycle_start ::
  "unix_time \<Rightarrow> string \<Rightarrow> int \<Rightarrow> int \<Rightarrow> string \<Rightarrow> proxy_error + unix_time" where
  "current_client_cycle_start now mode weekday day time =
     (case normalize_client_traffic_config \<lparr>ctc_limit = None, ctc_mode = mode, ctc_weekday = weekday,
        ctc_day = day, ctc_time = time\<rparr> of
        Inl e \<Rightarrow> Inl e
      | Inr c \<Rightarrow>
          let (hour, minute) = (case parse_hhmm (ctc_time c) of None \<Rightarrow> (0, 0) | Some hm \<Rightarrow> hm);
              today = go_date shanghai (t_year shanghai now) (t_month shanghai now) (t_day shanghai now) hour minute 0
          in if ctc_mode c = ''never'' then Inr now
             else if ctc_mode c = ''daily'' then
               Inr (if now < today then add_date shanghai today 0 0 (- 1) else today)
             else if ctc_mode c = ''weekly'' then
               let wday = (if t_weekday shanghai now = 0 then 7 else t_weekday shanghai now);
                   boundary = add_date shanghai today 0 0 (rem64 (- (wday - ctc_weekday c + 7)) 7)
               in Inr (if now < boundary then add_date shanghai boundary 0 0 (- 7) else boundary)
             else
               let boundary = client_monthly_boundary (t_year shanghai now) (t_month shanghai now) (ctc_day c) hour minute;
                   previous = go_date shanghai (t_year shanghai now) (t_month shanghai now - 1) 1 0 0 0
               in Inr (if now < boundary
                  then client_monthly_boundary (t_year shanghai previous) (t_month shanghai previous) (ctc_day c) hour minute
                  else boundary))"

definition next_client_reset_at ::
  "unix_time \<Rightarrow> string \<Rightarrow> int \<Rightarrow> int \<Rightarrow> string \<Rightarrow> proxy_error + unix_time option" where
  "next_client_reset_at now mode weekday day time =
     (case normalize_client_traffic_config \<lparr>ctc_limit = None, ctc_mode = mode, ctc_weekday = weekday,
        ctc_day = day, ctc_time = time\<rparr> of
        Inl e \<Rightarrow> Inl e
      | Inr c \<Rightarrow>
          if ctc_mode c = ''never'' then Inr None
          else case current_client_cycle_start now (ctc_mode c) (ctc_weekday c) (ctc_day c) (ctc_time c) of
            Inl e \<Rightarrow> Inl e
          | Inr current \<Rightarrow>
              if ctc_mode c = ''daily'' then Inr (Some (add_date shanghai current 0 0 1))
              else if ctc_mode c = ''weekly'' then Inr (Some (add_date shanghai current 0 0 7))
              else
                let month = go_date shanghai (t_year shanghai current) (t_month shanghai current + 1) 1 0 0 0
                in Inr (Some (client_monthly_boundary (t_year shanghai month) (t_month shanghai month) (ctc_day c)
                     (t_hour shanghai current) (t_minute shanghai current))))"

section \<open>Traffic reports\<close>

definition counter_delta_bytes :: "int \<Rightarrow> int \<Rightarrow> int" where
  "counter_delta_bytes previous current = (if current < previous then 0 else sub64 current previous)"

abbreviation cm_of :: "id64 \<Rightarrow> client_metrics_row \<Rightarrow> bool" where
  "cm_of cid \<equiv> (\<lambda>m. cm_client_id m = cid)"

abbreviation cli_of :: "id64 \<Rightarrow> client_row \<Rightarrow> bool" where
  "cli_of cid \<equiv> (\<lambda>c. cli_id c = cid)"

definition client_on_server :: "id64 \<Rightarrow> id64 \<Rightarrow> panel_db \<Rightarrow> client_row option" where
  "client_on_server sid cid d = (case sql_first (cli_of cid) (clients d) of
     None \<Rightarrow> None
   | Some c \<Rightarrow>
       if sql_exists (\<lambda>p. prx_id p = cli_proxy_id c \<and> prx_server_id p = sid) (proxies d) \<and>
          sql_exists (live_server sid) (servers d)
       then Some c else None)"

definition client_view_of :: "client_row \<Rightarrow> (int \<times> int) \<Rightarrow> client_view" where
  "client_view_of c used = \<lparr>cv_enabled = cli_enabled c, cv_expires_at = cli_expires_at c,
     cv_limit = (case cli_limit c of None \<Rightarrow> None | Some l \<Rightarrow> if l > 0 then Some l else None),
     cv_metrics = Some used\<rparr>"

definition update_lifecycle :: "unix_time \<Rightarrow> client_row \<Rightarrow> (int \<times> int) \<Rightarrow> panel_db \<Rightarrow> bool \<times> panel_db" where
  "update_lifecycle now c used d =
     (let nxt = lc_effective (client_lifecycle_at now (client_view_of c used))
      in if nxt = cli_effective c then (False, d)
         else (True, d\<lparr>clients := sql_update (cli_of (cli_id c)) (\<lambda>r. r\<lparr>cli_effective := nxt\<rparr>) (clients d)\<rparr>))"

definition record_client_traffic ::
  "unix_time \<Rightarrow> id64 \<Rightarrow> client_traffic_report \<Rightarrow> panel_db \<Rightarrow> proxy_error + (bool \<times> panel_db)" where
  "record_client_traffic now sid rep d =
     (let cid = ctr_client_id rep in
      case client_on_server sid cid d of
        None \<Rightarrow> Inl ErrInvalidClientTraffic
      | Some c \<Rightarrow>
          (case current_client_cycle_start now (cli_reset_mode c) (cli_reset_weekday c) (cli_reset_day c) (cli_reset_time c) of
             Inl e \<Rightarrow> Inl e
           | Inr start \<Rightarrow>
               (case sql_first (cm_of cid) (client_metrics d) of
                  None \<Rightarrow> Inr (update_lifecycle now c (0, 0)
                    (d\<lparr>client_metrics := client_metrics d @ [\<lparr>cm_client_id = cid, cm_xray_up = ctr_uplink rep,
                       cm_xray_down = ctr_downlink rep, cm_cycle_up = 0, cm_cycle_down = 0,
                       cm_cycle_started = start, cm_last_activity = None, cm_updated_at = now\<rparr>]\<rparr>))
                | Some m \<Rightarrow>
                    if cli_reset_mode c \<noteq> ''never'' \<and> cm_cycle_started m < start then
                      Inr (update_lifecycle now c (0, 0)
                        (d\<lparr>client_metrics := sql_update (cm_of cid) (\<lambda>r. r\<lparr>cm_xray_up := ctr_uplink rep,
                           cm_xray_down := ctr_downlink rep, cm_cycle_up := 0, cm_cycle_down := 0,
                           cm_cycle_started := start, cm_updated_at := now\<rparr>) (client_metrics d)\<rparr>))
                    else
                      let dup = counter_delta_bytes (cm_xray_up m) (ctr_uplink rep);
                          ddown = counter_delta_bytes (cm_xray_down m) (ctr_downlink rep)
                      in if cm_cycle_up m > sub64 max_int64 dup \<or> cm_cycle_down m > sub64 max_int64 ddown
                         then Inl ErrInvalidClientTraffic
                         else
                           let up = add64 (cm_cycle_up m) dup; down = add64 (cm_cycle_down m) ddown
                           in if up > sub64 max_int64 down then Inl ErrInvalidClientTraffic
                              else
                                let active = (if dup > 0 \<or> ddown > 0 then Some now else cm_last_activity m)
                                in Inr (update_lifecycle now c (up, down)
                                  (d\<lparr>client_metrics := sql_update (cm_of cid) (\<lambda>r. r\<lparr>cm_xray_up := ctr_uplink rep,
                                     cm_xray_down := ctr_downlink rep, cm_cycle_up := up, cm_cycle_down := down,
                                     cm_last_activity := active, cm_updated_at := now\<rparr>) (client_metrics d)\<rparr>)))))"

fun valid_client_reports :: "id64 list \<Rightarrow> client_traffic_report list \<Rightarrow> bool" where
  "valid_client_reports seen [] = True"
| "valid_client_reports seen (r # rs) =
     (if ctr_client_id r \<le> 0 \<or> ctr_uplink r < 0 \<or> ctr_downlink r < 0 then False
      else if List.member seen (ctr_client_id r) then False
      else valid_client_reports (ctr_client_id r # seen) rs)"

fun record_client_reports ::
  "unix_time \<Rightarrow> id64 \<Rightarrow> bool \<Rightarrow> client_traffic_report list \<Rightarrow> panel_db \<Rightarrow> proxy_error + (bool \<times> panel_db)" where
  "record_client_reports now sid changed [] d = Inr (changed, d)"
| "record_client_reports now sid changed (r # rs) d = (case record_client_traffic now sid r d of
     Inl e \<Rightarrow> Inl e
   | Inr (c, d') \<Rightarrow> record_client_reports now sid (changed \<or> c) rs d')"

definition record_client_traffic_tx ::
  "unix_time \<Rightarrow> id64 \<Rightarrow> client_traffic_report list \<Rightarrow> panel_db \<Rightarrow> proxy_error + (bool \<times> panel_db)" where
  "record_client_traffic_tx now sid reports d =
     (if sid \<le> 0 then Inl ErrInvalidClientTraffic
      else if \<not> valid_client_reports [] reports then Inl ErrInvalidClientTraffic
      else record_client_reports now sid False reports d)"

definition record_client_traffic_with_mutation ::
  "unix_time \<Rightarrow> id64 \<Rightarrow> client_traffic_report list \<Rightarrow> panel_db \<Rightarrow> proxy_error + (mutation option \<times> panel_db)" where
  "record_client_traffic_with_mutation now sid reports d =
     (case record_client_traffic_tx now sid reports d of
        Inl e \<Rightarrow> Inl e
      | Inr (changed, d') \<Rightarrow> bump_if changed now sid d')"

section \<open>Reconciliation and manual reset\<close>

record lifecycle_update =
  lu_id :: id64
  lu_effective :: bool
  lu_changed :: bool
  lu_cycle_start :: "unix_time option"

definition reconcilable :: "id64 \<Rightarrow> panel_db \<Rightarrow> client_row \<Rightarrow> bool" where
  "reconcilable sid d c \<longleftrightarrow>
     sql_exists (\<lambda>p. prx_id p = cli_proxy_id c \<and> prx_server_id p = sid) (proxies d) \<and>
     sql_exists (live_server sid) (servers d) \<and>
     \<not> sql_exists (\<lambda>s. sc_client_id s = cli_id c) (subscriber_clients d)"

definition lifecycle_update_of ::
  "unix_time \<Rightarrow> panel_db \<Rightarrow> client_row \<Rightarrow> proxy_error + lifecycle_update option" where
  "lifecycle_update_of now d c =
     (let m = sql_first (cm_of (cli_id c)) (client_metrics d);
          used = (case m of None \<Rightarrow> (0, 0) | Some r \<Rightarrow> (cm_cycle_up r, cm_cycle_down r));
          decide = (\<lambda>reset used.
            let effective = lc_effective (client_lifecycle_at now (client_view_of c used));
                changed = (effective \<noteq> cli_effective c)
            in if changed \<or> reset \<noteq> None
               then Some \<lparr>lu_id = cli_id c, lu_effective = effective, lu_changed = changed, lu_cycle_start = reset\<rparr>
               else None)
      in case m of
        None \<Rightarrow> Inr (decide None used)
      | Some r \<Rightarrow>
          if cli_reset_mode c = ''never'' then Inr (decide None used)
          else case current_client_cycle_start now (cli_reset_mode c) (cli_reset_weekday c) (cli_reset_day c) (cli_reset_time c) of
            Inl e \<Rightarrow> Inl e
          | Inr start \<Rightarrow>
              if cm_cycle_started r < start then Inr (decide (Some start) (0, 0)) else Inr (decide None used))"

fun lifecycle_updates ::
  "unix_time \<Rightarrow> panel_db \<Rightarrow> client_row list \<Rightarrow> proxy_error + lifecycle_update list" where
  "lifecycle_updates now d [] = Inr []"
| "lifecycle_updates now d (c # cs) = (case lifecycle_update_of now d c of
     Inl e \<Rightarrow> Inl e
   | Inr u \<Rightarrow> (case lifecycle_updates now d cs of
       Inl e \<Rightarrow> Inl e
     | Inr us \<Rightarrow> Inr (case u of None \<Rightarrow> us | Some x \<Rightarrow> x # us)))"

definition apply_lifecycle_update :: "unix_time \<Rightarrow> lifecycle_update \<Rightarrow> panel_db \<Rightarrow> panel_db" where
  "apply_lifecycle_update now u d =
     (let d1 = (case lu_cycle_start u of
            None \<Rightarrow> d
          | Some start \<Rightarrow> d\<lparr>client_metrics := sql_update (cm_of (lu_id u)) (\<lambda>m. m\<lparr>cm_cycle_up := 0,
              cm_cycle_down := 0, cm_cycle_started := start, cm_updated_at := now\<rparr>) (client_metrics d)\<rparr>)
      in if lu_changed u
         then d1\<lparr>clients := sql_update (cli_of (lu_id u)) (\<lambda>c. c\<lparr>cli_effective := lu_effective u\<rparr>) (clients d1)\<rparr>
         else d1)"

definition reconcile_client_lifecycle_state ::
  "unix_time \<Rightarrow> id64 \<Rightarrow> panel_db \<Rightarrow> proxy_error + (bool \<times> panel_db)" where
  "reconcile_client_lifecycle_state now sid d =
     (case lifecycle_updates now d (filter (reconcilable sid d) (clients d)) of
        Inl e \<Rightarrow> Inl e
      | Inr us \<Rightarrow> Inr (list_ex lu_changed us, fold (apply_lifecycle_update now) us d))"

definition reconcile_client_lifecycle ::
  "unix_time \<Rightarrow> id64 \<Rightarrow> panel_db \<Rightarrow> proxy_error + (mutation option \<times> panel_db)" where
  "reconcile_client_lifecycle now sid d =
     (case reconcile_client_lifecycle_state now sid d of
        Inl e \<Rightarrow> Inl e
      | Inr (changed, d') \<Rightarrow> bump_if changed now sid d')"

text \<open>
  \<open>getClientForMutation\<close> also decodes the client's credential and its proxy's
  configuration from JSON; \<open>creds\<close> stands for the error of that decoding, if any.
\<close>

definition client_for_mutation ::
  "(client_row \<Rightarrow> proxy_error option) \<Rightarrow> id64 \<Rightarrow> panel_db \<Rightarrow> proxy_error + (client_row \<times> id64)" where
  "client_for_mutation creds cid d =
     (case sql_first (cli_of cid) (clients d) of
        None \<Rightarrow> Inl ErrClientNotFound
      | Some c \<Rightarrow>
          (case sql_first (\<lambda>p. prx_id p = cli_proxy_id c) (proxies d) of
             None \<Rightarrow> Inl ErrClientNotFound
           | Some p \<Rightarrow>
               (case sql_first (live_server (prx_server_id p)) (servers d) of
                  None \<Rightarrow> Inl ErrClientNotFound
                | Some s \<Rightarrow>
                    if srv_decom_status s \<noteq> [] then Inl ErrServerDecommissioning
                    else case creds c of Some e \<Rightarrow> Inl e | None \<Rightarrow> Inr (c, prx_server_id p))))"

definition reset_client_traffic ::
  "(client_row \<Rightarrow> proxy_error option) \<Rightarrow> unix_time \<Rightarrow> id64 \<Rightarrow> panel_db \<Rightarrow>
     proxy_error + (mutation option \<times> panel_db)" where
  "reset_client_traffic creds now cid d =
     (case client_for_mutation creds cid d of
        Inl e \<Rightarrow> Inl e
      | Inr (c, sid) \<Rightarrow>
          if sql_exists (\<lambda>s. sc_client_id s = cid) (subscriber_clients d) then Inl ErrSubscriptionManagedClient
          else
            let d1 = d\<lparr>client_metrics := sql_update (cm_of cid) (\<lambda>m. m\<lparr>cm_cycle_up := 0, cm_cycle_down := 0,
                  cm_cycle_started := now, cm_updated_at := now\<rparr>) (client_metrics d)\<rparr>;
                (changed, d2) = update_lifecycle now c (0, 0) d1
            in bump_if changed now sid d2)"

section \<open>The cycle start is the clock of the mode\<close>

text \<open>The boundaries of a mode other than \<open>never\<close>, and the estimate of their number.\<close>

definition client_bnd :: "string \<Rightarrow> int \<Rightarrow> int \<Rightarrow> string \<Rightarrow> int \<Rightarrow> unix_time" where
  "client_bnd mode weekday day time =
     (if mode = ''daily'' then daily_bnd shanghai (reset_secs time)
      else if mode = ''weekly'' then weekly_bnd shanghai weekday (reset_secs time)
      else month_reset day time)"

definition client_idx :: "string \<Rightarrow> int \<Rightarrow> unix_time \<Rightarrow> int" where
  "client_idx mode weekday =
     (if mode = ''daily'' then local_day shanghai
      else if mode = ''weekly'' then weekly_idx shanghai weekday
      else monthly_idx shanghai)"

definition valid_client_reset :: "string \<Rightarrow> int \<Rightarrow> int \<Rightarrow> string \<Rightarrow> bool" where
  "valid_client_reset mode weekday day time \<longleftrightarrow> mode \<in> {''never'', ''daily'', ''weekly'', ''monthly''} \<and>
     1 \<le> weekday \<and> weekday \<le> 7 \<and> 1 \<le> day \<and> day \<le> 31 \<and> valid_client_reset_time time"

lemma client_clock:
  "valid_client_reset mode weekday day time \<Longrightarrow> reset_clock (client_bnd mode weekday day time) (client_idx mode weekday)"
  by (auto simp: valid_client_reset_def client_bnd_def client_idx_def valid_hm_reset_secs
      intro: daily_clock weekly_clock month_reset_clock)

lemma reset_time_parts:
  assumes "valid_client_reset_time v"
  obtains h m where "parse_hhmm v = Some (h, m)" "v = format_hhmm h m" "0 \<le> h" "h < 24" "0 \<le> m" "m < 60"
proof -
  obtain h m where hm: "parse_hhmm (trim_space v) = Some (h, m)" "format_hhmm h m = v"
    using assms by (auto simp: valid_client_reset_time_def split: option.splits)
  then have r: "0 \<le> h" "h < 24" "0 \<le> m" "m < 60"
    using parse_hhmm_range by simp_all
  then have "parse_hhmm v = Some (h, m)"
    using parse_format_hhmm hm(2) by metis
  with hm(2) r show thesis
    using that by blast
qed

lemma normalize_valid:
  assumes "valid_client_reset mode weekday day time"
  shows "normalize_client_traffic_config \<lparr>ctc_limit = None, ctc_mode = mode, ctc_weekday = weekday,
     ctc_day = day, ctc_time = time\<rparr> = Inr \<lparr>ctc_limit = None, ctc_mode = mode, ctc_weekday = weekday,
     ctc_day = day, ctc_time = time\<rparr>"
proof -
  have "time \<noteq> []"
    using assms reset_time_parts [of time thesis for thesis] by (auto simp: valid_client_reset_def format_hhmm_def)
  then show ?thesis
    using assms by (auto simp: normalize_client_traffic_config_def valid_client_reset_def Let_def)
qed

lemma iso_weekday_mod:
  fixes wd now :: int
  assumes "1 \<le> wd" "wd \<le> 7"
  defines "wday \<equiv> (if t_weekday shanghai now = 0 then 7 else t_weekday shanghai now)"
  shows "rem64 (- (wday - wd + 7)) 7 = - ((local_day shanghai now + 4 - wd) mod 7)"
proof -
  have w: "0 \<le> t_weekday shanghai now" "t_weekday shanghai now < 7"
    by (simp_all add: t_weekday_def)
  then have pos: "0 < wday - wd + 7"
    using assms by (simp add: wday_def)
  have wday: "wday mod 7 = (local_day shanghai now + 4) mod 7"
    using w by (simp add: wday_def t_weekday_def)
  have "(wday - wd + 7) mod 7 = (wday - wd) mod 7"
    by simp
  also have "\<dots> = (local_day shanghai now + 4 - wd) mod 7"
    using wday by (rule mod_diff_cong) simp
  finally show ?thesis
    using pos by (simp add: rem64_def)
qed

lemma weekly_boundary:
  assumes "1 \<le> wd" "wd \<le> 7"
  shows "local_day off now * 86400 + hm - off + - ((local_day off now + 4 - wd) mod 7) * 86400 =
    weekly_bnd off wd hm (weekly_idx off wd now)"
proof -
  define q where "q = (local_day off now + 4 - wd) div 7"
  define r where "r = (local_day off now + 4 - wd) mod 7"
  have "local_day off now + 4 - wd = 7 * q + r"
    by (simp add: q_def r_def)
  then have "local_day off now - r = 7 * q + wd - 4"
    by linarith
  then have "(local_day off now - r) * 86400 = (7 * q + wd - 4) * 86400"
    by simp
  then show ?thesis
    unfolding weekly_bnd_def weekly_idx_def q_def [symmetric] r_def [symmetric]
    by (simp only: left_diff_distrib minus_mult_left [symmetric])
qed

lemma current_client_cycle_start_eq:
  assumes "valid_client_reset mode weekday day time"
  shows "current_client_cycle_start now mode weekday day time =
    Inr (if mode = ''never'' then now
      else cycle_start (client_bnd mode weekday day time) (client_idx mode weekday) now)"
proof -
  have v: "mode \<in> {''never'', ''daily'', ''weekly'', ''monthly''}" "1 \<le> weekday" "weekday \<le> 7"
    and time: "valid_client_reset_time time"
    using assms by (simp_all add: valid_client_reset_def)
  obtain h m where hm: "parse_hhmm time = Some (h, m)"
    using time by (rule reset_time_parts)
  then have secs: "reset_secs time = h * 3600 + m * 60"
    by (simp add: reset_secs_def)
  define today where "today = go_date shanghai (t_year shanghai now) (t_month shanghai now) (t_day shanghai now) h m 0"
  have today: "today = local_day shanghai now * 86400 + reset_secs time - shanghai"
    by (simp add: today_def day_date secs)
  have month: "client_monthly_boundary y mo day h m = clamped_date shanghai y mo day h m 0" for y mo
    by (simp add: client_monthly_boundary_def clamped_date_def)
  note norm = normalize_valid [OF assms]
  consider "mode = ''never''" | "mode = ''daily''" | "mode = ''weekly''" | "mode = ''monthly''"
    using v(1) by blast
  then show ?thesis
  proof cases
    case 1
    then show ?thesis
      using norm by (simp add: current_client_cycle_start_def Let_def split: option.split)
  next
    case 2
    have "current_client_cycle_start now mode weekday day time =
        Inr (if now < today then add_date shanghai today 0 0 (- 1) else today)"
      using norm 2 by (simp add: current_client_cycle_start_def Let_def hm today_def)
    moreover have "add_date shanghai today 0 0 (- 1) = daily_bnd shanghai (reset_secs time) (local_day shanghai now - 1)"
      by (simp only: add_date_days today daily_bnd_def) (simp add: algebra_simps)
    moreover have "today = daily_bnd shanghai (reset_secs time) (local_day shanghai now)"
      by (simp only: today daily_bnd_def)
    ultimately show ?thesis
      using 2 by (simp add: cycle_start_def client_bnd_def client_idx_def)
  next
    case 3
    define wday where "wday = (if t_weekday shanghai now = 0 then 7 else t_weekday shanghai now)"
    define b where "b = add_date shanghai today 0 0 (rem64 (- (wday - weekday + 7)) 7)"
    have "current_client_cycle_start now mode weekday day time =
        Inr (if now < b then add_date shanghai b 0 0 (- 7) else b)"
      using norm 3 unfolding b_def wday_def today_def by (simp add: current_client_cycle_start_def Let_def hm)
    moreover have b: "b = weekly_bnd shanghai weekday (reset_secs time) (weekly_idx shanghai weekday now)"
      unfolding b_def add_date_days today wday_def iso_weekday_mod [OF v(2,3)] by (rule weekly_boundary [OF v(2,3)])
    moreover have "add_date shanghai b 0 0 (- 7) =
        weekly_bnd shanghai weekday (reset_secs time) (weekly_idx shanghai weekday now - 1)"
      unfolding add_date_days b weekly_bnd_def by (simp add: algebra_simps)
    ultimately show ?thesis
      using 3 by (simp add: cycle_start_def client_bnd_def client_idx_def)
  next
    case 4
    have "current_client_cycle_start now mode weekday day time =
        Inr (cycle_start (monthly_bnd shanghai day (h * 3600 + m * 60)) (monthly_idx shanghai) now)"
      unfolding monthly_start_clock [symmetric]
      using norm 4 by (simp add: current_client_cycle_start_def Let_def hm month)
    then show ?thesis
      using 4 by (simp add: client_bnd_def client_idx_def secs)
  qed
qed

lemma next_client_reset_eq:
  assumes "valid_client_reset mode weekday day time" "mode \<noteq> ''never''"
  shows "next_client_reset_at now mode weekday day time =
    Inr (Some (cycle_next (client_bnd mode weekday day time) (client_idx mode weekday) now))"
proof -
  let ?bnd = "client_bnd mode weekday day time"
  let ?start = "cycle_start ?bnd (client_idx mode weekday) now"
  have v: "mode \<in> {''daily'', ''weekly'', ''monthly''}" "1 \<le> day"
    and time: "valid_client_reset_time time"
    using assms by (auto simp: valid_client_reset_def)
  obtain h m where hm: "parse_hhmm time = Some (h, m)" "0 \<le> h" "h < 24" "0 \<le> m" "m < 60"
    using time by (rule reset_time_parts)
  then have secs: "reset_secs time = h * 3600 + m * 60"
    by (simp add: reset_secs_def)
  obtain k where k: "?start = ?bnd k" "cycle_next ?bnd (client_idx mode weekday) now = ?bnd (k + 1)"
    by (rule reset_clock.cycle_cases [OF client_clock [OF assms(1)]])
  have cur: "current_client_cycle_start now mode weekday day time = Inr (?bnd k)"
    using current_client_cycle_start_eq [OF assms(1), of now] assms(2) k(1) by simp
  note norm = normalize_valid [OF assms(1)]
  consider "mode = ''daily''" | "mode = ''weekly''" | "mode = ''monthly''"
    using v(1) by blast
  then show ?thesis
  proof cases
    case 1
    then have "next_client_reset_at now mode weekday day time = Inr (Some (add_date shanghai (?bnd k) 0 0 1))"
      using norm cur by (simp add: next_client_reset_at_def)
    moreover have "add_date shanghai (?bnd k) 0 0 1 = ?bnd (k + 1)"
      unfolding add_date_days using 1 by (simp add: client_bnd_def daily_bnd_def algebra_simps)
    ultimately show ?thesis using k(2) by simp
  next
    case 2
    then have "next_client_reset_at now mode weekday day time = Inr (Some (add_date shanghai (?bnd k) 0 0 7))"
      using norm cur by (simp add: next_client_reset_at_def)
    moreover have "add_date shanghai (?bnd k) 0 0 7 = ?bnd (k + 1)"
      unfolding add_date_days using 2 by (simp add: client_bnd_def weekly_bnd_def algebra_simps)
    ultimately show ?thesis using k(2) by simp
  next
    case 3
    let ?c = "month_reset day time k"
    let ?mo = "go_date shanghai (t_year shanghai ?c) (t_month shanghai ?c + 1) 1 0 0 0"
    have c: "?bnd k = ?c" "?bnd (k + 1) = month_reset day time (k + 1)"
      using 3 by (simp_all add: client_bnd_def)
    have "local_secs shanghai ?c = h * 3600 + m * 60"
      unfolding secs [symmetric] by (rule monthly_bnd_secs [OF valid_hm_reset_secs])
    then have t: "t_hour shanghai ?c = h" "t_minute shanghai ?c = m"
      using hm(2-5) by (simp_all add: t_hour_def t_minute_def)
    have "monthly_idx shanghai ?mo = k + 1"
      using monthly_idx_bnd [OF v(2) valid_hm_reset_secs, of shanghai time k]
      unfolding monthly_idx_fields [of shanghai ?mo] first_of_month_fields
      unfolding monthly_idx_fields by simp
    then have "client_monthly_boundary (t_year shanghai ?mo) (t_month shanghai ?mo) day h m = month_reset day time (k + 1)"
      using clamped_date_bnd [OF t_month_range, of shanghai "t_year shanghai ?mo" shanghai ?mo day h m 0]
      unfolding monthly_idx_fields [symmetric] client_monthly_boundary_def clamped_date_def by (simp add: secs)
    then show ?thesis
      using norm cur 3 k(2) c t by (simp add: next_client_reset_at_def Let_def)
  qed
qed

text \<open>
  C32. For every valid reset configuration the cycle start of a client is the last reset
  instant of its mode that is not after \<open>now\<close> (daily, weekly on the ISO weekday, monthly on
  the clamped day, Shanghai time), the announced next reset is the following reset instant, it
  lies in the future, and until then the cycle start does not move.
\<close>

theorem client_reset_clock:
  assumes "valid_client_reset mode weekday day time" "mode \<noteq> ''never''"
  shows "\<exists>k. current_client_cycle_start now mode weekday day time = Inr (client_bnd mode weekday day time k) \<and>
    next_client_reset_at now mode weekday day time = Inr (Some (client_bnd mode weekday day time (k + 1))) \<and>
    client_bnd mode weekday day time k \<le> now \<and> now < client_bnd mode weekday day time (k + 1) \<and>
    (\<forall>u. client_bnd mode weekday day time k \<le> u \<and> u < client_bnd mode weekday day time (k + 1) \<longrightarrow>
       current_client_cycle_start u mode weekday day time = Inr (client_bnd mode weekday day time k))"
proof -
  note clock = client_clock [OF assms(1)]
  obtain k where k: "cycle_start (client_bnd mode weekday day time) (client_idx mode weekday) now = client_bnd mode weekday day time k"
    "cycle_next (client_bnd mode weekday day time) (client_idx mode weekday) now = client_bnd mode weekday day time (k + 1)"
    "client_bnd mode weekday day time k \<le> now" "now < client_bnd mode weekday day time (k + 1)"
    by (rule reset_clock.cycle_cases [OF clock])
  have "current_client_cycle_start u mode weekday day time = Inr (client_bnd mode weekday day time k)"
    if "client_bnd mode weekday day time k \<le> u" "u < client_bnd mode weekday day time (k + 1)" for u
    using current_client_cycle_start_eq [OF assms(1), of u] assms(2) reset_clock.cycle_of_interval(1) [OF clock that]
    by simp
  then show ?thesis
    using next_client_reset_eq [OF assms, of now] k by (intro exI [of _ k]) simp
qed

theorem client_reset_clock_witness:
  "\<exists>k. current_client_cycle_start 1711756800 ''weekly'' 1 1 ''08:30'' = Inr (client_bnd ''weekly'' 1 1 ''08:30'' k) \<and>
    next_client_reset_at 1711756800 ''weekly'' 1 1 ''08:30'' = Inr (Some (client_bnd ''weekly'' 1 1 ''08:30'' (k + 1)))"
proof -
  have "valid_client_reset_time ''08:30''"
    by code_simp
  then have "valid_client_reset ''weekly'' 1 1 ''08:30''"
    by (simp add: valid_client_reset_def)
  moreover have "''weekly'' \<noteq> ''never''"
    by simp
  ultimately show ?thesis
    using client_reset_clock [of "''weekly''" 1 1 "''08:30''" 1711756800] by blast
qed

section \<open>The snapshot of the effective state\<close>

interpretation xray: counter_delta counter_delta_bytes
  by unfold_locales (auto simp: counter_delta_bytes_def reading_def sub64_nonneg)

text \<open>
  What the accounting keeps of a metrics row: counters are readings and their sum is one, so the
  used bytes never saturate. What the schema and the client operations keep of a client row: a
  valid reset configuration.
\<close>

definition client_metrics_ok :: "client_metrics_row \<Rightarrow> bool" where
  "client_metrics_ok m \<longleftrightarrow> reading (cm_xray_up m) \<and> reading (cm_xray_down m) \<and>
     reading (cm_cycle_up m) \<and> reading (cm_cycle_down m) \<and> reading (cm_cycle_up m + cm_cycle_down m)"

definition client_row_ok :: "client_row \<Rightarrow> bool" where
  "client_row_ok c \<longleftrightarrow>
     valid_client_reset (cli_reset_mode c) (cli_reset_weekday c) (cli_reset_day c) (cli_reset_time c)"

definition clients_ok :: "panel_db \<Rightarrow> bool" where
  "clients_ok d \<longleftrightarrow> distinct (map cli_id (clients d)) \<and> distinct (map cm_client_id (client_metrics d)) \<and>
     (\<forall>c \<in> set (clients d). client_row_ok c) \<and> (\<forall>m \<in> set (client_metrics d). client_metrics_ok m)"

abbreviation client_at :: "id64 \<Rightarrow> panel_db \<Rightarrow> client_row option" where
  "client_at cid d \<equiv> sql_first (cli_of cid) (clients d)"

abbreviation client_metrics_at :: "id64 \<Rightarrow> panel_db \<Rightarrow> client_metrics_row option" where
  "client_metrics_at cid d \<equiv> sql_first (cm_of cid) (client_metrics d)"

definition cycle_used :: "id64 \<Rightarrow> panel_db \<Rightarrow> int \<times> int" where
  "cycle_used cid d = (case client_metrics_at cid d of
     None \<Rightarrow> (0, 0) | Some m \<Rightarrow> (cm_cycle_up m, cm_cycle_down m))"

text \<open>The stored flag is the one the lifecycle gives at \<open>now\<close> for the stored counters.\<close>

definition snapshot_current :: "unix_time \<Rightarrow> id64 \<Rightarrow> panel_db \<Rightarrow> bool" where
  "snapshot_current now cid d \<longleftrightarrow> (case client_at cid d of
     None \<Rightarrow> True
   | Some c \<Rightarrow> cli_effective c = lc_effective (client_lifecycle_at now (client_view_of c (cycle_used cid d))))"

lemma client_used_reading:
  "reading up \<Longrightarrow> reading down \<Longrightarrow> client_used_bytes (Some (up, down)) = min max_int64 (up + down)"
  using reading_add [of up down] guard_iff [of down up] by (auto simp: client_used_bytes_def)



text \<open>The accounting of one report as a function of the stored row.\<close>

definition account_client ::
  "unix_time \<Rightarrow> client_row \<Rightarrow> client_traffic_report \<Rightarrow> client_metrics_row option \<Rightarrow> proxy_error + client_metrics_row" where
  "account_client now c rep m =
     (let start = cycle_start (client_bnd (cli_reset_mode c) (cli_reset_weekday c) (cli_reset_day c) (cli_reset_time c))
            (client_idx (cli_reset_mode c) (cli_reset_weekday c)) now;
          never = (cli_reset_mode c = ''never'')
      in case m of
        None \<Rightarrow> Inr \<lparr>cm_client_id = ctr_client_id rep, cm_xray_up = ctr_uplink rep, cm_xray_down = ctr_downlink rep,
          cm_cycle_up = 0, cm_cycle_down = 0, cm_cycle_started = (if never then now else start),
          cm_last_activity = None, cm_updated_at = now\<rparr>
      | Some r \<Rightarrow>
          if \<not> never \<and> cm_cycle_started r < start then
            Inr (r\<lparr>cm_xray_up := ctr_uplink rep, cm_xray_down := ctr_downlink rep, cm_cycle_up := 0,
              cm_cycle_down := 0, cm_cycle_started := start, cm_updated_at := now\<rparr>)
          else
            let up = cm_cycle_up r + counter_delta_bytes (cm_xray_up r) (ctr_uplink rep);
                down = cm_cycle_down r + counter_delta_bytes (cm_xray_down r) (ctr_downlink rep)
            in if up + down > max_int64 then Inl ErrInvalidClientTraffic
               else Inr (r\<lparr>cm_xray_up := ctr_uplink rep, cm_xray_down := ctr_downlink rep, cm_cycle_up := up,
                 cm_cycle_down := down, cm_last_activity := (if up + down > cm_cycle_up r + cm_cycle_down r
                   then Some now else cm_last_activity r), cm_updated_at := now\<rparr>))"

lemma clients_okD:
  assumes "clients_ok d"
  shows "distinct (map cli_id (clients d))" "distinct (map cm_client_id (client_metrics d))"
    "client_at cid d = Some c \<Longrightarrow> client_row_ok c" "client_metrics_at cid d = Some m \<Longrightarrow> client_metrics_ok m"
    "client_metrics_at cid d = Some m \<Longrightarrow> cm_client_id m = cid"
  using assms sql_first_SomeD by (fastforce simp: clients_ok_def)+

lemma update_lifecycle_eq:
  assumes "distinct (map cli_id (clients d))" "client_at cid d = Some c"
  shows "update_lifecycle now c used d =
    (let eff = lc_effective (client_lifecycle_at now (client_view_of c used))
     in (eff \<noteq> cli_effective c,
         d\<lparr>clients := sql_update (cli_of cid) (\<lambda>r. r\<lparr>cli_effective := eff\<rparr>) (clients d)\<rparr>))"
proof -
  have c: "c \<in> set (clients d)" "cli_id c = cid"
    using sql_first_SomeD [OF assms(2)] by simp_all
  have "sql_update (cli_of cid) (\<lambda>r. r\<lparr>cli_effective := cli_effective c\<rparr>) (clients d) = clients d"
  proof (rule sql_update_id)
    fix r assume r: "r \<in> set (clients d)" "cli_id r = cid"
    then have "r = c"
      using distinct_key_unique [OF assms(1) r(1) c(1)] c(2) by simp
    then show "r\<lparr>cli_effective := cli_effective c\<rparr> = r" by simp
  qed
  then show ?thesis
    using c(2) by (auto simp: update_lifecycle_def Let_def)
qed

lemma client_on_server_at: "client_on_server sid cid d = Some c \<Longrightarrow> client_at cid d = Some c \<and> cli_id c = cid"
  using sql_first_SomeD [of "cli_of cid" "clients d"]
  by (auto simp: client_on_server_def split: option.splits if_splits)

lemma guarded_sum:
  assumes "reading a" "reading b" "reading x" "reading y"
  shows "(if a > sub64 max_int64 x \<or> b > sub64 max_int64 y then e
      else if add64 a x > sub64 max_int64 (add64 b y) then e else f (add64 a x) (add64 b y)) =
    (if (a + x) + (b + y) > max_int64 then e else f (a + x) (b + y))"
proof (cases "a > sub64 max_int64 x \<or> b > sub64 max_int64 y")
  case True
  then have "(a + x) + (b + y) > max_int64"
    using assms by (auto simp: guard_iff reading_def)
  with True show ?thesis by simp
next
  case False
  then have r: "reading (a + x)" "add64 a x = a + x" "reading (b + y)" "add64 b y = b + y"
    using reading_add assms by auto
  show ?thesis
    using False by (simp only: r(2,4) guard_iff [OF r(3)]) simp
qed

lemma record_client_traffic_eq:
  assumes "clients_ok d" "reading (ctr_uplink rep)" "reading (ctr_downlink rep)"
  shows "record_client_traffic now sid rep d =
    (let cid = ctr_client_id rep in case client_on_server sid cid d of
       None \<Rightarrow> Inl ErrInvalidClientTraffic
     | Some c \<Rightarrow> (case account_client now c rep (client_metrics_at cid d) of
         Inl e \<Rightarrow> Inl e
       | Inr m \<Rightarrow> Inr (update_lifecycle now c (cm_cycle_up m, cm_cycle_down m)
           (d\<lparr>client_metrics := sql_upsert (cm_of cid) m (\<lambda>_. m) (client_metrics d)\<rparr>))))"
proof (cases "client_on_server sid (ctr_client_id rep) d")
  case None
  then show ?thesis by (simp add: record_client_traffic_def)
next
  case (Some c)
  let ?cid = "ctr_client_id rep"
  have c: "client_at ?cid d = Some c" "client_row_ok c"
    using client_on_server_at [OF Some] clients_okD(3) [OF assms(1)] by blast+
  have start: "current_client_cycle_start now (cli_reset_mode c) (cli_reset_weekday c) (cli_reset_day c) (cli_reset_time c) =
      Inr (if cli_reset_mode c = ''never'' then now else
        cycle_start (client_bnd (cli_reset_mode c) (cli_reset_weekday c) (cli_reset_day c) (cli_reset_time c))
          (client_idx (cli_reset_mode c) (cli_reset_weekday c)) now)"
    using c(2) by (intro current_client_cycle_start_eq) (simp add: client_row_ok_def)
  show ?thesis
  proof (cases "client_metrics_at ?cid d")
    case None
    then show ?thesis
      by (simp add: record_client_traffic_def account_client_def Let_def Some start sql_upsert_None)
  next
    case m: (Some m)
    note ok = clients_okD(4) [OF assms(1) m]
    define dup where "dup = counter_delta_bytes (cm_xray_up m) (ctr_uplink rep)"
    define ddown where "ddown = counter_delta_bytes (cm_xray_down m) (ctr_downlink rep)"
    have d: "reading dup" "reading ddown" and cyc: "reading (cm_cycle_up m)" "reading (cm_cycle_down m)"
      using ok assms(2,3) xray.delta_reading by (simp_all add: dup_def ddown_def client_metrics_ok_def)
    note upd = sql_update_key [OF clients_okD(2) [OF assms(1)] m]
    define start where "start = cycle_start (client_bnd (cli_reset_mode c) (cli_reset_weekday c) (cli_reset_day c)
        (cli_reset_time c)) (client_idx (cli_reset_mode c) (cli_reset_weekday c)) now"
    show ?thesis
    proof (cases "cli_reset_mode c \<noteq> ''never'' \<and> cm_cycle_started m < start")
      case True
      then show ?thesis
        using upd [of "\<lambda>r. r\<lparr>cm_xray_up := ctr_uplink rep, cm_xray_down := ctr_downlink rep, cm_cycle_up := 0,
            cm_cycle_down := 0, cm_cycle_started := start, cm_updated_at := now\<rparr>"]
        by (simp add: record_client_traffic_def account_client_def Let_def Some start start_def [symmetric] m
            sql_upsert_Some [OF m])
    next
      case False
      let ?up = "cm_cycle_up m + dup" and ?down = "cm_cycle_down m + ddown"
      have sum: "(if cm_cycle_up m > sub64 max_int64 dup \<or> cm_cycle_down m > sub64 max_int64 ddown
          then Inl ErrInvalidClientTraffic
          else if add64 (cm_cycle_up m) dup > sub64 max_int64 (add64 (cm_cycle_down m) ddown)
          then Inl ErrInvalidClientTraffic
          else f (add64 (cm_cycle_up m) dup) (add64 (cm_cycle_down m) ddown)) =
        (if ?up + ?down > max_int64 then Inl ErrInvalidClientTraffic else f ?up ?down)" for f :: "int \<Rightarrow> int \<Rightarrow> proxy_error + bool \<times> panel_db"
        by (rule guarded_sum [OF cyc d])
      define act where "act = (if dup > 0 \<or> ddown > 0 then Some now else cm_last_activity m)"
      define new where "new = (\<lambda>u v (r :: client_metrics_row). r\<lparr>cm_xray_up := ctr_uplink rep, cm_xray_down := ctr_downlink rep,
        cm_cycle_up := u, cm_cycle_down := v, cm_last_activity := act, cm_updated_at := now\<rparr>)"
      define F where "F = (\<lambda>u v. Inr (update_lifecycle now c (u, v)
        (d\<lparr>client_metrics := sql_update (cm_of ?cid) (new u v) (client_metrics d)\<rparr>)) :: proxy_error + bool \<times> panel_db)"
      have act: "act = (if ?up + ?down > cm_cycle_up m + cm_cycle_down m then Some now else cm_last_activity m)"
        using d by (auto simp: reading_def act_def)
      have "record_client_traffic now sid rep d = (if cm_cycle_up m > sub64 max_int64 dup \<or> cm_cycle_down m > sub64 max_int64 ddown
          then Inl ErrInvalidClientTraffic
          else if add64 (cm_cycle_up m) dup > sub64 max_int64 (add64 (cm_cycle_down m) ddown)
          then Inl ErrInvalidClientTraffic
          else F (add64 (cm_cycle_up m) dup) (add64 (cm_cycle_down m) ddown))"
        using False unfolding F_def new_def act_def dup_def ddown_def start_def
        by (auto simp: record_client_traffic_def Let_def Some start m)
      then have "record_client_traffic now sid rep d =
          (if ?up + ?down > max_int64 then Inl ErrInvalidClientTraffic else F ?up ?down)"
        unfolding sum .
      moreover have "account_client now c rep (Some m) =
          (if ?up + ?down > max_int64 then Inl ErrInvalidClientTraffic else Inr (new ?up ?down m))"
        using False unfolding new_def act account_client_def dup_def ddown_def start_def by (auto simp: Let_def)
      ultimately show ?thesis
        using upd [of "new ?up ?down"]
        by (simp add: Some m sql_upsert_Some [OF m] F_def Let_def) (simp add: new_def)
    qed
  qed
qed

lemma account_client_ok:
  assumes "account_client now c rep m = Inr m'" "reading (ctr_uplink rep)" "reading (ctr_downlink rep)"
    and "\<And>r. m = Some r \<Longrightarrow> client_metrics_ok r \<and> cm_client_id r = ctr_client_id rep"
  shows "client_metrics_ok m' \<and> cm_client_id m' = ctr_client_id rep \<and>
    cm_xray_up m' = ctr_uplink rep \<and> cm_xray_down m' = ctr_downlink rep"
proof (cases m)
  case None
  then show ?thesis
    using assms(1-3) by (auto simp: account_client_def client_metrics_ok_def)
next
  case (Some r)
  let ?dup = "counter_delta_bytes (cm_xray_up r) (ctr_uplink rep)"
  let ?ddown = "counter_delta_bytes (cm_xray_down r) (ctr_downlink rep)"
  have r: "client_metrics_ok r" "cm_client_id r = ctr_client_id rep"
    using assms(4) [OF Some] by simp_all
  then have "0 \<le> ?dup" "0 \<le> ?ddown"
    using assms(2,3) xray.delta_nonneg by (simp_all add: client_metrics_ok_def)
  with r show ?thesis
    using assms(1-3) Some
    by (auto simp: account_client_def client_metrics_ok_def Let_def reading_def split: if_splits)
qed

lemma record_client_traffic_step:
  assumes "clients_ok d" "reading (ctr_uplink rep)" "reading (ctr_downlink rep)"
    and "record_client_traffic now sid rep d = Inr (changed, d')"
  defines "cid \<equiv> ctr_client_id rep"
  shows "\<exists>c m eff. client_on_server sid cid d = Some c \<and> account_client now c rep (client_metrics_at cid d) = Inr m \<and>
    eff = lc_effective (client_lifecycle_at now (client_view_of c (cm_cycle_up m, cm_cycle_down m))) \<and>
    changed = (eff \<noteq> cli_effective c) \<and>
    d' = d\<lparr>client_metrics := sql_upsert (cm_of cid) m (\<lambda>_. m) (client_metrics d),
           clients := sql_update (cli_of cid) (\<lambda>r. r\<lparr>cli_effective := eff\<rparr>) (clients d)\<rparr>"
proof -
  obtain c m where c: "client_on_server sid cid d = Some c"
    and m: "account_client now c rep (client_metrics_at cid d) = Inr m"
    and upd: "update_lifecycle now c (cm_cycle_up m, cm_cycle_down m)
      (d\<lparr>client_metrics := sql_upsert (cm_of cid) m (\<lambda>_. m) (client_metrics d)\<rparr>) = (changed, d')"
    using assms(4) unfolding record_client_traffic_eq [OF assms(1-3)] Let_def cid_def [symmetric]
    by (auto split: option.splits sum.splits)
  have "client_at cid (d\<lparr>client_metrics := sql_upsert (cm_of cid) m (\<lambda>_. m) (client_metrics d)\<rparr>) = Some c"
    using client_on_server_at [OF c] by simp
  from update_lifecycle_eq [OF _ this, of now "(cm_cycle_up m, cm_cycle_down m)"] upd
  show ?thesis
    using c m clients_okD(1) [OF assms(1)] by (simp add: Let_def)
qed

lemma record_client_traffic_effect:
  assumes "clients_ok d" "reading (ctr_uplink rep)" "reading (ctr_downlink rep)"
    and "record_client_traffic now sid rep d = Inr (changed, d')"
  shows "clients_ok d'"
    and "snapshot_current now (ctr_client_id rep) d'"
    and "\<exists>m. client_metrics_at (ctr_client_id rep) d' = Some m \<and> cm_xray_up m = ctr_uplink rep \<and>
      cm_xray_down m = ctr_downlink rep"
    and "k \<noteq> ctr_client_id rep \<Longrightarrow> client_at k d' = client_at k d \<and> client_metrics_at k d' = client_metrics_at k d"
    and "changed \<longleftrightarrow> client_at (ctr_client_id rep) d' \<noteq> client_at (ctr_client_id rep) d"
    and "d' = d\<lparr>clients := clients d', client_metrics := client_metrics d'\<rparr>"
    and "map (\<lambda>c. c\<lparr>cli_effective := False\<rparr>) (clients d') = map (\<lambda>c. c\<lparr>cli_effective := False\<rparr>) (clients d)"
proof -
  define cid where "cid = ctr_client_id rep"
  obtain c m eff where c: "client_on_server sid cid d = Some c"
    and m: "account_client now c rep (client_metrics_at cid d) = Inr m"
    and eff: "eff = lc_effective (client_lifecycle_at now (client_view_of c (cm_cycle_up m, cm_cycle_down m)))"
    and ch: "changed = (eff \<noteq> cli_effective c)"
    and d': "d' = d\<lparr>client_metrics := sql_upsert (cm_of cid) m (\<lambda>_. m) (client_metrics d),
           clients := sql_update (cli_of cid) (\<lambda>r. r\<lparr>cli_effective := eff\<rparr>) (clients d)\<rparr>"
    using record_client_traffic_step [OF assms] unfolding cid_def by blast
  have mo: "client_metrics_ok m" "cm_client_id m = cid" "cm_xray_up m = ctr_uplink rep" "cm_xray_down m = ctr_downlink rep"
    using account_client_ok [OF m assms(2,3)] clients_okD(4,5) [OF assms(1), of cid] unfolding cid_def by blast+
  have c_at: "client_at cid d = Some c"
    using client_on_server_at [OF c] by simp
  have m_at: "client_metrics_at cid d' = Some m"
    using mo(2) by (simp add: d' sql_first_upsert split: option.split)
  have c_at': "client_at cid d' = Some (c\<lparr>cli_effective := eff\<rparr>)"
    using c_at by (simp add: d' sql_first_update_same)
  have "distinct (map cli_id (clients d'))" "distinct (map cm_client_id (client_metrics d'))"
    using clients_okD(1,2) [OF assms(1)] mo(2) distinct_sql_upsert' [of cm_client_id]
    by (simp_all add: d' map_sql_update_key)
  moreover have "\<forall>x \<in> set (clients d'). client_row_ok x"
    unfolding d' using assms(1)
    by (simp, intro sql_update_all) (auto simp: clients_ok_def client_row_ok_def)
  moreover have "\<forall>x \<in> set (client_metrics d'). client_metrics_ok x"
    unfolding d' using assms(1) mo(1) by (simp, intro sql_upsert_all) (auto simp: clients_ok_def)
  ultimately show "clients_ok d'"
    by (simp add: clients_ok_def)
  show "snapshot_current now (ctr_client_id rep) d'"
    using c_at' m_at by (simp add: snapshot_current_def cycle_used_def cid_def eff client_view_of_def)
  show "\<exists>m. client_metrics_at (ctr_client_id rep) d' = Some m \<and> cm_xray_up m = ctr_uplink rep \<and>
      cm_xray_down m = ctr_downlink rep"
    using m_at mo(3,4) by (simp add: cid_def)
  show "client_at k d' = client_at k d \<and> client_metrics_at k d' = client_metrics_at k d"
    if k: "k \<noteq> ctr_client_id rep"
  proof -
    have "client_at k d' = client_at k d"
      unfolding d' by (simp, rule sql_first_update_other [where key = cli_id]) (use k in \<open>auto simp: cid_def\<close>)
    moreover have "client_metrics_at k d' = client_metrics_at k d"
      using k mo(2) sql_first_upsert_other [of k cid cm_client_id m] by (simp add: d' cid_def [symmetric])
    ultimately show ?thesis ..
  qed
  show "changed \<longleftrightarrow> client_at (ctr_client_id rep) d' \<noteq> client_at (ctr_client_id rep) d"
  proof -
    have "c\<lparr>cli_effective := eff\<rparr> = c \<longleftrightarrow> eff = cli_effective c"
      by (cases c) auto
    then show ?thesis
      using c_at c_at' ch by (simp add: cid_def)
  qed
  show "d' = d\<lparr>clients := clients d', client_metrics := client_metrics d'\<rparr>"
    by (simp add: d')
  show "map (\<lambda>c. c\<lparr>cli_effective := False\<rparr>) (clients d') = map (\<lambda>c. c\<lparr>cli_effective := False\<rparr>) (clients d)"
    by (simp add: d' sql_update_def)
qed

lemma snapshot_current_cong:
  "client_at k d' = client_at k d \<Longrightarrow> client_metrics_at k d' = client_metrics_at k d \<Longrightarrow>
    snapshot_current now k d' = snapshot_current now k d"
  by (simp add: snapshot_current_def cycle_used_def split: option.split)

lemma valid_client_reports_distinct:
  "valid_client_reports seen rs \<Longrightarrow> distinct (map ctr_client_id rs) \<and> set seen \<inter> ctr_client_id ` set rs = {} \<and>
    (\<forall>r \<in> set rs. 0 < ctr_client_id r \<and> 0 \<le> ctr_uplink r \<and> 0 \<le> ctr_downlink r)"
  by (induction seen rs rule: valid_client_reports.induct) (auto split: if_splits)

definition same_tables :: "panel_db \<Rightarrow> panel_db \<Rightarrow> bool" where
  "same_tables d d' \<longleftrightarrow> d' = d\<lparr>clients := clients d', client_metrics := client_metrics d'\<rparr>"

lemma record_client_reports_effect:
  assumes "record_client_reports now sid ch rs d = Inr (changed, d')" "clients_ok d"
    and "distinct (map ctr_client_id rs)" "\<forall>r \<in> set rs. reading (ctr_uplink r) \<and> reading (ctr_downlink r)"
  shows "clients_ok d' \<and> same_tables d d' \<and>
    (\<forall>r \<in> set rs. snapshot_current now (ctr_client_id r) d' \<and>
      (\<exists>m. client_metrics_at (ctr_client_id r) d' = Some m \<and> cm_xray_up m = ctr_uplink r \<and> cm_xray_down m = ctr_downlink r)) \<and>
    (\<forall>k. k \<notin> ctr_client_id ` set rs \<longrightarrow>
      client_at k d' = client_at k d \<and> client_metrics_at k d' = client_metrics_at k d) \<and>
    (changed \<longleftrightarrow> ch \<or> (\<exists>k. client_at k d' \<noteq> client_at k d))"
  using assms
proof (induction rs arbitrary: ch d)
  case Nil
  then show ?case by (simp add: same_tables_def)
next
  case (Cons r rs)
  obtain c1 d1 where step: "record_client_traffic now sid r d = Inr (c1, d1)"
    and rest: "record_client_reports now sid (ch \<or> c1) rs d1 = Inr (changed, d')"
    using Cons.prems(1) by (auto split: sum.splits prod.splits)
  have rd: "reading (ctr_uplink r)" "reading (ctr_downlink r)"
    using Cons.prems(4) by simp_all
  note e = record_client_traffic_effect [OF Cons.prems(2) rd step]
  have ih: "clients_ok d' \<and> same_tables d1 d' \<and>
    (\<forall>r \<in> set rs. snapshot_current now (ctr_client_id r) d' \<and>
      (\<exists>m. client_metrics_at (ctr_client_id r) d' = Some m \<and> cm_xray_up m = ctr_uplink r \<and> cm_xray_down m = ctr_downlink r)) \<and>
    (\<forall>k. k \<notin> ctr_client_id ` set rs \<longrightarrow>
      client_at k d' = client_at k d1 \<and> client_metrics_at k d' = client_metrics_at k d1) \<and>
    (changed \<longleftrightarrow> (ch \<or> c1) \<or> (\<exists>k. client_at k d' \<noteq> client_at k d1))"
    using Cons.IH [OF rest e(1)] Cons.prems(3,4) by simp
  let ?r = "ctr_client_id r"
  have notin: "?r \<notin> ctr_client_id ` set rs"
    using Cons.prems(3) by simp
  then have r: "client_at ?r d' = client_at ?r d1" "client_metrics_at ?r d' = client_metrics_at ?r d1"
    using ih by blast+
  have "snapshot_current now ?r d'"
    using e(2) snapshot_current_cong [OF r] by simp
  moreover have "\<exists>m. client_metrics_at ?r d' = Some m \<and> cm_xray_up m = ctr_uplink r \<and> cm_xray_down m = ctr_downlink r"
    using e(3) r(2) by simp
  moreover have "client_at k d' = client_at k d \<and> client_metrics_at k d' = client_metrics_at k d"
    if "k \<notin> ctr_client_id ` set (r # rs)" for k
    using ih e(4) [of k] that by simp
  moreover have "same_tables d d'"
  proof -
    have "d1 = d\<lparr>clients := clients d1, client_metrics := client_metrics d1\<rparr>"
      by (rule e(6))
    moreover have "d' = d1\<lparr>clients := clients d', client_metrics := client_metrics d'\<rparr>"
      using ih by (simp add: same_tables_def)
    ultimately show ?thesis
      unfolding same_tables_def by (cases d, cases d1, cases d') auto
  qed
  moreover have "changed \<longleftrightarrow> ch \<or> (\<exists>k. client_at k d' \<noteq> client_at k d)"
  proof -
    have "(\<exists>k. client_at k d' \<noteq> client_at k d) \<longleftrightarrow> c1 \<or> (\<exists>k. client_at k d' \<noteq> client_at k d1)"
      using e(4,5) r(1) ih notin by metis
    then show ?thesis
      using ih by blast
  qed
  ultimately show ?case
    using ih by auto
qed

lemma record_client_traffic_tx_effect:
  assumes "record_client_traffic_tx now sid reports d = Inr (changed, d')" "clients_ok d"
    and "\<forall>r \<in> set reports. in64 (ctr_uplink r) \<and> in64 (ctr_downlink r)"
  shows "clients_ok d' \<and> d' = d\<lparr>clients := clients d', client_metrics := client_metrics d'\<rparr> \<and>
    (\<forall>r \<in> set reports. snapshot_current now (ctr_client_id r) d' \<and>
      (\<exists>m. client_metrics_at (ctr_client_id r) d' = Some m \<and> cm_xray_up m = ctr_uplink r \<and> cm_xray_down m = ctr_downlink r)) \<and>
    (\<forall>k. k \<notin> ctr_client_id ` set reports \<longrightarrow>
      client_at k d' = client_at k d \<and> client_metrics_at k d' = client_metrics_at k d) \<and>
    (changed \<longleftrightarrow> (\<exists>k. client_at k d' \<noteq> client_at k d))"
proof -
  have v: "valid_client_reports [] reports" and run: "record_client_reports now sid False reports d = Inr (changed, d')"
    using assms(1) by (auto simp: record_client_traffic_tx_def split: if_splits)
  have "\<forall>r \<in> set reports. reading (ctr_uplink r) \<and> reading (ctr_downlink r)"
    using valid_client_reports_distinct [OF v] assms(3) by (auto simp: reading_def in64_def)
  then show ?thesis
    using record_client_reports_effect [OF run assms(2)] valid_client_reports_distinct [OF v]
    by (simp add: same_tables_def)
qed


definition sample_client :: "id64 \<Rightarrow> client_row" where
  "sample_client cid = \<lparr>cli_id = cid, cli_proxy_id = 7, cli_assigned_user = None, cli_enabled = True,
     cli_expires_at = None, cli_limit = Some 1000, cli_reset_mode = ''never'', cli_reset_weekday = 1,
     cli_reset_day = 1, cli_reset_time = ''00:00'', cli_effective = True, cli_updated_at = 0, cli_name = [], cli_credential = [],
     cli_udp443 = False, cli_billing = None, cli_created_at = 0\<rparr>"

definition sample_client_metrics :: "id64 \<Rightarrow> client_metrics_row" where
  "sample_client_metrics cid = \<lparr>cm_client_id = cid, cm_xray_up = 100, cm_xray_down = 200, cm_cycle_up = 10,
     cm_cycle_down = 20, cm_cycle_started = 1700000000, cm_last_activity = None, cm_updated_at = 1700000000\<rparr>"

definition traffic_db :: panel_db where
  "traffic_db = empty_db\<lparr>servers := [plain_server 1],
     proxies := [\<lparr>prx_id = 7, prx_server_id = 1, prx_listen_port = 443, prx_enabled = True,
       prx_name = ''node'', prx_protocol = ''vless'', prx_created_at = 0, prx_family = ''ipv4'', prx_entry_mode = ''auto'',
         prx_entry_host = [], prx_config = [], prx_role = ''direct''\<rparr>],
     clients := [sample_client 3], client_metrics := [sample_client_metrics 3]\<rparr>"

lemma valid_time_0000 [simp]: "valid_client_reset_time ''00:00''"
  by code_simp

lemma sample_client_valid [simp]: "client_row_ok (sample_client cid)"
  by (simp add: client_row_ok_def sample_client_def valid_client_reset_def)

lemma traffic_db_ok [simp]: "clients_ok traffic_db"
  by (simp add: clients_ok_def traffic_db_def client_metrics_ok_def sample_client_metrics_def reading_def max_int64_def)

lemma traffic_db_at [simp]:
  "client_on_server 1 3 traffic_db = Some (sample_client 3)" "client_at 3 traffic_db = Some (sample_client 3)"
  "client_metrics_at 3 traffic_db = Some (sample_client_metrics 3)"
  by (simp_all add: client_on_server_def traffic_db_def sql_first_def sql_exists_def sample_client_def
      sample_client_metrics_def plain_server_def)

definition sample_traffic :: "int \<Rightarrow> int \<Rightarrow> client_traffic_report" where
  "sample_traffic up down = \<lparr>ctr_client_id = 3, ctr_uplink = up, ctr_downlink = down\<rparr>"

lemma sample_traffic_accepted:
  "\<exists>d'. record_client_traffic_tx 1700000100 1 [sample_traffic 700 900] traffic_db = Inr (True, d')"
proof -
  have r: "reading (700::int)" "reading (900::int)"
    by (simp_all add: reading_def max_int64_def)
  have "account_client 1700000100 (sample_client 3) (sample_traffic 700 900) (Some (sample_client_metrics 3)) =
      Inr ((sample_client_metrics 3)\<lparr>cm_xray_up := 700, cm_xray_down := 900, cm_cycle_up := 610,
        cm_cycle_down := 720, cm_last_activity := Some 1700000100, cm_updated_at := 1700000100\<rparr>)"
    by (simp add: account_client_def Let_def sample_client_def sample_client_metrics_def sample_traffic_def
        counter_delta_bytes_def sub64_exact int64_bounds)
  moreover have "\<not> lc_effective (client_lifecycle_at 1700000100 (client_view_of (sample_client 3) (610, 720)))"
    by (simp add: client_lifecycle_at_def Let_def client_view_of_def sample_client_def client_used_reading
        reading_def max_int64_def)
  ultimately have "\<exists>d'. record_client_traffic 1700000100 1 (sample_traffic 700 900) traffic_db = Inr (True, d')"
    using record_client_traffic_eq [OF traffic_db_ok, of "sample_traffic 700 900" 1700000100 1] r
    by (simp add: sample_traffic_def update_lifecycle_def) (simp add: sample_client_def)
  then show ?thesis
    by (auto simp: record_client_traffic_tx_def) (simp_all add: sample_traffic_def)
qed


section \<open>The configuration version follows the effective clients\<close>

text \<open>
  \<open>RecordClientTrafficWithMutation\<close> increments the desired-state version of the
  server and marks its Agents out of date exactly when the report changed the effective state
  of some client; otherwise the servers and Agents are untouched, so the Agent is not asked to
  reload an identical configuration.
\<close>

theorem client_traffic_bumps_version:
  assumes "record_client_traffic_with_mutation now sid reports d = Inr (mut, d')" "clients_ok d"
    and "\<forall>r \<in> set reports. in64 (ctr_uplink r) \<and> in64 (ctr_downlink r)"
    and "distinct (map srv_id (servers d))" "s \<in> set (servers d)" "srv_id s = sid"
  shows "if (\<exists>k. client_at k d' \<noteq> client_at k d)
    then mut = Some \<lparr>mut_server_id = sid, mut_version = srv_version s + 1\<rparr> \<and> bumpable sid s \<and>
      s\<lparr>srv_version := srv_version s + 1, srv_updated_at := now\<rparr> \<in> set (servers d') \<and>
      (\<forall>a \<in> set (agents d'). agt_server_id a = sid \<longrightarrow> agt_sync_status a = ''pending'')
    else mut = None \<and> servers d' = servers d \<and> agents d' = agents d"
proof -
  obtain changed d1 where tx: "record_client_traffic_tx now sid reports d = Inr (changed, d1)"
    and bump: "bump_if changed now sid d1 = Inr (mut, d')"
    using assms(1) by (auto simp: record_client_traffic_with_mutation_def split: sum.splits)
  note e = record_client_traffic_tx_effect [OF tx assms(2,3)]
  then have eq: "d1 = d\<lparr>clients := clients d1, client_metrics := client_metrics d1\<rparr>" by blast
  have same: "servers d1 = servers d" "agents d1 = agents d"
    by (subst eq, simp)+
  show ?thesis
  proof (cases changed)
    case False
    with bump have d': "mut = None" "d' = d1"
      by (simp_all add: bump_if_def)
    with e False have "\<not> (\<exists>k. client_at k d' \<noteq> client_at k d)"
      by blast
    with d' same show ?thesis by simp
  next
    case True
    have dist: "distinct (map srv_id (servers d1))" and s: "s \<in> set (servers d1)"
      using same assms(4,5) by simp_all
    from True bump obtain v where v: "bump_version now sid d1 = Inr (v, d')" "mut = Some \<lparr>mut_server_id = sid, mut_version = v\<rparr>"
      by (auto simp: bump_if_def split: sum.splits)
    have b: "bumpable sid s"
      using bump_version_error [OF dist s assms(6)] v(1) by fastforce
    note ok = bump_version_ok [OF dist s b, of now]
    define bumped where "bumped = sql_update (bumpable sid)
      (\<lambda>s. s\<lparr>srv_version := srv_version s + 1, srv_updated_at := now\<rparr>) (servers d1)"
    define marked where "marked = sql_update (\<lambda>a. agt_server_id a = sid)
      (\<lambda>a. a\<lparr>agt_sync_status := ''pending'', agt_sync_error := [], agt_updated_at := now\<rparr>) (agents d1)"
    have "v = srv_version s + 1 \<and> d' = d1\<lparr>servers := bumped, agents := marked\<rparr>"
      using ok v(1) unfolding bumped_def marked_def by simp
    then have d': "clients d' = clients d1" "v = srv_version s + 1" "servers d' = bumped" "agents d' = marked"
      by simp_all
    have "\<exists>k. client_at k d1 \<noteq> client_at k d"
      using e True by blast
    then have "\<exists>k. client_at k d' \<noteq> client_at k d"
      unfolding d'(1) .
    moreover have "s\<lparr>srv_version := srv_version s + 1, srv_updated_at := now\<rparr> \<in> set (servers d')"
      unfolding d'(3) bumped_def set_sql_update by (rule image_eqI [OF _ s]) (simp only: b if_True)
    moreover have "\<forall>a \<in> set (agents d'). agt_server_id a = sid \<longrightarrow> agt_sync_status a = ''pending''"
      unfolding d'(4) marked_def by (rule sql_update_all) simp_all
    ultimately show ?thesis
      using v(2) d'(2) b by simp
  qed
qed

theorem client_traffic_bumps_version_witness:
  "\<exists>d'. record_client_traffic_with_mutation 1700000100 1 [sample_traffic 700 900] traffic_db =
      Inr (Some \<lparr>mut_server_id = 1, mut_version = 2\<rparr>, d')"
proof -
  obtain d1 where d1: "record_client_traffic_tx 1700000100 1 [sample_traffic 700 900] traffic_db = Inr (True, d1)"
    using sample_traffic_accepted by blast
  have r: "\<forall>r \<in> set [sample_traffic 700 900]. in64 (ctr_uplink r) \<and> in64 (ctr_downlink r)"
    by (simp add: sample_traffic_def int64_bounds)
  note e = record_client_traffic_tx_effect [OF d1 traffic_db_ok r]
  then have eq: "d1 = traffic_db\<lparr>clients := clients d1, client_metrics := client_metrics d1\<rparr>" by blast
  have "servers d1 = [plain_server 1]"
    by (subst eq) (simp add: traffic_db_def)
  then have "\<exists>v d'. bump_version 1700000100 1 d1 = Inr (v, d')"
    using bump_version_ok [of d1 "plain_server 1" 1 1700000100] by (auto simp: bumpable_def plain_server_def)
  then obtain v d' where v: "bump_version 1700000100 1 d1 = Inr (v, d')" by blast
  then have m: "record_client_traffic_with_mutation 1700000100 1 [sample_traffic 700 900] traffic_db =
      Inr (Some \<lparr>mut_server_id = 1, mut_version = v\<rparr>, d')"
    by (simp add: record_client_traffic_with_mutation_def d1 bump_if_def)
  have s: "distinct (map srv_id (servers traffic_db))" "plain_server 1 \<in> set (servers traffic_db)"
    "srv_id (plain_server 1) = 1" "srv_version (plain_server 1) = 1"
    by (simp_all add: traffic_db_def plain_server_def)
  from client_traffic_bumps_version [OF m traffic_db_ok r s(1-3)] m show ?thesis
    by (auto simp: s(4) split: if_splits)
qed

section \<open>Reconciliation is complete and idempotent\<close>

text \<open>The decision for a client with a valid reset configuration.\<close>

definition cycle_start_of :: "unix_time \<Rightarrow> client_row \<Rightarrow> unix_time" where
  "cycle_start_of now c = cycle_start (client_bnd (cli_reset_mode c) (cli_reset_weekday c) (cli_reset_day c)
     (cli_reset_time c)) (client_idx (cli_reset_mode c) (cli_reset_weekday c)) now"

definition cycle_due :: "unix_time \<Rightarrow> client_row \<Rightarrow> client_metrics_row option \<Rightarrow> bool" where
  "cycle_due now c m = (case m of None \<Rightarrow> False
     | Some r \<Rightarrow> cli_reset_mode c \<noteq> ''never'' \<and> cm_cycle_started r < cycle_start_of now c)"

definition due_used :: "unix_time \<Rightarrow> client_row \<Rightarrow> client_metrics_row option \<Rightarrow> int \<times> int" where
  "due_used now c m = (case m of None \<Rightarrow> (0, 0)
     | Some r \<Rightarrow> if cycle_due now c m then (0, 0) else (cm_cycle_up r, cm_cycle_down r))"

definition due_effective :: "unix_time \<Rightarrow> client_row \<Rightarrow> client_metrics_row option \<Rightarrow> bool" where
  "due_effective now c m = lc_effective (client_lifecycle_at now (client_view_of c (due_used now c m)))"

lemma lifecycle_update_of_eq:
  assumes "client_row_ok c"
  shows "lifecycle_update_of now d c = (let m = client_metrics_at (cli_id c) d in
    Inr (if due_effective now c m \<noteq> cli_effective c \<or> cycle_due now c m
      then Some \<lparr>lu_id = cli_id c, lu_effective = due_effective now c m,
        lu_changed = (due_effective now c m \<noteq> cli_effective c),
        lu_cycle_start = (if cycle_due now c m then Some (cycle_start_of now c) else None)\<rparr>
      else None))"
proof -
  have start: "current_client_cycle_start now (cli_reset_mode c) (cli_reset_weekday c) (cli_reset_day c) (cli_reset_time c) =
      Inr (if cli_reset_mode c = ''never'' then now else cycle_start_of now c)"
    using current_client_cycle_start_eq assms unfolding client_row_ok_def cycle_start_of_def by blast
  show ?thesis
  proof (cases "client_metrics_at (cli_id c) d")
    case None
    then show ?thesis
      by (simp add: lifecycle_update_of_def Let_def cycle_due_def due_effective_def due_used_def)
  next
    case (Some r)
    then show ?thesis
      by (cases "cli_reset_mode c = ''never''"; cases "cm_cycle_started r < cycle_start_of now c")
        (simp_all add: lifecycle_update_of_def Let_def start cycle_due_def due_effective_def due_used_def)
  qed
qed

text \<open>What one update does to the client it is for, and that it touches no other.\<close>

definition updated_client :: "lifecycle_update \<Rightarrow> client_row \<Rightarrow> client_row" where
  "updated_client u c = (if lu_changed u then c\<lparr>cli_effective := lu_effective u\<rparr> else c)"

definition updated_metrics :: "unix_time \<Rightarrow> lifecycle_update \<Rightarrow> client_metrics_row \<Rightarrow> client_metrics_row" where
  "updated_metrics now u m = (case lu_cycle_start u of None \<Rightarrow> m
     | Some start \<Rightarrow> m\<lparr>cm_cycle_up := 0, cm_cycle_down := 0, cm_cycle_started := start, cm_updated_at := now\<rparr>)"

lemma apply_lifecycle_update_eq:
  "apply_lifecycle_update now u d = d\<lparr>
     clients := sql_update (cli_of (lu_id u)) (updated_client u) (clients d),
     client_metrics := sql_update (cm_of (lu_id u)) (updated_metrics now u) (client_metrics d)\<rparr>"
proof -
  have "sql_update P (\<lambda>x. x) t = t" for P and t :: "client_row list"
    by (rule sql_update_id) simp
  moreover have "sql_update P (\<lambda>x. x) t = t" for P and t :: "client_metrics_row list"
    by (rule sql_update_id) simp
  ultimately show ?thesis
    by (auto simp: apply_lifecycle_update_def Let_def updated_client_def [abs_def] updated_metrics_def [abs_def]
        split: option.split)
qed

lemma updated_ids [simp]:
  "cli_id (updated_client u c) = cli_id c" "cm_client_id (updated_metrics now u m) = cm_client_id m"
  by (simp_all add: updated_client_def updated_metrics_def split: option.split)

lemma apply_lifecycle_update_at:
  "client_at k (apply_lifecycle_update now u d) =
     (if k = lu_id u then map_option (updated_client u) (client_at k d) else client_at k d)"
  "client_metrics_at k (apply_lifecycle_update now u d) =
     (if k = lu_id u then map_option (updated_metrics now u) (client_metrics_at k d) else client_metrics_at k d)"
  unfolding apply_lifecycle_update_eq
  by (auto simp: sql_first_update_same intro: sql_first_update_other)

lemma fold_lifecycle_updates_at:
  assumes "distinct (map lu_id us)"
  shows "client_at k (fold (apply_lifecycle_update now) us d) = (case find (\<lambda>u. lu_id u = k) us of
      None \<Rightarrow> client_at k d | Some u \<Rightarrow> map_option (updated_client u) (client_at k d))"
    "client_metrics_at k (fold (apply_lifecycle_update now) us d) = (case find (\<lambda>u. lu_id u = k) us of
      None \<Rightarrow> client_metrics_at k d | Some u \<Rightarrow> map_option (updated_metrics now u) (client_metrics_at k d))"
  using assms
proof (induction us arbitrary: d)
  case (Cons u us)
  {
    case 1
    then have "lu_id u = k \<Longrightarrow> find (\<lambda>u. lu_id u = k) us = None"
      by (intro find_key_None) auto
    with 1 show ?case
      using Cons.IH(1) [of "apply_lifecycle_update now u d"]
      by (auto simp: apply_lifecycle_update_at split: option.split)
  next
    case 2
    then have "lu_id u = k \<Longrightarrow> find (\<lambda>u. lu_id u = k) us = None"
      by (intro find_key_None) auto
    with 2 show ?case
      using Cons.IH(2) [of "apply_lifecycle_update now u d"]
      by (auto simp: apply_lifecycle_update_at split: option.split)
  }
qed simp_all

lemma fold_lifecycle_updates_frame:
  "servers (fold (apply_lifecycle_update now) us d) = servers d \<and>
   proxies (fold (apply_lifecycle_update now) us d) = proxies d \<and>
   subscriber_clients (fold (apply_lifecycle_update now) us d) = subscriber_clients d \<and>
   map cli_id (clients (fold (apply_lifecycle_update now) us d)) = map cli_id (clients d) \<and>
   map cli_proxy_id (clients (fold (apply_lifecycle_update now) us d)) = map cli_proxy_id (clients d) \<and>
   map cm_client_id (client_metrics (fold (apply_lifecycle_update now) us d)) = map cm_client_id (client_metrics d)"
proof (induction us arbitrary: d)
  case (Cons u us)
  have "servers (apply_lifecycle_update now u d) = servers d \<and>
    proxies (apply_lifecycle_update now u d) = proxies d \<and>
    subscriber_clients (apply_lifecycle_update now u d) = subscriber_clients d \<and>
    map cli_id (clients (apply_lifecycle_update now u d)) = map cli_id (clients d) \<and>
    map cli_proxy_id (clients (apply_lifecycle_update now u d)) = map cli_proxy_id (clients d) \<and>
    map cm_client_id (client_metrics (apply_lifecycle_update now u d)) = map cm_client_id (client_metrics d)"
    unfolding apply_lifecycle_update_eq by (simp add: sql_update_def updated_client_def)
  with Cons [of "apply_lifecycle_update now u d"] show ?case by simp
qed simp

definition pending_update :: "unix_time \<Rightarrow> panel_db \<Rightarrow> client_row \<Rightarrow> lifecycle_update option" where
  "pending_update now d c = (case lifecycle_update_of now d c of Inl _ \<Rightarrow> None | Inr u \<Rightarrow> u)"

lemma pending_update_eq:
  assumes "client_row_ok c"
  shows "lifecycle_update_of now d c = Inr (pending_update now d c)"
    "pending_update now d c = (let m = client_metrics_at (cli_id c) d in
      if due_effective now c m \<noteq> cli_effective c \<or> cycle_due now c m
      then Some \<lparr>lu_id = cli_id c, lu_effective = due_effective now c m,
        lu_changed = (due_effective now c m \<noteq> cli_effective c),
        lu_cycle_start = (if cycle_due now c m then Some (cycle_start_of now c) else None)\<rparr>
      else None)"
  by (simp_all add: pending_update_def lifecycle_update_of_eq [OF assms] Let_def)

lemma pending_update_id: "client_row_ok c \<Longrightarrow> pending_update now d c = Some u \<Longrightarrow> lu_id u = cli_id c"
  by (auto simp: pending_update_eq Let_def split: if_splits)

lemma lifecycle_updates_eq:
  "\<forall>c \<in> set cs. client_row_ok c \<Longrightarrow> lifecycle_updates now d cs = Inr (List.map_filter (pending_update now d) cs)"
  by (induction cs) (auto simp: pending_update_eq(1) List.map_filter_simps split: option.split)

lemma map_filter_ids:
  "\<forall>c \<in> set cs. client_row_ok c \<Longrightarrow> lu_id ` set (List.map_filter (pending_update now d) cs) \<subseteq> cli_id ` set cs"
  by (induction cs) (auto simp: List.map_filter_simps pending_update_id split: option.splits)

lemma map_filter_distinct:
  "\<forall>c \<in> set cs. client_row_ok c \<Longrightarrow> distinct (map cli_id cs) \<Longrightarrow>
    distinct (map lu_id (List.map_filter (pending_update now d) cs))"
proof (induction cs)
  case (Cons c cs)
  then show ?case
    using map_filter_ids [of cs now d] pending_update_id [of c now d]
    by (auto simp: List.map_filter_simps split: option.split)
qed (simp add: List.map_filter_simps)

lemma find_map_filter:
  assumes "\<forall>c \<in> set cs. client_row_ok c" "distinct (map cli_id cs)"
  shows "find (\<lambda>u. lu_id u = k) (List.map_filter (pending_update now d) cs) =
    (case find (\<lambda>c. cli_id c = k) cs of None \<Rightarrow> None | Some c \<Rightarrow> pending_update now d c)"
  using assms
proof (induction cs)
  case (Cons c cs)
  have "find (\<lambda>u. lu_id u = cli_id c) (List.map_filter (pending_update now d) cs) = None"
    using Cons.prems map_filter_ids [of cs now d] by (intro find_key_None) auto
  with Cons show ?case
    using pending_update_id [of c now d]
    by (auto simp: List.map_filter_simps split: option.split)
qed (simp add: List.map_filter_simps)

lemma client_ok_updated [simp]:
  "client_row_ok (updated_client u c) = client_row_ok c"
  by (simp add: client_row_ok_def updated_client_def)

lemma metrics_ok_updated: "client_metrics_ok m \<Longrightarrow> client_metrics_ok (updated_metrics now u m)"
  by (auto simp: client_metrics_ok_def updated_metrics_def split: option.split)

lemma clients_ok_fold: "clients_ok d \<Longrightarrow> clients_ok (fold (apply_lifecycle_update now) us d)"
proof (induction us arbitrary: d)
  case (Cons u us)
  have "clients_ok (apply_lifecycle_update now u d)"
    using Cons.prems unfolding apply_lifecycle_update_eq clients_ok_def
    by (auto simp: map_sql_update_key set_sql_update intro: metrics_ok_updated)
  then show ?case
    using Cons.IH by simp
qed simp

lemma lc_view_cong:
  "client_view_of (c\<lparr>cli_effective := e\<rparr>) used = client_view_of c used"
  by (simp add: client_view_of_def)

lemma updated_client_view [simp]:
  "cycle_start_of now (updated_client u c) = cycle_start_of now c"
  "cli_reset_mode (updated_client u c) = cli_reset_mode c" "cli_proxy_id (updated_client u c) = cli_proxy_id c"
  "client_view_of (updated_client u c) used = client_view_of c used"
  by (simp_all add: updated_client_def cycle_start_of_def lc_view_cong)

lemma updated_not_pending:
  assumes "client_row_ok c" "pending_update now d c = Some u" "client_metrics_at (cli_id c) d = m"
    and "client_metrics_at (cli_id c) d' = map_option (updated_metrics now u) m"
  shows "pending_update now d' (updated_client u c) = None"
proof -
  let ?c = "updated_client u c"
  have u: "u = \<lparr>lu_id = cli_id c, lu_effective = due_effective now c m,
        lu_changed = (due_effective now c m \<noteq> cli_effective c),
        lu_cycle_start = (if cycle_due now c m then Some (cycle_start_of now c) else None)\<rparr>"
    using assms(2,3) by (auto simp: pending_update_eq [OF assms(1)] Let_def split: if_splits)
  have eff: "cli_effective ?c = due_effective now c m"
    by (simp add: updated_client_def u)

  have due: "\<not> cycle_due now ?c (map_option (updated_metrics now u) m)"
  proof (cases "cycle_due now c m")
    case True
    then show ?thesis
      by (cases m) (simp_all add: cycle_due_def updated_metrics_def u)
  next
    case False
    then show ?thesis
      by (cases m) (simp_all add: cycle_due_def updated_metrics_def u)
  qed
  have "due_used now ?c (map_option (updated_metrics now u) m) = due_used now c m"
  proof (cases m)
    case (Some r)
    then show ?thesis
      using due by (simp add: due_used_def) (simp add: updated_metrics_def u)
  qed (simp add: due_used_def)
  then have "due_effective now ?c (map_option (updated_metrics now u) m) = due_effective now c m"
    by (simp add: due_effective_def)
  with due eff show ?thesis
    using assms(1,4) by (simp add: pending_update_eq(2) Let_def)
qed

lemma not_pending_current:
  assumes "client_row_ok c" "pending_update now d c = None" "client_at (cli_id c) d = Some c"
  shows "snapshot_current now (cli_id c) d \<and> (\<forall>m. client_metrics_at (cli_id c) d = Some m \<longrightarrow>
    cli_reset_mode c \<noteq> ''never'' \<longrightarrow> cycle_start_of now c \<le> cm_cycle_started m)"
proof -
  let ?m = "client_metrics_at (cli_id c) d"
  have p: "due_effective now c ?m = cli_effective c" "\<not> cycle_due now c ?m"
    using assms(2) by (auto simp: pending_update_eq [OF assms(1)] Let_def split: if_splits)
  have "due_used now c ?m = cycle_used (cli_id c) d"
    using p(2) by (auto simp: due_used_def cycle_used_def split: option.split)
  then show ?thesis
    using p assms(3) by (auto simp: snapshot_current_def due_effective_def cycle_due_def)
qed

lemma reconcilable_cong:
  assumes "servers d' = servers d" "proxies d' = proxies d" "subscriber_clients d' = subscriber_clients d"
    and "cli_id c' = cli_id c" "cli_proxy_id c' = cli_proxy_id c"
  shows "reconcilable sid d' c' = reconcilable sid d c"
  using assms by (simp add: reconcilable_def)

lemma lifecycle_updates_none:
  "\<forall>c \<in> set cs. client_row_ok c \<and> pending_update now d c = None \<Longrightarrow> lifecycle_updates now d cs = Inr []"
  by (induction cs) (auto simp: pending_update_eq(1))

lemma reconcile_state_effect:
  assumes "clients_ok d"
  shows "\<exists>changed d'. reconcile_client_lifecycle_state now sid d = Inr (changed, d') \<and> clients_ok d' \<and>
    (\<forall>c \<in> set (clients d'). reconcilable sid d' c \<longrightarrow> pending_update now d' c = None) \<and>
    (\<forall>k. (\<forall>c. client_at k d = Some c \<longrightarrow> \<not> reconcilable sid d c) \<longrightarrow>
      client_at k d' = client_at k d \<and> client_metrics_at k d' = client_metrics_at k d)"
proof -
  define cs where "cs = filter (reconcilable sid d) (clients d)"
  define us where "us = List.map_filter (pending_update now d) cs"
  define d' where "d' = fold (apply_lifecycle_update now) us d"
  have rows: "\<forall>c \<in> set cs. client_row_ok c"
    using assms by (simp add: cs_def clients_ok_def)
  have ids: "distinct (map cli_id cs)"
    unfolding cs_def by (rule distinct_map_filter [OF clients_okD(1) [OF assms]])
  have run: "reconcile_client_lifecycle_state now sid d = Inr (list_ex lu_changed us, d')"
    unfolding reconcile_client_lifecycle_state_def cs_def [symmetric] lifecycle_updates_eq [OF rows]
    by (simp add: us_def d'_def)
  have ok: "clients_ok d'"
    unfolding d'_def by (rule clients_ok_fold [OF assms])
  note at = fold_lifecycle_updates_at [OF map_filter_distinct [OF rows ids, of now d], of _ now d, folded us_def d'_def]
  note find = find_map_filter [OF rows ids, of _ now d, folded us_def]
  have frame: "servers d' = servers d" "proxies d' = proxies d" "subscriber_clients d' = subscriber_clients d"
    "map cli_id (clients d') = map cli_id (clients d)"
    using fold_lifecycle_updates_frame [of now us d] by (simp_all add: d'_def)
  have "pending_update now d' c' = None" if c': "c' \<in> set (clients d')" "reconcilable sid d' c'" for c'
  proof -
    have at': "client_at (cli_id c') d' = Some c'"
      by (rule sql_first_key [OF clients_okD(1) [OF ok] c'(1) refl])
    have "cli_id c' \<in> set (map cli_id (clients d))"
      using c'(1) frame(4) by (metis image_eqI set_map)
    then obtain c where c: "c \<in> set (clients d)" "cli_id c = cli_id c'"
      by auto
    have c_at: "client_at (cli_id c') d = Some c"
      by (rule sql_first_key [OF clients_okD(1) [OF assms] c])
    have row: "client_row_ok c"
      using assms c(1) by (simp add: clients_ok_def)
    have c'_cases: "(find (\<lambda>u. lu_id u = cli_id c') us = None \<and> c' = c) \<or>
        (\<exists>u. find (\<lambda>u. lu_id u = cli_id c') us = Some u \<and> c' = updated_client u c)"
      using at(1) [of "cli_id c'"] at' c_at by (auto split: option.splits)
    then have "cli_proxy_id c' = cli_proxy_id c"
      by auto
    then have "reconcilable sid d c"
      using c'(2) reconcilable_cong [OF frame(1-3), of c' c] c(2) by simp
    then have "c \<in> set cs"
      using c(1) by (simp add: cs_def)
    then have "find (\<lambda>x. cli_id x = cli_id c) cs = Some c"
      using find_filter_key [OF ids, of c "\<lambda>_. True"] by simp
    then have "find (\<lambda>u. lu_id u = cli_id c) us = pending_update now d c"
      unfolding find by simp
    then have pend: "find (\<lambda>u. lu_id u = cli_id c') us = pending_update now d c"
      unfolding c(2) .
    show ?thesis
    proof (cases "pending_update now d c")
      case None
      then have find_none: "find (\<lambda>u. lu_id u = cli_id c') us = None"
        using pend by simp
      then have "c' = c"
        using c'_cases by simp
      moreover have "client_metrics_at (cli_id c) d' = client_metrics_at (cli_id c) d"
        using at(2) [of "cli_id c'"] unfolding find_none c(2) by simp
      ultimately show ?thesis
        using None row by (simp add: pending_update_eq(2) Let_def)
    next
      case (Some u)
      then have find_some: "find (\<lambda>u. lu_id u = cli_id c') us = Some u"
        using pend by simp
      then have c'_eq: "c' = updated_client u c"
        using c'_cases by simp
      have "client_metrics_at (cli_id c) d' = map_option (updated_metrics now u) (client_metrics_at (cli_id c) d)"
        using at(2) [of "cli_id c'"] unfolding find_some c(2) by simp
      then show ?thesis
        unfolding c'_eq by (rule updated_not_pending [OF row Some refl])
    qed
  qed
  moreover have "client_at k d' = client_at k d \<and> client_metrics_at k d' = client_metrics_at k d"
    if k: "\<forall>c. client_at k d = Some c \<longrightarrow> \<not> reconcilable sid d c" for k
  proof -
    have "find (\<lambda>c. cli_id c = k) cs = None"
    proof (rule ccontr)
      assume "find (\<lambda>c. cli_id c = k) cs \<noteq> None"
      then have "k \<in> cli_id ` set cs"
        using find_key_None [of k cli_id cs] by argo
      then obtain c where "c \<in> set cs" "cli_id c = k"
        by auto
      then have "reconcilable sid d c" "client_at k d = Some c"
        using sql_first_key [OF clients_okD(1) [OF assms]] by (auto simp: cs_def)
      with k show False by blast
    qed
    then have "find (\<lambda>u. lu_id u = k) us = None"
      by (simp add: find)
    then show ?thesis
      using at by simp
  qed
  ultimately show ?thesis
    using run ok by blast
qed

text \<open>
  C29. Reconciling the clients of a server never fails on a well-formed database. Afterwards
  every client of the server that is not managed by a subscription has the effective flag its
  lifecycle gives and counters of a cycle that is not over; all other clients are untouched; and
  reconciling again at the same instant changes nothing and reports no change, so a
  configuration pull does not bump the version twice.
\<close>

theorem reconcile_complete_and_idempotent:
  assumes "clients_ok d"
  shows "\<exists>changed d'. reconcile_client_lifecycle_state now sid d = Inr (changed, d') \<and> clients_ok d' \<and>
    (\<forall>c \<in> set (clients d'). reconcilable sid d' c \<longrightarrow> snapshot_current now (cli_id c) d' \<and>
      (\<forall>m. client_metrics_at (cli_id c) d' = Some m \<longrightarrow> cli_reset_mode c \<noteq> ''never'' \<longrightarrow>
        cycle_start_of now c \<le> cm_cycle_started m)) \<and>
    (\<forall>k. (\<forall>c. client_at k d = Some c \<longrightarrow> \<not> reconcilable sid d c) \<longrightarrow>
      client_at k d' = client_at k d \<and> client_metrics_at k d' = client_metrics_at k d) \<and>
    reconcile_client_lifecycle_state now sid d' = Inr (False, d')"
proof -
  obtain changed d' where d': "reconcile_client_lifecycle_state now sid d = Inr (changed, d')" "clients_ok d'"
    and none: "\<forall>c \<in> set (clients d'). reconcilable sid d' c \<longrightarrow> pending_update now d' c = None"
    and frame: "\<forall>k. (\<forall>c. client_at k d = Some c \<longrightarrow> \<not> reconcilable sid d c) \<longrightarrow>
      client_at k d' = client_at k d \<and> client_metrics_at k d' = client_metrics_at k d"
    using reconcile_state_effect [OF assms] by blast
  have "snapshot_current now (cli_id c) d' \<and> (\<forall>m. client_metrics_at (cli_id c) d' = Some m \<longrightarrow>
      cli_reset_mode c \<noteq> ''never'' \<longrightarrow> cycle_start_of now c \<le> cm_cycle_started m)"
    if "c \<in> set (clients d')" "reconcilable sid d' c" for c
    using that none d'(2) by (intro not_pending_current)
      (auto simp: clients_ok_def intro: sql_first_key [OF clients_okD(1) [OF d'(2)]])
  moreover have "reconcile_client_lifecycle_state now sid d' = Inr (False, d')"
    unfolding reconcile_client_lifecycle_state_def
    by (subst lifecycle_updates_none) (use none d'(2) in \<open>auto simp: clients_ok_def\<close>)
  ultimately show ?thesis
    using d' frame by blast
qed

theorem reconcile_complete_and_idempotent_witness:
  "\<exists>changed d'. reconcile_client_lifecycle_state 1700000100 1 traffic_db = Inr (changed, d') \<and>
    clients_ok d' \<and> reconcile_client_lifecycle_state 1700000100 1 d' = Inr (False, d')"
  using reconcile_complete_and_idempotent [OF traffic_db_ok, of 1700000100 1] by blast

end
