(* ===== verification/GoStrings.thy ===== *)
theory GoStrings
  imports Prelude
begin

text \<open>
  Parts of Go's \<open>strings\<close>, \<open>strconv\<close> and \<open>unicode/utf8\<close> that several
  components use: splitting, decimal numerals, and the number of runes of a string.
\<close>

section \<open>Splitting\<close>

text \<open>\<open>strings.Split\<close> on a one-byte separator: never empty.\<close>

fun split_on :: "char \<Rightarrow> string \<Rightarrow> string list" where
  "split_on c [] = [[]]"
| "split_on c (x # xs) = (if x = c then [] # split_on c xs
     else (case split_on c xs of [] \<Rightarrow> [[x]] | w # ws \<Rightarrow> (x # w) # ws))"

fun join_with :: "char \<Rightarrow> string list \<Rightarrow> string" where
  "join_with c [] = []"
| "join_with c [w] = w"
| "join_with c (w # ws) = w @ c # join_with c ws"

lemma split_on_not_Nil [simp]: "split_on c s \<noteq> []"
  by (induction s) (auto split: list.split)

lemma join_split: "join_with c (split_on c s) = s"
proof (induction s)
  case (Cons x xs)
  then show ?case
    by (cases "split_on c xs"; cases "tl (split_on c xs)") auto
qed simp

lemma split_on_word: "c \<notin> set w \<Longrightarrow> split_on c w = [w]"
  by (induction w) auto

lemma split_on_append: "c \<notin> set w \<Longrightarrow> split_on c (w @ c # s) = w # split_on c s"
  by (induction w) auto

lemma split_join:
  assumes "ws \<noteq> []" "\<forall>w \<in> set ws. c \<notin> set w"
  shows "split_on c (join_with c ws) = ws"
  using assms by (induction c ws rule: join_with.induct) (auto simp: split_on_word split_on_append)

lemma split_on_words: "w \<in> set (split_on c s) \<Longrightarrow> c \<notin> set w"
proof (induction s arbitrary: w)
  case (Cons x xs)
  then show ?case
    by (cases "split_on c xs") (auto split: if_splits)
qed simp

section \<open>Decimal numerals\<close>

definition digit_nat :: "char \<Rightarrow> nat" where
  "digit_nat c = of_char c - 48"

definition nat_digit :: "nat \<Rightarrow> char" where
  "nat_digit n = char_of (n + 48)"

fun dec :: "nat \<Rightarrow> string" where
  "dec n = (if n < 10 then [nat_digit n] else dec (n div 10) @ [nat_digit (n mod 10)])"

declare dec.simps [simp del]

definition dec_val :: "string \<Rightarrow> nat" where
  "dec_val s = foldl (\<lambda>n c. 10 * n + digit_nat c) 0 s"

lemma nat_digit_inverse: "n < 10 \<Longrightarrow> digit_nat (nat_digit n) = n \<and> is_digit (nat_digit n)"
  by (simp add: digit_nat_def nat_digit_def is_digit_def)

lemma digit_nat_inverse:
  assumes "is_digit c"
  shows "nat_digit (digit_nat c) = c \<and> digit_nat c < 10"
proof -
  have "48 \<le> (of_char c :: nat)" "(of_char c :: nat) \<le> 57"
    using assms by (simp_all add: is_digit_def)
  then have "digit_nat c + 48 = of_char c" "digit_nat c < 10"
    unfolding digit_nat_def by linarith+
  then show ?thesis
    by (simp add: nat_digit_def)
qed

lemma dec_val_snoc [simp]: "dec_val (s @ [c]) = 10 * dec_val s + digit_nat c" "dec_val [] = 0"
  by (simp_all add: dec_val_def)

lemma dec_val_dec [simp]: "dec_val (dec n) = n"
proof (induction n rule: dec.induct)
  case (1 n)
  show ?case
  proof (cases "n < 10")
    case True
    then have "dec_val ([] @ [nat_digit n]) = n"
      unfolding dec_val_snoc by (simp add: nat_digit_inverse)
    with True show ?thesis by (simp add: dec.simps [of n])
  next
    case False
    then show ?thesis
      using 1 by (simp add: dec.simps [of n] nat_digit_inverse)
  qed
qed

lemma dec_digits: "\<forall>c \<in> set (dec n). is_digit c"
  by (induction n rule: dec.induct, subst dec.simps) (auto simp: nat_digit_inverse)

lemma dec_not_Nil [simp]: "dec n \<noteq> []"
  by (subst dec.simps) simp

text \<open>A numeral without superfluous leading zeros, as the code's parsers require it.\<close>

definition canonical :: "string \<Rightarrow> bool" where
  "canonical s \<longleftrightarrow> s \<noteq> [] \<and> \<not> (length s > 1 \<and> hd s = CHR ''0'') \<and> (\<forall>c \<in> set s. is_digit c)"

lemma nat_digit_zero:
  assumes "n < 10"
  shows "nat_digit n = CHR ''0'' \<longleftrightarrow> n = 0"
proof
  have "digit_nat CHR ''0'' = 0"
    by code_simp
  then show "nat_digit n = CHR ''0'' \<Longrightarrow> n = 0"
    using nat_digit_inverse [OF assms] by metis
  have "nat_digit 0 = CHR ''0''"
    by code_simp
  then show "n = 0 \<Longrightarrow> nat_digit n = CHR ''0''" by simp
qed

lemma dec_head: "hd (dec n) = CHR ''0'' \<Longrightarrow> n = 0"
proof (induction n rule: dec.induct)
  case (1 n)
  show ?case
  proof (cases "n < 10")
    case True
    with 1 show ?thesis by (simp add: dec.simps [of n] nat_digit_zero)
  next
    case False
    with 1 have "n div 10 = 0"
      by (simp add: dec.simps [of n])
    with False show ?thesis by simp
  qed
qed

lemma dec_canonical [simp]: "canonical (dec n)"
proof -
  have "length (dec 0) = 1"
    by (simp add: dec.simps)
  then show ?thesis
    using dec_head [of n] dec_digits by (auto simp: canonical_def)
qed

lemma dec_val_pos: "canonical s \<Longrightarrow> hd s \<noteq> CHR ''0'' \<Longrightarrow> 0 < dec_val s"
proof (induction s rule: rev_induct)
  case (snoc c s)
  show ?case
  proof (cases "s = []")
    case True
    then have c: "is_digit c" "c \<noteq> CHR ''0''"
      using snoc.prems by (simp_all add: canonical_def)
    then have "digit_nat c \<noteq> 0"
      using digit_nat_inverse [of c] nat_digit_zero [of "digit_nat c"] by auto
    with True show ?thesis
      using dec_val_snoc(1) [of "[]" c] by simp
  next
    case False
    then have "0 < dec_val s"
      using snoc by (auto simp: canonical_def)
    then show ?thesis by simp
  qed
qed (simp add: canonical_def)

lemma dec_dec_val: "canonical s \<Longrightarrow> dec (dec_val s) = s"
proof (induction s rule: rev_induct)
  case (snoc c s)
  have c: "nat_digit (digit_nat c) = c" "digit_nat c < 10"
    using snoc.prems digit_nat_inverse by (simp_all add: canonical_def)
  show ?case
  proof (cases "s = []")
    case True
    then show ?thesis
      using c dec_val_snoc(1) [of "[]" c] by (simp add: dec.simps)
  next
    case False
    then have s: "canonical s" "hd s \<noteq> CHR ''0''"
      using snoc.prems by (auto simp: canonical_def)
    then have "0 < dec_val s"
      by (rule dec_val_pos)
    then have "dec (10 * dec_val s + digit_nat c) = dec (dec_val s) @ [c]"
      using c by (subst dec.simps) simp
    then show ?thesis
      using snoc.IH [OF s(1)] by simp
  qed
qed (simp add: canonical_def)

section \<open>Runes\<close>

text \<open>
  \<open>utf8.RuneCountInString\<close>: a well-formed UTF-8 sequence counts once, and every byte
  that begins none counts once.
\<close>

definition byte_in :: "nat \<Rightarrow> nat \<Rightarrow> char \<Rightarrow> bool" where
  "byte_in lo hi c \<longleftrightarrow> lo \<le> (of_char c :: nat) \<and> (of_char c :: nat) \<le> hi"

abbreviation tail_byte :: "char \<Rightarrow> bool" where
  "tail_byte \<equiv> byte_in 128 191"

fun rune_size :: "string \<Rightarrow> nat" where
  "rune_size (a # b # c # d # _) =
     (if byte_in 194 223 a \<and> tail_byte b then 2
      else if (byte_in 224 224 a \<and> byte_in 160 191 b \<or> (byte_in 225 236 a \<or> byte_in 238 239 a) \<and> tail_byte b \<or>
        byte_in 237 237 a \<and> byte_in 128 159 b) \<and> tail_byte c then 3
      else if (byte_in 240 240 a \<and> byte_in 144 191 b \<or> byte_in 241 243 a \<and> tail_byte b \<or>
        byte_in 244 244 a \<and> byte_in 128 143 b) \<and> tail_byte c \<and> tail_byte d then 4
      else 1)"
| "rune_size [a, b, c] =
     (if byte_in 194 223 a \<and> tail_byte b then 2
      else if (byte_in 224 224 a \<and> byte_in 160 191 b \<or> (byte_in 225 236 a \<or> byte_in 238 239 a) \<and> tail_byte b \<or>
        byte_in 237 237 a \<and> byte_in 128 159 b) \<and> tail_byte c then 3
      else 1)"
| "rune_size [a, b] = (if byte_in 194 223 a \<and> tail_byte b then 2 else 1)"
| "rune_size _ = 1"

lemma rune_size_pos: "0 < rune_size s"
  by (induction s rule: rune_size.induct) auto

function rune_count :: "string \<Rightarrow> nat" where
  "rune_count s = (if s = [] then 0 else Suc (rune_count (drop (rune_size s) s)))"
  by pat_completeness auto
termination
  by (relation "measure length") (auto simp: rune_size_pos)

declare rune_count.simps [simp del]

lemma rune_count_le: "rune_count s \<le> length s"
proof (induction s rule: rune_count.induct)
  case (1 s)
  show ?case
  proof (cases "s = []")
    case True
    then show ?thesis by (simp add: rune_count.simps)
  next
    case False
    then have "rune_count (drop (rune_size s) s) \<le> length s - rune_size s"
      using 1 by simp
    then show ?thesis
      using False rune_size_pos [of s] by (subst rune_count.simps) (cases s; simp)
  qed
qed

lemma rune_count_Nil [simp]: "rune_count [] = 0"
  by (simp add: rune_count.simps)

text \<open>\<open>string([]rune(s)[:n])\<close>: a byte that begins no rune becomes U+FFFD.\<close>

definition first_rune :: "string \<Rightarrow> string" where
  "first_rune s = (if rune_size s = 1 \<and> \<not> byte_in 0 127 (hd s) then [CHR 0xEF, CHR 0xBF, CHR 0xBD] else take (rune_size s) s)"

fun take_runes :: "nat \<Rightarrow> string \<Rightarrow> string" where
  "take_runes 0 s = []"
| "take_runes (Suc n) s = (if s = [] then [] else first_rune s @ take_runes n (drop (rune_size s) s))"

section \<open>Strings that need no trimming\<close>

text \<open>A string whose first and last bytes are visible ASCII is its own \<open>TrimSpace\<close>.\<close>

definition plain_char :: "char \<Rightarrow> bool" where
  "plain_char c \<longleftrightarrow> 33 \<le> (of_char c :: nat) \<and> (of_char c :: nat) \<le> 126"

lemma trim_left_plain:
  assumes "\<forall>p \<in> set ps. \<not> plain_char (hd p)" "s = [] \<or> plain_char (hd s)"
  shows "trim_left_by ps s = s"
proof -
  have "\<not> (p \<noteq> [] \<and> take (length p) s = p)" if "p \<in> set ps" for p
  proof
    assume p: "p \<noteq> [] \<and> take (length p) s = p"
    then have "s \<noteq> []" "hd s = hd p"
      by (cases s; cases p; auto)+
    with assms that show False by auto
  qed
  then have "strip_prefix ps s = None"
    by (auto simp: strip_prefix_def find_None_iff)
  then show ?thesis
    by (subst trim_left_by.simps) simp
qed

lemma spaces_not_plain:
  "\<forall>p \<in> set space_encodings. \<not> plain_char (hd p)" "\<forall>p \<in> set (map rev space_encodings). \<not> plain_char (hd p)"
  by code_simp+

lemma trim_space_plain:
  assumes "s \<noteq> []" "plain_char (hd s)" "plain_char (last s)"
  shows "trim_space s = s"
proof -
  have "plain_char (hd (rev s))"
    using assms(1,3) by (simp add: hd_rev)
  with assms(2) show ?thesis
    by (simp add: trim_space_def trim_left_plain spaces_not_plain del: set_map)
qed

text \<open>\<open>NormalizeLoginIdentifier\<close> (\<open>auth/user.go\<close>), used by the accounts and the login limiter; \<open>lower\<close> is \<open>strings.ToLower\<close>.\<close>

definition normalize_login_identifier :: "(string \<Rightarrow> string) \<Rightarrow> string \<Rightarrow> string" where
  "normalize_login_identifier lower s =
     (let t = trim_space s in if List.member t CHR ''@'' then lower t else t)"

end
