(* ===== verification/Release.thy ===== *)
theory Release
  imports GoStrings
begin

text \<open>
  Release versions (\<open>panel/internal/version/release.go\<close>): a formal release is
  \<open>vMAJOR.MINOR.PATCH\<close> with three decimal numbers of 64 bits without leading zeros.
\<close>

datatype release = Release nat nat nat

instantiation release :: linorder
begin

fun less_eq_release :: "release \<Rightarrow> release \<Rightarrow> bool" where
  "less_eq_release (Release a b c) (Release a' b' c') \<longleftrightarrow>
     a < a' \<or> a = a' \<and> (b < b' \<or> b = b' \<and> c \<le> c')"

definition less_release :: "release \<Rightarrow> release \<Rightarrow> bool" where
  "less_release (r :: release) r' \<longleftrightarrow> r \<le> r' \<and> \<not> r' \<le> r"

instance
proof
  fix x y z :: release
  show "x < y \<longleftrightarrow> x \<le> y \<and> \<not> y \<le> x" by (rule less_release_def)
  show "x \<le> x" by (cases x) simp
  show "x \<le> y \<Longrightarrow> y \<le> z \<Longrightarrow> x \<le> z" by (cases x; cases y; cases z) auto
  show "x \<le> y \<Longrightarrow> y \<le> x \<Longrightarrow> x = y" by (cases x; cases y) auto
  show "x \<le> y \<or> y \<le> x" by (cases x; cases y) auto
qed

end

definition max_uint64 :: nat where
  "max_uint64 = 18446744073709551615"

definition parse_part :: "string \<Rightarrow> nat option" where
  "parse_part part =
     (if part = [] \<or> (length part > 1 \<and> hd part = CHR ''0'') then None
      else if list_ex (\<lambda>c. \<not> is_digit c) part then None
      else if dec_val part > max_uint64 then None
      else Some (dec_val part))"

definition parse_release :: "string \<Rightarrow> release option" where
  "parse_release v =
     (if take 1 v \<noteq> ''v'' then None
      else case split_on CHR ''.'' (tl v) of
        [p, q, r] \<Rightarrow> (case (parse_part p, parse_part q, parse_part r) of
          (Some a, Some b, Some c) \<Rightarrow> Some (Release a b c)
        | _ \<Rightarrow> None)
      | _ \<Rightarrow> None)"

definition is_formal :: "string \<Rightarrow> bool" where
  "is_formal v \<longleftrightarrow> parse_release v \<noteq> None"

fun compare_parsed :: "release \<Rightarrow> release \<Rightarrow> int" where
  "compare_parsed (Release a b c) (Release a' b' c') =
     (if a < a' then - 1 else if a > a' then 1
      else if b < b' then - 1 else if b > b' then 1
      else if c < c' then - 1 else if c > c' then 1 else 0)"

definition compare_releases :: "string \<Rightarrow> string \<Rightarrow> int option" where
  "compare_releases left right = (case (parse_release left, parse_release right) of
     (Some l, Some r) \<Rightarrow> Some (compare_parsed l r)
   | _ \<Rightarrow> None)"

lemma compare_parsed_order: "compare_parsed l r = (if l < r then - 1 else if l = r then 0 else 1)"
proof (cases l; cases r)
  fix a b c a' b' c'
  assume "l = Release a b c" "r = Release a' b' c'"
  then show ?thesis
    by (cases a a' rule: linorder_cases; cases b b' rule: linorder_cases; cases c c' rule: linorder_cases)
      (simp_all add: less_release_def)
qed

section \<open>Printing and parsing\<close>

definition release_string :: "release \<Rightarrow> string" where
  "release_string r = (case r of Release a b c \<Rightarrow> CHR ''v'' # join_with CHR ''.'' [dec a, dec b, dec c])"

definition release_fits :: "release \<Rightarrow> bool" where
  "release_fits r = (case r of Release a b c \<Rightarrow> a \<le> max_uint64 \<and> b \<le> max_uint64 \<and> c \<le> max_uint64)"

lemma parse_part_iff: "parse_part p = Some n \<longleftrightarrow> canonical p \<and> n = dec_val p \<and> n \<le> max_uint64"
  by (auto simp: parse_part_def canonical_def list_ex_iff)

lemma dot_not_digit: "\<not> is_digit CHR ''.''"
  by (simp add: is_digit_def)

lemma split_three:
  "split_on CHR ''.'' (join_with CHR ''.'' [dec a, dec b, dec c]) = [dec a, dec b, dec c]"
  using dec_digits dot_not_digit by (intro split_join) auto

lemma parse_release_string: "release_fits r \<Longrightarrow> parse_release (release_string r) = Some r"
proof (cases r)
  case (Release a b c)
  assume fits: "release_fits r"
  have "parse_part (dec n) = Some n" if "n \<le> max_uint64" for n
    using that by (simp add: parse_part_iff)
  with fits show ?thesis
    by (simp add: Release parse_release_def release_string_def release_fits_def split_three
        del: join_with.simps)
qed

lemma parse_release_SomeD:
  assumes "parse_release v = Some r"
  shows "release_string r = v" "release_fits r"
proof -
  have "take 1 v = ''v''"
    using assms by (auto simp: parse_release_def split: if_splits)
  then have v1: "v = CHR ''v'' # tl v"
    by (cases v) simp_all
  obtain p q t where v2: "split_on CHR ''.'' (tl v) = [p, q, t]"
    using assms by (auto simp: parse_release_def split: if_splits list.splits)
  obtain a b c where parts: "parse_part p = Some a" "parse_part q = Some b" "parse_part t = Some c" "r = Release a b c"
    using assms by (auto simp: parse_release_def v2 split: if_splits option.splits)
  have d: "dec a = p" "dec b = q" "dec c = t" and le: "a \<le> max_uint64" "b \<le> max_uint64" "c \<le> max_uint64"
    using parts by (auto simp: parse_part_iff dec_dec_val)
  have "join_with CHR ''.'' [p, q, t] = tl v"
    unfolding v2 [symmetric] by (rule join_split)
  then have "release_string r = CHR ''v'' # tl v"
    by (simp only: release_string_def parts(4) release.case d)
  then show "release_string r = v"
    using v1 by metis
  show "release_fits r"
    using parts(4) le by (simp add: release_fits_def)
qed

text \<open>
  Parsing is the exact inverse of printing: every release of three 64-bit numbers is
  parsed back from its canonical string, and every string accepted as formal is the canonical
  string of the release it is parsed to, so no two different strings denote one release.
\<close>

theorem release_roundtrip:
  "parse_release v = Some r \<longleftrightarrow> release_fits r \<and> v = release_string r"
  using parse_release_SomeD parse_release_string by blast

text \<open>
  C38. \<open>Compare\<close> succeeds exactly on two formal releases and is then the lexicographic
  order of the numbers: -1, 0 or 1 as the left release is smaller, the same string, or larger.
\<close>

theorem compare_is_release_order:
  "(compare_releases left right = None \<longleftrightarrow> \<not> (is_formal left \<and> is_formal right)) \<and>
   (parse_release left = Some l \<and> parse_release right = Some r \<longrightarrow>
     compare_releases left right = Some (if l < r then - 1 else if left = right then 0 else 1) \<and>
     (left = right \<longleftrightarrow> l = r))"
proof -
  have "compare_releases left right = None \<longleftrightarrow> \<not> (is_formal left \<and> is_formal right)"
    by (simp add: compare_releases_def is_formal_def split: option.split)
  moreover have "compare_releases left right = Some (if l < r then - 1 else if left = right then 0 else 1) \<and>
      (left = right \<longleftrightarrow> l = r)" if p: "parse_release left = Some l" "parse_release right = Some r"
  proof -
    have eq: "left = right \<longleftrightarrow> l = r"
    proof
      assume "left = right"
      with p show "l = r" by simp
    next
      assume "l = r"
      then show "left = right"
        using parse_release_SomeD(1) [OF p(1)] parse_release_SomeD(1) [OF p(2)] by metis
    qed
    have "compare_releases left right = Some (compare_parsed l r)"
      by (simp add: compare_releases_def p)
    then show ?thesis
      unfolding eq compare_parsed_order by simp
  qed
  ultimately show ?thesis by blast
qed

theorem compare_is_release_order_witness:
  "compare_releases ''v1.2.10'' ''v1.10.2'' = Some (- 1)"
proof -
  have s: "release_string (Release 1 2 10) = ''v1.2.10''" "release_string (Release 1 10 2) = ''v1.10.2''"
    by code_simp+
  have "release_fits (Release 1 2 10)" "release_fits (Release 1 10 2)"
    by (simp_all add: release_fits_def max_uint64_def)
  then have p: "parse_release ''v1.2.10'' = Some (Release 1 2 10)" "parse_release ''v1.10.2'' = Some (Release 1 10 2)"
    using parse_release_string s by metis+
  have "compare_releases ''v1.2.10'' ''v1.10.2'' =
      Some (if Release 1 2 10 < Release 1 10 2 then - 1 else if ''v1.2.10'' = ''v1.10.2'' then 0 else 1)"
    using compare_is_release_order [of "''v1.2.10''" "''v1.10.2''" "Release 1 2 10" "Release 1 10 2"] p by blast
  then show ?thesis by (simp add: less_release_def)
qed

end
