(* ===== verification/Operations.thy ===== *)
theory Operations
  imports Tables
begin

text \<open>
  The log of configuration operations (\<open>panel/internal/operation/operation.go\<close>): every
  change of a server's desired state leaves a row that is pending, then sent, then applied or
  failed by the Agent's receipt, or superseded by a newer change.
\<close>

definition record_operation ::
  "unix_time \<Rightarrow> id64 \<Rightarrow> string \<Rightarrow> id64 \<Rightarrow> string \<Rightarrow> int \<Rightarrow> panel_db \<Rightarrow> panel_db" where
  "record_operation now sid rtype rid action version d =
     d\<lparr>operations := sql_update (\<lambda>r. op_server_id r = sid \<and> op_version r < version \<and>
           (op_status r = ''pending'' \<or> op_status r = ''sent''))
         (\<lambda>r. r\<lparr>op_status := ''superseded'', op_error := [], op_updated_at := now\<rparr>) (operations d)
       @ [\<lparr>op_id = operations_seq d + 1, op_server_id = sid, op_resource_type = rtype, op_resource_id = rid,
           op_action = action, op_version = version, op_status = ''pending'', op_error = [],
           op_created_at = now, op_updated_at = now, op_applied_at = None\<rparr>],
       operations_seq := operations_seq d + 1\<rparr>"

definition mark_sent :: "unix_time \<Rightarrow> id64 \<Rightarrow> int \<Rightarrow> panel_db \<Rightarrow> panel_db" where
  "mark_sent now sid version d =
     d\<lparr>operations := sql_update (\<lambda>r. op_server_id r = sid \<and> op_version r \<le> version \<and> op_status r = ''pending'')
         (\<lambda>r. r\<lparr>op_status := ''sent'', op_updated_at := now\<rparr>) (operations d)\<rparr>"

definition record_receipt :: "unix_time \<Rightarrow> id64 \<Rightarrow> int \<Rightarrow> string \<Rightarrow> string \<Rightarrow> panel_db \<Rightarrow> panel_db" where
  "record_receipt now sid version status message d =
     (if status = ''success'' then
        d\<lparr>operations := sql_update (\<lambda>r. op_server_id r = sid \<and> op_version r \<le> version \<and>
              (op_status r = ''pending'' \<or> op_status r = ''sent'' \<or> op_status r = ''failed''))
            (\<lambda>r. r\<lparr>op_status := ''applied'', op_error := [], op_updated_at := now, op_applied_at := Some now\<rparr>)
            (operations d)\<rparr>
      else
        d\<lparr>operations := sql_update (\<lambda>r. op_server_id r = sid \<and> op_version r = version \<and>
              (op_status r = ''pending'' \<or> op_status r = ''sent''))
            (\<lambda>r. r\<lparr>op_status := ''failed'', op_error := message, op_updated_at := now, op_applied_at := None\<rparr>)
            (operations d)\<rparr>)"

definition operation_counts :: "panel_db \<Rightarrow> nat \<times> nat" where
  "operation_counts d =
     (sql_count (\<lambda>r. op_status r = ''pending'' \<or> op_status r = ''sent'') (operations d),
      sql_count (\<lambda>r. op_status r = ''failed'') (operations d))"

definition visible_server :: "id64 \<Rightarrow> panel_db \<Rightarrow> server_row \<Rightarrow> bool" where
  "visible_server uid d s \<longleftrightarrow> srv_archived_at s = None \<and>
     (srv_visibility s = ''public'' \<or>
      sql_exists (\<lambda>a. acc_server_id a = srv_id s \<and> acc_user_id a = uid) (server_access d))"

definition operation_counts_for_user :: "id64 \<Rightarrow> panel_db \<Rightarrow> nat \<times> nat" where
  "operation_counts_for_user uid d =
     (let seen = (\<lambda>r. sql_exists (\<lambda>s. srv_id s = op_server_id r \<and> visible_server uid d s) (servers d))
      in (sql_count (\<lambda>r. seen r \<and> (op_status r = ''pending'' \<or> op_status r = ''sent'')) (operations d),
          sql_count (\<lambda>r. seen r \<and> op_status r = ''failed'') (operations d)))"

text \<open>\<open>ORDER BY created_at DESC, id DESC LIMIT\<close>: two stable sorts.\<close>

definition list_operations :: "id64 \<Rightarrow> int \<Rightarrow> panel_db \<Rightarrow> operation_row list" where
  "list_operations sid limit d =
     (let n = (if limit \<le> 0 \<or> limit > 200 then 50 else limit)
      in take (nat n) (sort_key (\<lambda>r. - op_created_at r) (sort_key (\<lambda>r. - op_id r)
           (filter (\<lambda>r. sid = 0 \<or> op_server_id r = sid) (operations d)))))"

section \<open>The life of an operation\<close>

inductive status_step :: "string \<Rightarrow> string \<Rightarrow> bool" where
  stay: "status_step s s"
| sent: "status_step ''pending'' ''sent''"
| superseded: "s \<in> {''pending'', ''sent''} \<Longrightarrow> status_step s ''superseded''"
| applied: "s \<in> {''pending'', ''sent'', ''failed''} \<Longrightarrow> status_step s ''applied''"
| failed: "s \<in> {''pending'', ''sent''} \<Longrightarrow> status_step s ''failed''"

inductive_cases applied_stepE: "status_step ''applied'' s"
inductive_cases superseded_stepE: "status_step ''superseded'' s"

text \<open>The statements of the package that write the table.\<close>

datatype log_event = Record id64 string id64 string int | Sent id64 int | Receipt id64 int string string

fun log_step :: "unix_time \<Rightarrow> log_event \<Rightarrow> panel_db \<Rightarrow> panel_db" where
  "log_step now (Record sid rtype rid action version) d = record_operation now sid rtype rid action version d"
| "log_step now (Sent sid version) d = mark_sent now sid version d"
| "log_step now (Receipt sid version status message) d = record_receipt now sid version status message d"

fun event_server :: "log_event \<Rightarrow> id64" where
  "event_server (Record sid _ _ _ _) = sid"
| "event_server (Sent sid _) = sid"
| "event_server (Receipt sid _ _ _) = sid"

definition same_operation :: "operation_row \<Rightarrow> operation_row \<Rightarrow> bool" where
  "same_operation r r' \<longleftrightarrow> op_id r' = op_id r \<and> op_server_id r' = op_server_id r \<and>
     op_resource_type r' = op_resource_type r \<and> op_resource_id r' = op_resource_id r \<and>
     op_action r' = op_action r \<and> op_version r' = op_version r \<and> op_created_at r' = op_created_at r"

definition log_ok :: "panel_db \<Rightarrow> bool" where
  "log_ok d \<longleftrightarrow> distinct (map op_id (operations d)) \<and> (\<forall>r \<in> set (operations d). op_id r \<le> operations_seq d \<and>
     op_status r \<in> {''pending'', ''sent'', ''applied'', ''failed'', ''superseded''} \<and>
     (op_status r = ''applied'' \<longleftrightarrow> op_applied_at r \<noteq> None))"

lemma sql_update_nth: "i < length t \<Longrightarrow> sql_update P f t ! i = (if P (t ! i) then f (t ! i) else t ! i)"
  by (simp add: sql_update_def)

lemma length_sql_update [simp]: "length (sql_update P f t) = length t"
  by (simp add: sql_update_def)

lemma log_step_rows:
  assumes "i < length (operations d)"
  shows "i < length (operations (log_step now e d)) \<and>
    same_operation (operations d ! i) (operations (log_step now e d) ! i) \<and>
    status_step (op_status (operations d ! i)) (op_status (operations (log_step now e d) ! i)) \<and>
    (op_server_id (operations d ! i) \<noteq> event_server e \<longrightarrow> operations (log_step now e d) ! i = operations d ! i)"
  using assms by (cases e)
    (auto simp: record_operation_def mark_sent_def record_receipt_def nth_append sql_update_nth same_operation_def
      intro: status_step.intros)

lemma log_step_ok:
  assumes "log_ok d"
  shows "log_ok (log_step now e d)"
proof (cases e)
  case (Record sid rtype rid action version)
  have "distinct (map op_id (operations d) @ [operations_seq d + 1])"
    using assms by (fastforce simp: log_ok_def)
  then show ?thesis
    using assms unfolding Record
    by (auto simp: log_ok_def record_operation_def sql_update_def comp_def if_distrib cong: if_cong)
next
  case (Sent sid version)
  show ?thesis
    using assms unfolding Sent
    by (auto simp: log_ok_def mark_sent_def sql_update_def comp_def if_distrib cong: if_cong)
next
  case (Receipt sid version status message)
  show ?thesis
    using assms unfolding Receipt
    by (auto simp: log_ok_def record_receipt_def sql_update_def comp_def if_distrib cong: if_cong)
qed

fun log_run :: "(unix_time \<times> log_event) list \<Rightarrow> panel_db \<Rightarrow> panel_db" where
  "log_run [] d = d"
| "log_run ((now, e) # es) d = log_run es (log_step now e d)"

lemma status_step_star_final:
  "status_step\<^sup>*\<^sup>* s s' \<Longrightarrow> s \<in> {''applied'', ''superseded''} \<Longrightarrow> s' = s"
  by (induction rule: rtranclp_induct) (auto elim: applied_stepE superseded_stepE)

lemma log_run_rows:
  assumes "log_ok d" "i < length (operations d)"
  shows "log_ok (log_run es d) \<and> i < length (operations (log_run es d)) \<and>
    same_operation (operations d ! i) (operations (log_run es d) ! i) \<and>
    status_step\<^sup>*\<^sup>* (op_status (operations d ! i)) (op_status (operations (log_run es d) ! i))"
  using assms
proof (induction es d rule: log_run.induct)
  case (1 d)
  then show ?case by (simp add: same_operation_def)
next
  case (2 now e es d)
  note s = log_step_rows [OF 2(3), of now e]
  have ih: "log_ok (log_run es (log_step now e d)) \<and> i < length (operations (log_run es (log_step now e d))) \<and>
    same_operation (operations (log_step now e d) ! i) (operations (log_run es (log_step now e d)) ! i) \<and>
    status_step\<^sup>*\<^sup>* (op_status (operations (log_step now e d) ! i)) (op_status (operations (log_run es (log_step now e d)) ! i))"
    using s 2(2) by (intro 2(1) log_step_ok) simp_all
  then have "status_step\<^sup>*\<^sup>* (op_status (operations d ! i)) (op_status (operations (log_run es (log_step now e d)) ! i))"
    using s by (meson converse_rtranclp_into_rtranclp)
  with ih s show ?case
    by (auto simp: same_operation_def)
qed

text \<open>
  However the statements of the package are interleaved, a row of the log is never lost or
  rewritten: what it is about stays the same, its status only moves along pending, sent,
  applied, failed, superseded in the allowed directions, an applied or superseded row never
  changes its status again, and the log stays well-formed (unique ids, an application time
  exactly on applied rows).
\<close>

theorem operation_log_life:
  assumes "log_ok d" "i < length (operations d)"
  shows "log_ok (log_run es d) \<and> i < length (operations (log_run es d)) \<and>
    same_operation (operations d ! i) (operations (log_run es d) ! i) \<and>
    status_step\<^sup>*\<^sup>* (op_status (operations d ! i)) (op_status (operations (log_run es d) ! i)) \<and>
    (op_status (operations d ! i) \<in> {''applied'', ''superseded''} \<longrightarrow>
       op_status (operations (log_run es d) ! i) = op_status (operations d ! i))"
  using log_run_rows [OF assms, of es] status_step_star_final by blast

lemma log_ok_empty: "log_ok empty_db"
  by (simp add: log_ok_def empty_db_def)

definition logged_db :: panel_db where
  "logged_db = log_run [(10, Record 1 ''proxy'' 7 ''create'' 2), (11, Sent 1 2)] empty_db"

theorem operation_log_life_witness:
  "op_status (operations logged_db ! 0) = ''sent'' \<and>
   same_operation (operations logged_db ! 0)
     (operations (log_run [(12, Record 1 ''proxy'' 8 ''update'' 3), (13, Receipt 1 3 ''success'' [])] logged_db) ! 0)"
proof -
  have ops: "length (operations logged_db) = 1" "op_status (operations logged_db ! 0) = ''sent''"
    by code_simp+
  have "log_ok logged_db"
    unfolding logged_db_def log_run.simps by (intro log_step_ok log_ok_empty)
  then show ?thesis
    using operation_log_life [of logged_db 0
        "[(12, Record 1 ''proxy'' 8 ''update'' 3), (13, Receipt 1 3 ''success'' [])]"] ops
    by (simp only: less_numeral_extra)
qed

section \<open>One open version per server\<close>





end
