(* ===== verification/AgentMetadata.thy ===== *)
theory AgentMetadata
  imports Release "HOL-Library.List_Lexorder" "HOL-Library.Char_ord"
begin

text \<open>
  What an Agent declares about itself (\<open>panel/internal/agentcontrol/metadata.go\<close>,
  \<open>version.go\<close>, the capability header of \<open>diagnostics.go\<close>): normalisation of the
  metadata, the capability list, and the decisions taken from them.
\<close>

datatype agent_error = ErrInvalidEnrollment | ErrInvalidAgentVersion | ErrInvalidAgentMetadata
  | ErrUnsupportedAgentAPI | ErrAgentImplementationMismatch | ErrAgentToken | ErrArchived
  | ErrInvalidConfigResult | ErrConfigVersionAhead | ErrAgentOffline | ErrAgentNotRegistered
  | ErrDiagnosticsUnsupported | ErrDiagnosticsInProgress | ErrInvalidUpgrade | ErrAgentNewer
  | ErrAgentAlreadyCurrent | ErrUnknownAgentVersion | ErrAgentUpgradeUnsupported | ErrAgentServerNotFound

record metadata =
  md_implementation :: string
  md_version :: string
  md_api_version :: int
  md_capabilities :: "string list"

definition current_api_version :: int where
  "current_api_version = 1"

definition official_implementation :: string where
  "official_implementation = ''vps-panel-agent''"

definition identifier_char :: "char \<Rightarrow> bool" where
  "identifier_char c \<longleftrightarrow> (CHR ''a'' \<le> c \<and> c \<le> CHR ''z'') \<or> (CHR ''0'' \<le> c \<and> c \<le> CHR ''9'') \<or>
     c = CHR ''.'' \<or> c = CHR ''_'' \<or> c = CHR ''-''"

definition valid_metadata_identifier :: "string \<Rightarrow> bool" where
  "valid_metadata_identifier s \<longleftrightarrow> list_all identifier_char s \<and> s \<noteq> []"

text \<open>The loop over the declared capabilities: trimmed, or \<open>None\<close> at the first invalid one.\<close>

fun trimmed_capabilities :: "string list \<Rightarrow> string list option" where
  "trimmed_capabilities [] = Some []"
| "trimmed_capabilities (v # vs) =
     (let c = trim_space v in
      if c = [] \<or> length c > 64 \<or> \<not> valid_metadata_identifier c then None
      else map_option (\<lambda>cs. c # cs) (trimmed_capabilities vs))"

definition normalize_capabilities :: "string list \<Rightarrow> agent_error + string list" where
  "normalize_capabilities values =
     (if length values > 64 then Inl ErrInvalidAgentMetadata
      else case trimmed_capabilities values of
        None \<Rightarrow> Inl ErrInvalidAgentMetadata
      | Some cs \<Rightarrow> Inr (sort (remdups cs)))"

definition normalize_metadata :: "metadata \<Rightarrow> agent_error + metadata" where
  "normalize_metadata v =
     (let impl = trim_space (md_implementation v); ver = trim_space (md_version v); api = md_api_version v
      in if rune_count ver > 64 then Inl ErrInvalidAgentVersion
         else if api \<noteq> 0 \<and> api \<noteq> current_api_version then Inl ErrUnsupportedAgentAPI
         else if api = current_api_version \<and> ver = [] then Inl ErrInvalidAgentVersion
         else if api = 0 \<and> impl \<noteq> [] then Inl ErrInvalidAgentMetadata
         else if api = current_api_version \<and> impl = [] then Inl ErrInvalidAgentMetadata
         else if impl \<noteq> [] \<and> (length impl > 128 \<or> \<not> valid_metadata_identifier impl) then Inl ErrInvalidAgentMetadata
         else case normalize_capabilities (md_capabilities v) of
           Inl e \<Rightarrow> Inl e
         | Inr cs \<Rightarrow> Inr \<lparr>md_implementation = impl, md_version = ver, md_api_version = api, md_capabilities = cs\<rparr>)"

text \<open>\<open>splitCapabilities\<close>: comma-separated, blanks around an entry removed, empty entries dropped.\<close>

definition is_blank :: "char \<Rightarrow> bool" where
  "is_blank c \<longleftrightarrow> c = CHR '' '' \<or> c = CHR 0x09"

definition trim_blank :: "string \<Rightarrow> string" where
  "trim_blank s = rev (dropWhile is_blank (rev (dropWhile is_blank s)))"

definition split_capabilities :: "string \<Rightarrow> string list" where
  "split_capabilities s = filter (\<lambda>c. c \<noteq> []) (map trim_blank (split_on CHR '','' s))"

definition parse_capability_header :: "string \<Rightarrow> agent_error + string list" where
  "parse_capability_header s = normalize_capabilities (split_capabilities s)"

definition declares_capability :: "metadata \<Rightarrow> string \<Rightarrow> bool" where
  "declares_capability m cap \<longleftrightarrow>
     (if md_implementation m = [] \<or> md_api_version m \<noteq> current_api_version then False
      else List.member (md_capabilities m) cap)"

definition supports_capability :: "metadata \<Rightarrow> string \<Rightarrow> bool" where
  "supports_capability m cap \<longleftrightarrow>
     (if md_implementation m = [] \<and> md_api_version m = 0 then True else declares_capability m cap)"

definition validate_implementation_match :: "string \<Rightarrow> string \<Rightarrow> agent_error option" where
  "validate_implementation_match stored connected =
     (if stored \<noteq> [] \<and> stored \<noteq> connected then Some ErrAgentImplementationMismatch else None)"

definition can_self_upgrade_flag :: "string \<Rightarrow> int \<Rightarrow> bool \<Rightarrow> bool" where
  "can_self_upgrade_flag impl api has =
     (if impl = [] \<and> api = 0 then True
      else if impl \<noteq> official_implementation \<or> api \<noteq> current_api_version then False
      else has)"

definition can_self_upgrade :: "string \<Rightarrow> int \<Rightarrow> string list \<Rightarrow> bool" where
  "can_self_upgrade impl api caps = can_self_upgrade_flag impl api (List.member caps ''self_upgrade'')"

definition agent_version_status :: "string \<Rightarrow> string \<Rightarrow> string" where
  "agent_version_status agent panel =
     (if agent = [] then ''unregistered''
      else case compare_releases agent panel of
        None \<Rightarrow> ''unknown''
      | Some c \<Rightarrow> if c = - 1 then ''upgrade_available'' else if c = 0 then ''up_to_date'' else ''agent_newer'')"

definition agent_version_status_for_metadata :: "metadata \<Rightarrow> string \<Rightarrow> string" where
  "agent_version_status_for_metadata m panel =
     (if md_api_version m = current_api_version \<and> md_implementation m \<noteq> official_implementation
      then ''not_applicable''
      else agent_version_status (md_version m) panel)"

section \<open>Normal forms\<close>

lemma identifier_not_space:
  "identifier_char c \<Longrightarrow> c \<noteq> CHR '' '' \<and> c \<noteq> CHR 0x09 \<and> c \<noteq> CHR '',''"
  by (auto simp: identifier_char_def less_eq_char_def)

lemma identifier_plain: "identifier_char c \<Longrightarrow> plain_char c"
  by (auto simp: identifier_char_def plain_char_def less_eq_char_def)

lemma trim_space_identifier: "valid_metadata_identifier s \<Longrightarrow> trim_space s = s"
  by (intro trim_space_plain) (auto simp: valid_metadata_identifier_def list_all_iff identifier_plain)

lemma trim_blank_identifier: "valid_metadata_identifier s \<Longrightarrow> trim_blank s = s"
proof -
  assume v: "valid_metadata_identifier s"
  have no: "\<not> is_blank c" if "c \<in> set s" for c
    using v that identifier_not_space by (auto simp: valid_metadata_identifier_def list_all_iff is_blank_def)
  then have "dropWhile is_blank s = s" "dropWhile is_blank (rev s) = rev s"
    by (auto simp: dropWhile_eq_self_iff hd_rev)
  then show ?thesis by (simp add: trim_blank_def)
qed

definition normalized_capabilities :: "string list \<Rightarrow> bool" where
  "normalized_capabilities cs \<longleftrightarrow> sorted cs \<and> distinct cs \<and> length cs \<le> 64 \<and>
     (\<forall>c \<in> set cs. valid_metadata_identifier c \<and> length c \<le> 64)"

lemma trimmed_capabilities_valid:
  "trimmed_capabilities vs = Some cs \<Longrightarrow> length cs = length vs \<and> (\<forall>c \<in> set cs. valid_metadata_identifier c \<and> length c \<le> 64)"
  by (induction vs arbitrary: cs) (auto simp: Let_def split: if_splits)

lemma trimmed_capabilities_id:
  "\<forall>c \<in> set cs. valid_metadata_identifier c \<and> length c \<le> 64 \<Longrightarrow> trimmed_capabilities cs = Some cs"
  by (induction cs) (auto simp: Let_def trim_space_identifier valid_metadata_identifier_def)

lemma normalize_normalized: "normalized_capabilities cs \<Longrightarrow> normalize_capabilities cs = Inr cs"
  by (simp add: normalize_capabilities_def normalized_capabilities_def trimmed_capabilities_id
      distinct_remdups_id sorted_sort_id)

lemma normalize_capabilities_result:
  assumes "normalize_capabilities vs = Inr cs"
  shows "normalized_capabilities cs"
proof -
  obtain ts where ts: "length vs \<le> 64" "trimmed_capabilities vs = Some ts" "cs = sort (remdups ts)"
    using assms by (auto simp: normalize_capabilities_def split: if_splits option.splits)
  note v = trimmed_capabilities_valid [OF ts(2)]
  have "length cs \<le> length ts"
    using ts(3) length_remdups_leq [of ts] by simp
  then show ?thesis
    using v ts by (simp add: normalized_capabilities_def)
qed

lemma split_capabilities_join:
  assumes "\<forall>c \<in> set cs. valid_metadata_identifier c"
  shows "split_capabilities (join_with CHR '','' cs) = cs"
proof (cases "cs = []")
  case True
  then show ?thesis by (simp add: split_capabilities_def trim_blank_def)
next
  case False
  have "\<forall>c \<in> set cs. CHR '','' \<notin> set c"
    using assms identifier_not_space by (auto simp: valid_metadata_identifier_def list_all_iff)
  then have "split_on CHR '','' (join_with CHR '','' cs) = cs"
    by (rule split_join [OF False])
  moreover have "map trim_blank cs = cs"
    using assms by (simp add: map_idI trim_blank_identifier)
  moreover have "filter (\<lambda>c. c \<noteq> []) cs = cs"
    using assms by (auto simp: filter_id_conv valid_metadata_identifier_def)
  ultimately show ?thesis
    by (simp add: split_capabilities_def)
qed

text \<open>
  Normalised capabilities are sorted, without duplicates, at most 64 valid identifiers of
  at most 64 bytes; normalising them again, as the database encoding does, changes nothing, and
  writing them into the connection header and parsing it gives them back.
\<close>

theorem capabilities_roundtrip:
  assumes "normalize_capabilities vs = Inr cs"
  shows "normalized_capabilities cs \<and> normalize_capabilities cs = Inr cs \<and>
    parse_capability_header (join_with CHR '','' cs) = Inr cs"
proof -
  have n: "normalized_capabilities cs"
    by (rule normalize_capabilities_result [OF assms])
  then have "split_capabilities (join_with CHR '','' cs) = cs"
    by (intro split_capabilities_join) (simp add: normalized_capabilities_def)
  with n show ?thesis
    by (simp add: parse_capability_header_def normalize_normalized)
qed

lemma normalize_two: "normalize_capabilities ['' metrics'', ''client_traffic'', ''metrics''] = Inr [''client_traffic'', ''metrics'']"
  by code_simp

theorem capabilities_roundtrip_witness:
  "parse_capability_header ''client_traffic,metrics'' = Inr [''client_traffic'', ''metrics'']"
  using capabilities_roundtrip [OF normalize_two] by simp

end
