(* ===== verification/AgentControl.thy ===== *)
theory AgentControl
  imports AgentMetadata Operations DesiredState
begin

text \<open>
  The Panel's side of an Agent (\<open>panel/internal/agentcontrol\<close>): enrolment tokens,
  registration, authentication, connection status, configuration results and upgrades.

  A token is created by \<open>crypto/rand\<close> and stored as its SHA-256 hash: the fresh tokens
  are arguments of the operations that create them, and the hash is the argument \<open>h\<close>. The
  capability column, JSON in the database, is the list of strings it denotes.
\<close>

section \<open>Enrolment (\<open>enrollment.go\<close>)\<close>

definition enrollment_lifetime :: int where
  "enrollment_lifetime = 86400"

definition insert_enrollment :: "unix_time \<Rightarrow> string \<Rightarrow> id64 \<Rightarrow> string \<Rightarrow> panel_db \<Rightarrow> panel_db" where
  "insert_enrollment now hash sid purpose d = d\<lparr>
     enrollments := enrollments d @ [\<lparr>enr_id = enrollments_seq d + 1, enr_server_id = sid, enr_token_hash = hash,
       enr_purpose = purpose, enr_expires_at = now + enrollment_lifetime, enr_used_at = None, enr_created_at = now\<rparr>],
     enrollments_seq := enrollments_seq d + 1\<rparr>"

definition rotate_enrollment ::
  "(string \<Rightarrow> string) \<Rightarrow> unix_time \<Rightarrow> string \<Rightarrow> id64 \<Rightarrow> panel_db \<Rightarrow> panel_db" where
  "rotate_enrollment h now fresh sid d = insert_enrollment now (h fresh) sid ''rebind'' (d\<lparr>
     enrollments := sql_delete (\<lambda>e. enr_server_id e = sid \<and> enr_used_at e = None) (enrollments d),
     agents := sql_delete (\<lambda>a. agt_server_id a = sid) (agents d),
     servers := sql_update (\<lambda>s. srv_id s = sid) (\<lambda>s. s\<lparr>srv_status := ''pending'', srv_updated_at := now\<rparr>) (servers d)\<rparr>)"

text \<open>\<open>Service.CreateEnrollment\<close> (\<open>server/enrollment.go\<close>).\<close>

datatype enroll_error = ErrNoServer | ErrDecommissioning

definition create_enrollment ::
  "(string \<Rightarrow> string) \<Rightarrow> unix_time \<Rightarrow> string \<Rightarrow> id64 \<Rightarrow> panel_db \<Rightarrow> enroll_error + panel_db" where
  "create_enrollment h now fresh sid d = (case sql_first (\<lambda>s. srv_id s = sid) (servers d) of
     None \<Rightarrow> Inl ErrNoServer
   | Some s \<Rightarrow> if srv_decom_status s \<noteq> [] then Inl ErrDecommissioning else Inr (rotate_enrollment h now fresh sid d))"

section \<open>Registration (\<open>registration.go\<close>)\<close>

definition usable_enrollment :: "unix_time \<Rightarrow> enrollment_row \<Rightarrow> bool" where
  "usable_enrollment now e \<longleftrightarrow> enr_used_at e = None \<and> enr_expires_at e > now"

definition new_agent :: "id64 \<Rightarrow> id64 \<Rightarrow> string \<Rightarrow> metadata \<Rightarrow> string list \<Rightarrow> unix_time \<Rightarrow> agent_row" where
  "new_agent aid sid hash m caps now = \<lparr>agt_id = aid, agt_server_id = sid, agt_token_hash = hash,
     agt_implementation = md_implementation m, agt_version = md_version m, agt_api_version = md_api_version m,
     agt_capabilities = caps, agt_registered_at = now, agt_last_seen_at = None, agt_applied_version = 0,
     agt_sync_status = ''pending'', agt_sync_error = [], agt_synced_at = None, agt_upgrade_target = [],
     agt_upgrade_status = [], agt_upgrade_error = [], agt_updated_at = now\<rparr>"

record registered_agent =
  reg_id :: id64
  reg_server_id :: id64
  reg_token :: string

definition register_agent :: "(string \<Rightarrow> string) \<Rightarrow> unix_time \<Rightarrow> string \<Rightarrow> string \<Rightarrow> metadata \<Rightarrow> panel_db \<Rightarrow>
    agent_error + (registered_agent \<times> panel_db)" where
  "register_agent h now fresh enrollment_token m0 d =
     (if enrollment_token = [] then Inl ErrInvalidEnrollment
      else case normalize_metadata m0 of
        Inl e \<Rightarrow> Inl e
      | Inr m \<Rightarrow>
        if md_version m = [] then Inl ErrInvalidAgentVersion
        else case normalize_capabilities (md_capabilities m) of
          Inl e \<Rightarrow> Inl e
        | Inr caps \<Rightarrow>
          (case sql_first (\<lambda>e. enr_token_hash e = h enrollment_token \<and> usable_enrollment now e) (enrollments d) of
             None \<Rightarrow> Inl ErrInvalidEnrollment
           | Some enr \<Rightarrow>
             let sid = enr_server_id enr; aid = agents_seq d + 1;
                 found = (\<lambda>e. enr_id e = enr_id enr \<and> usable_enrollment now e)
             in if sql_count found (enrollments d) \<noteq> 1 then Inl ErrInvalidEnrollment
                else if sql_count (\<lambda>s. srv_id s = sid) (servers d) \<noteq> 1 then Inl ErrInvalidEnrollment
                else Inr (\<lparr>reg_id = aid, reg_server_id = sid, reg_token = fresh\<rparr>, d\<lparr>
                  agents := sql_delete (\<lambda>a. agt_server_id a = sid) (agents d) @ [new_agent aid sid (h fresh) m caps now],
                  agents_seq := aid,
                  enrollments := sql_update found (\<lambda>e. e\<lparr>enr_used_at := Some now\<rparr>) (enrollments d),
                  servers := sql_update (\<lambda>s. srv_id s = sid)
                    (\<lambda>s. s\<lparr>srv_status := ''offline'', srv_archived_at := None, srv_updated_at := now\<rparr>) (servers d)\<rparr>)))"

text \<open>The authenticated Agent: its id, its server, the implementation it declared.\<close>

record agent_identity =
  ag_id :: id64
  ag_server_id :: id64
  ag_implementation :: string

definition authenticate_agent :: "(string \<Rightarrow> string) \<Rightarrow> string \<Rightarrow> panel_db \<Rightarrow> agent_error + agent_identity" where
  "authenticate_agent h tok d =
     (if tok = [] then Inl ErrAgentToken
      else case sql_first (\<lambda>a. agt_token_hash a = h tok \<and> sql_exists (live_server (agt_server_id a)) (servers d)) (agents d) of
        None \<Rightarrow> Inl ErrAgentToken
      | Some a \<Rightarrow> Inr \<lparr>ag_id = agt_id a, ag_server_id = agt_server_id a, ag_implementation = agt_implementation a\<rparr>)"

section \<open>Connection status (\<open>status.go\<close>)\<close>

abbreviation agent_at :: "id64 \<Rightarrow> id64 \<Rightarrow> agent_row \<Rightarrow> bool" where
  "agent_at aid sid a \<equiv> agt_id a = aid \<and> agt_server_id a = sid"

text \<open>The upgrade columns when the connecting Agent runs the requested version.\<close>

definition clear_upgrade :: "string \<Rightarrow> agent_row \<Rightarrow> agent_row" where
  "clear_upgrade ver a =
     (if ver \<noteq> [] \<and> agt_upgrade_target a = ver
      then a\<lparr>agt_upgrade_target := [], agt_upgrade_status := [], agt_upgrade_error := []\<rparr> else a)"

definition connected_row :: "unix_time \<Rightarrow> string \<Rightarrow> agent_row \<Rightarrow> agent_row" where
  "connected_row now ver a = clear_upgrade ver (a\<lparr>agt_last_seen_at := Some now,
     agt_version := (if ver = [] then agt_version a else ver), agt_updated_at := now\<rparr>)"

definition declared_row :: "unix_time \<Rightarrow> metadata \<Rightarrow> string list \<Rightarrow> agent_row \<Rightarrow> agent_row" where
  "declared_row now m caps a = connected_row now (md_version m) (a\<lparr>
     agt_implementation := (if agt_implementation a = [] then md_implementation m else agt_implementation a),
     agt_api_version := md_api_version m, agt_capabilities := caps\<rparr>)"

definition set_online :: "unix_time \<Rightarrow> id64 \<Rightarrow> panel_db \<Rightarrow> agent_error + panel_db" where
  "set_online now sid d =
     (if sql_count (live_server sid) (servers d) \<noteq> 1 then Inl ErrArchived
      else Inr (d\<lparr>servers := sql_update (live_server sid)
        (\<lambda>s. s\<lparr>srv_status := ''online'', srv_updated_at := now\<rparr>) (servers d)\<rparr>))"

definition set_agent_connected ::
  "unix_time \<Rightarrow> id64 \<Rightarrow> id64 \<Rightarrow> metadata \<Rightarrow> bool \<Rightarrow> panel_db \<Rightarrow> agent_error + panel_db" where
  "set_agent_connected now aid sid m persist d =
     (if persist then
        (case normalize_capabilities (md_capabilities m) of
           Inl e \<Rightarrow> Inl e
         | Inr caps \<Rightarrow>
           let matching = (\<lambda>a. agent_at aid sid a \<and> (agt_implementation a = [] \<or> agt_implementation a = md_implementation m))
           in if sql_count matching (agents d) \<noteq> 1 then
                (case sql_first (agent_at aid sid) (agents d) of
                   Some a \<Rightarrow> if agt_implementation a \<noteq> md_implementation m
                     then Inl ErrAgentImplementationMismatch else Inl ErrAgentToken
                 | None \<Rightarrow> Inl ErrAgentToken)
              else set_online now sid (d\<lparr>agents := sql_update matching (declared_row now m caps) (agents d)\<rparr>))
      else if sql_count (agent_at aid sid) (agents d) \<noteq> 1 then Inl ErrAgentToken
      else set_online now sid (d\<lparr>agents := sql_update (agent_at aid sid) (connected_row now (md_version m)) (agents d)\<rparr>))"

definition set_agent_connected_version ::
  "unix_time \<Rightarrow> id64 \<Rightarrow> id64 \<Rightarrow> string \<Rightarrow> panel_db \<Rightarrow> agent_error + panel_db" where
  "set_agent_connected_version now aid sid ver0 d =
     (let ver = trim_space ver0
      in if rune_count ver > 64 then Inl ErrInvalidAgentVersion
         else set_agent_connected now aid sid
           \<lparr>md_implementation = [], md_version = ver, md_api_version = 0, md_capabilities = []\<rparr> False d)"

definition set_agent_connected_metadata ::
  "unix_time \<Rightarrow> id64 \<Rightarrow> id64 \<Rightarrow> metadata \<Rightarrow> panel_db \<Rightarrow> agent_error + panel_db" where
  "set_agent_connected_metadata now aid sid m0 d =
     (case normalize_metadata m0 of Inl e \<Rightarrow> Inl e | Inr m \<Rightarrow> set_agent_connected now aid sid m True d)"

definition touch_agent :: "unix_time \<Rightarrow> id64 \<Rightarrow> id64 \<Rightarrow> panel_db \<Rightarrow> agent_error + panel_db" where
  "touch_agent now aid sid d =
     (if sql_count (agent_at aid sid) (agents d) \<noteq> 1 then Inl ErrAgentToken
      else Inr (d\<lparr>agents := sql_update (agent_at aid sid)
        (\<lambda>a. a\<lparr>agt_last_seen_at := Some now, agt_updated_at := now\<rparr>) (agents d)\<rparr>))"

definition set_agent_offline :: "unix_time \<Rightarrow> id64 \<Rightarrow> panel_db \<Rightarrow> agent_error + panel_db" where
  "set_agent_offline now sid d =
     (let online = (\<lambda>s. live_server sid s \<and> srv_status s = ''online'')
      in if sql_count online (servers d) = 1
         then Inr (d\<lparr>servers := sql_update online (\<lambda>s. s\<lparr>srv_status := ''offline'', srv_updated_at := now\<rparr>) (servers d)\<rparr>)
         else if sql_exists (\<lambda>s. srv_id s = sid) (servers d) then Inr d
         else Inl ErrAgentServerNotFound)"

definition reset_online :: "unix_time \<Rightarrow> panel_db \<Rightarrow> panel_db" where
  "reset_online now d = d\<lparr>servers := sql_update (\<lambda>s. srv_status s = ''online'' \<and> srv_archived_at s = None)
     (\<lambda>s. s\<lparr>srv_status := ''offline'', srv_updated_at := now\<rparr>) (servers d)\<rparr>"

definition set_status :: "unix_time \<Rightarrow> id64 \<Rightarrow> string \<Rightarrow> panel_db \<Rightarrow> agent_error + panel_db" where
  "set_status now sid status d =
     (if sql_count (live_server sid) (servers d) \<noteq> 1 then
        (case sql_first (\<lambda>s. srv_id s = sid) (servers d) of
           None \<Rightarrow> Inl ErrAgentServerNotFound
         | Some s \<Rightarrow> if srv_archived_at s \<noteq> None then Inl ErrArchived else Inl ErrAgentServerNotFound)
      else Inr (d\<lparr>servers := sql_update (live_server sid)
        (\<lambda>s. s\<lparr>srv_status := status, srv_updated_at := now\<rparr>) (servers d)\<rparr>))"

section \<open>Configuration results (\<open>result.go\<close>)\<close>

record config_result =
  cr_version :: int
  cr_status :: string
  cr_message :: string

text \<open>The join of the Agent with its server that is not archived.\<close>

definition agent_on_server :: "id64 \<Rightarrow> id64 \<Rightarrow> panel_db \<Rightarrow> (server_row \<times> agent_row) option" where
  "agent_on_server aid sid d =
     (case sql_first (agent_at aid sid) (agents d) of
        None \<Rightarrow> None
      | Some a \<Rightarrow> (case sql_first (live_server sid) (servers d) of None \<Rightarrow> None | Some s \<Rightarrow> Some (s, a)))"

definition record_config_result ::
  "unix_time \<Rightarrow> id64 \<Rightarrow> id64 \<Rightarrow> config_result \<Rightarrow> panel_db \<Rightarrow> agent_error + panel_db" where
  "record_config_result now aid sid r d =
     (if cr_version r \<le> 0 \<or> (cr_status r \<noteq> ''success'' \<and> cr_status r \<noteq> ''failed'') \<or> length (cr_message r) > 4096
      then Inl ErrInvalidConfigResult
      else case agent_on_server aid sid d of
        None \<Rightarrow> Inl ErrAgentToken
      | Some (s, a) \<Rightarrow>
        if cr_version r > srv_version s then Inl ErrConfigVersionAhead
        else if cr_version r < agt_applied_version a then Inr d
        else
          let f = (if cr_status r = ''success''
                   then (\<lambda>x. x\<lparr>agt_applied_version := max (agt_applied_version a) (cr_version r),
                     agt_sync_status := ''success'', agt_sync_error := [], agt_synced_at := Some now, agt_updated_at := now\<rparr>)
                   else (\<lambda>x. x\<lparr>agt_sync_status := ''failed'', agt_sync_error := cr_message r,
                     agt_synced_at := Some now, agt_updated_at := now\<rparr>))
          in Inr (record_receipt now sid (cr_version r) (cr_status r) (cr_message r)
               (d\<lparr>agents := sql_update (agent_at aid sid) f (agents d)\<rparr>)))"

definition record_desired_state_failure ::
  "unix_time \<Rightarrow> id64 \<Rightarrow> id64 \<Rightarrow> string \<Rightarrow> panel_db \<Rightarrow> agent_error + panel_db" where
  "record_desired_state_failure now aid sid message d =
     (if message = [] \<or> length message > 4096 then Inl ErrInvalidConfigResult
      else case agent_on_server aid sid d of
        None \<Rightarrow> Inl ErrAgentToken
      | Some (s, a) \<Rightarrow> Inr (record_receipt now sid (srv_version s) ''failed'' message
          (d\<lparr>agents := sql_update (agent_at aid sid)
            (\<lambda>x. x\<lparr>agt_sync_status := ''failed'', agt_sync_error := message, agt_synced_at := Some now, agt_updated_at := now\<rparr>)
            (agents d)\<rparr>)))"

section \<open>Upgrades (\<open>upgrade.go\<close>)\<close>

text \<open>\<open>Inr (True, d)\<close> is \<open>AlreadyCurrent\<close>.\<close>

definition prepare_agent_upgrade ::
  "unix_time \<Rightarrow> id64 \<Rightarrow> string \<Rightarrow> panel_db \<Rightarrow> agent_error + (bool \<times> panel_db)" where
  "prepare_agent_upgrade now sid target0 d =
     (let target = trim_space target0
      in if \<not> is_formal target then Inl ErrInvalidUpgrade
         else case sql_first (\<lambda>s. srv_id s = sid) (servers d) of
           None \<Rightarrow> Inl ErrAgentServerNotFound
         | Some s \<Rightarrow>
           if srv_archived_at s \<noteq> None \<or> srv_status s \<noteq> ''online'' then Inl ErrAgentOffline
           else case sql_first (\<lambda>a. agt_server_id a = sid) (agents d) of
             None \<Rightarrow> Inl ErrAgentNotRegistered
           | Some a \<Rightarrow>
             (case normalize_capabilities (agt_capabilities a) of
                Inl e \<Rightarrow> Inl e
              | Inr caps \<Rightarrow>
                if \<not> can_self_upgrade (agt_implementation a) (agt_api_version a) caps then Inl ErrAgentUpgradeUnsupported
                else case compare_releases (agt_version a) target of
                  None \<Rightarrow> Inl ErrUnknownAgentVersion
                | Some c \<Rightarrow>
                  if c = 0 then Inr (True, d)
                  else if c > 0 then Inl ErrAgentNewer
                  else Inr (False, d\<lparr>agents := sql_update (agent_at (agt_id a) sid)
                    (\<lambda>x. x\<lparr>agt_upgrade_target := target, agt_upgrade_status := ''upgrading'',
                       agt_upgrade_error := [], agt_updated_at := now\<rparr>) (agents d)\<rparr>)))"

definition upgrade_failed_row :: "unix_time \<Rightarrow> string \<Rightarrow> agent_row \<Rightarrow> agent_row" where
  "upgrade_failed_row now message a =
     a\<lparr>agt_upgrade_status := ''failed'', agt_upgrade_error := message, agt_updated_at := now\<rparr>"

definition record_agent_upgrade_failure ::
  "unix_time \<Rightarrow> id64 \<Rightarrow> id64 \<Rightarrow> string \<Rightarrow> string \<Rightarrow> panel_db \<Rightarrow> agent_error + panel_db" where
  "record_agent_upgrade_failure now aid sid target0 message0 d =
     (let target = trim_space target0; message = trim_space message0;
          upgrading = (\<lambda>a. agent_at aid sid a \<and> agt_upgrade_target a = target \<and> agt_upgrade_status a = ''upgrading'')
      in if target = [] \<or> rune_count target > 64 \<or> message = [] then Inl ErrInvalidUpgrade
         else if sql_count upgrading (agents d) \<noteq> 1 then Inl ErrInvalidUpgrade
         else Inr (d\<lparr>agents := sql_update upgrading (upgrade_failed_row now (take 4096 message)) (agents d)\<rparr>))"

definition mark_agent_upgrade_failed ::
  "unix_time \<Rightarrow> id64 \<Rightarrow> string \<Rightarrow> string \<Rightarrow> panel_db \<Rightarrow> agent_error + panel_db" where
  "mark_agent_upgrade_failed now sid target message0 d =
     (let message = trim_space message0;
          upgrading = (\<lambda>a. agt_server_id a = sid \<and> agt_upgrade_target a = target \<and> agt_upgrade_status a = ''upgrading'')
      in if message = [] then Inl ErrInvalidUpgrade
         else if sql_count upgrading (agents d) \<noteq> 1 then Inl ErrInvalidUpgrade
         else Inr (d\<lparr>agents := sql_update upgrading (upgrade_failed_row now message) (agents d)\<rparr>))"

section \<open>What every operation keeps\<close>

definition coherent_upgrade :: "agent_row \<Rightarrow> bool" where
  "coherent_upgrade a \<longleftrightarrow> (agt_upgrade_target a = [] \<longleftrightarrow> agt_upgrade_status a = [])"

definition control_ok :: "panel_db \<Rightarrow> bool" where
  "control_ok d \<longleftrightarrow> distinct (map srv_id (servers d)) \<and> distinct (map agt_id (agents d)) \<and>
     distinct (map agt_server_id (agents d)) \<and>
     (\<forall>s \<in> set (servers d). 0 \<le> srv_version s) \<and>
     (\<forall>a \<in> set (agents d). agt_id a \<le> agents_seq d \<and> coherent_upgrade a \<and>
       (\<forall>s \<in> set (servers d). srv_id s = agt_server_id a \<longrightarrow> agt_applied_version a \<le> srv_version s))"

text \<open>A later row of the same Agent, and a later state of the table.\<close>

definition evolves :: "agent_row \<Rightarrow> agent_row \<Rightarrow> bool" where
  "evolves a a' \<longleftrightarrow> agt_id a' = agt_id a \<and> agt_server_id a' = agt_server_id a \<and>
     agt_token_hash a' = agt_token_hash a \<and> agt_registered_at a' = agt_registered_at a \<and>
     agt_applied_version a \<le> agt_applied_version a' \<and>
     (agt_implementation a \<noteq> [] \<longrightarrow> agt_implementation a' = agt_implementation a)"

definition agents_evolve :: "panel_db \<Rightarrow> panel_db \<Rightarrow> bool" where
  "agents_evolve d d' \<longleftrightarrow> agents_seq d \<le> agents_seq d' \<and>
     (\<forall>a' \<in> set (agents d'). agents_seq d < agt_id a' \<or> (\<exists>a \<in> set (agents d). evolves a a'))"

lemma evolves_refl [simp]: "evolves a a"
  by (simp add: evolves_def)

lemma evolves_trans: "evolves a b \<Longrightarrow> evolves b c \<Longrightarrow> evolves a c"
  by (auto simp: evolves_def)

lemma agents_evolve_refl [simp]: "agents_evolve d d"
  by (auto simp: agents_evolve_def intro: evolves_refl)

lemma agents_evolve_trans:
  assumes "agents_evolve d d'" "agents_evolve d' d''"
  shows "agents_evolve d d''"
proof -
  have "agents_seq d < agt_id c \<or> (\<exists>a \<in> set (agents d). evolves a c)" if c: "c \<in> set (agents d'')" for c
  proof (cases "agents_seq d' < agt_id c")
    case False
    then obtain b where b: "b \<in> set (agents d')" "evolves b c"
      using assms(2) c unfolding agents_evolve_def by blast
    then have "agt_id c = agt_id b"
      by (simp add: evolves_def)
    then show ?thesis
      using assms(1) b evolves_trans unfolding agents_evolve_def by metis
  qed (use assms(1) in \<open>simp add: agents_evolve_def\<close>)
  then show ?thesis
    using assms unfolding agents_evolve_def by (meson order_trans)
qed

lemma control_update:
  assumes ok: "control_ok d"
    and ag: "agents d' = sql_update P f (agents d)"
    and sv: "servers d' = sql_update Q g (servers d)"
    and sq: "agents_seq d' = agents_seq d"
    and A: "\<And>a. a \<in> set (agents d) \<Longrightarrow> P a \<Longrightarrow> evolves a (f a) \<and> coherent_upgrade (f a) \<and>
      (\<forall>s \<in> set (servers d). srv_id s = agt_server_id a \<longrightarrow> agt_applied_version (f a) \<le> srv_version s)"
    and S: "\<And>s. Q s \<Longrightarrow> srv_id (g s) = srv_id s \<and> srv_version s \<le> srv_version (g s)"
  shows "control_ok d' \<and> agents_evolve d d'"
proof -
  have F: "evolves a (if P a then f a else a) \<and> coherent_upgrade (if P a then f a else a) \<and>
      (\<forall>s \<in> set (servers d). srv_id s = agt_server_id a \<longrightarrow>
        agt_applied_version (if P a then f a else a) \<le> srv_version s)"
    if "a \<in> set (agents d)" for a
    using A [OF that] ok that by (auto simp: control_ok_def)
  have G: "srv_id (if Q s then g s else s) = srv_id s \<and> srv_version s \<le> srv_version (if Q s then g s else s)" for s
    using S by simp
  have keys: "map srv_id (servers d') = map srv_id (servers d)" "map agt_id (agents d') = map agt_id (agents d)"
    "map agt_server_id (agents d') = map agt_server_id (agents d)"
    using F G by (simp_all add: ag sv sql_update_def evolves_def)
  have v: "0 \<le> srv_version s" if "s \<in> set (servers d)" for s
    using ok that by (simp add: control_ok_def)
  have ver: "\<forall>s \<in> set (servers d'). 0 \<le> srv_version s"
    unfolding sv by (rule sql_update_all) (use v S order_trans in blast)+
  have rows: "agt_id a' \<le> agents_seq d' \<and> coherent_upgrade a' \<and>
      (\<forall>s \<in> set (servers d'). srv_id s = agt_server_id a' \<longrightarrow> agt_applied_version a' \<le> srv_version s)"
    if a': "a' \<in> set (agents d')" for a'
  proof -
    obtain a where a: "a \<in> set (agents d)" "a' = (if P a then f a else a)"
      using a' by (auto simp: ag sql_update_def)
    have le: "agt_applied_version a' \<le> srv_version s'" if s': "s' \<in> set (servers d')" "srv_id s' = agt_server_id a'" for s'
    proof -
      obtain s where s: "s \<in> set (servers d)" "s' = (if Q s then g s else s)"
        using s' by (auto simp: sv sql_update_def)
      have "srv_id s = agt_server_id a"
        using s'(2) G [of s] F [OF a(1)] s(2) a(2) by (simp add: evolves_def)
      then have "agt_applied_version a' \<le> srv_version s"
        using F [OF a(1)] s(1) a(2) by blast
      then show ?thesis
        using G [of s] s(2) by simp
    qed
    moreover have "agt_id a \<le> agents_seq d"
      using ok a(1) by (simp add: control_ok_def)
    ultimately show ?thesis
      using F [OF a(1)] a(2) sq by (simp add: evolves_def)
  qed
  have "\<exists>a \<in> set (agents d). evolves a a'" if "a' \<in> set (agents d')" for a'
    using that F unfolding ag set_sql_update by blast
  then have "agents_evolve d d'"
    using sq by (simp add: agents_evolve_def)
  with keys ver rows ok show ?thesis
    by (simp add: control_ok_def)
qed

lemma control_no_servers: "servers d = sql_update (\<lambda>_. False) (\<lambda>s. s) (servers d)"
  by (simp add: sql_update_def)

lemma control_no_agents: "agents d = sql_update (\<lambda>_. False) (\<lambda>a. a) (agents d)"
  by (simp add: sql_update_def)

text \<open>An update of the Agents that leaves what they applied as it is.\<close>

lemma control_update_rows:
  assumes "control_ok d" "agents d' = sql_update P f (agents d)" "servers d' = sql_update Q g (servers d)"
    "agents_seq d' = agents_seq d"
    "\<And>a. P a \<Longrightarrow> coherent_upgrade a \<Longrightarrow>
      evolves a (f a) \<and> agt_applied_version (f a) = agt_applied_version a \<and> coherent_upgrade (f a)"
    "\<And>s. Q s \<Longrightarrow> srv_id (g s) = srv_id s \<and> srv_version s \<le> srv_version (g s)"
  shows "control_ok d' \<and> agents_evolve d d'"
proof (rule control_update [OF assms(1-4)])
  fix a
  assume "a \<in> set (agents d)" "P a"
  then show "evolves a (f a) \<and> coherent_upgrade (f a) \<and>
      (\<forall>s \<in> set (servers d). srv_id s = agt_server_id a \<longrightarrow> agt_applied_version (f a) \<le> srv_version s)"
    using assms(1,5) by (simp add: control_ok_def)
qed (use assms(6) in blast)

lemma control_update_servers:
  assumes "control_ok d" "agents d' = agents d" "servers d' = sql_update Q g (servers d)"
    "agents_seq d' = agents_seq d"
    "\<And>s. Q s \<Longrightarrow> srv_id (g s) = srv_id s \<and> srv_version s \<le> srv_version (g s)"
  shows "control_ok d' \<and> agents_evolve d d'"
  by (rule control_update_rows [where P = "\<lambda>_. False" and f = "\<lambda>a. a" and Q = Q and g = g])
    (use assms in \<open>simp_all add: sql_update_def\<close>)

lemma control_server_rows:
  assumes "control_ok d" "\<And>s. Q s \<Longrightarrow> srv_id (g s) = srv_id s \<and> srv_version s \<le> srv_version (g s)"
  shows "control_ok (d\<lparr>servers := sql_update Q g (servers d)\<rparr>) \<and>
    agents_evolve d (d\<lparr>servers := sql_update Q g (servers d)\<rparr>)"
  by (rule control_update_servers [where Q = Q and g = g]) (use assms in simp_all)

lemma control_update_agents:
  assumes "control_ok d" "agents d' = sql_update P f (agents d)" "servers d' = servers d" "agents_seq d' = agents_seq d"
    "\<And>a. P a \<Longrightarrow> coherent_upgrade a \<Longrightarrow>
      evolves a (f a) \<and> agt_applied_version (f a) = agt_applied_version a \<and> coherent_upgrade (f a)"
  shows "control_ok d' \<and> agents_evolve d d'"
  by (rule control_update_rows [where P = P and f = f and Q = "\<lambda>_. False" and g = "\<lambda>s. s"])
    (use assms in \<open>simp_all add: sql_update_def\<close>)

section \<open>Sequences of operations\<close>

datatype control_event = Rotate string id64 | Register string string metadata | Connect id64 id64 metadata
  | Connect_version id64 id64 string | Touch id64 id64 | Offline id64 | Reset_all | Set_status id64 string
  | Result id64 id64 config_result | State_failure id64 id64 string | Prepare_upgrade id64 string
  | Upgrade_failure id64 id64 string string | Mark_failed id64 string string | Bump id64

text \<open>An operation that fails is rolled back.\<close>

fun committed :: "panel_db \<Rightarrow> 'e + panel_db \<Rightarrow> panel_db" where
  "committed d (Inl e) = d"
| "committed d (Inr d') = d'"

fun control_step :: "(string \<Rightarrow> string) \<Rightarrow> unix_time \<Rightarrow> control_event \<Rightarrow> panel_db \<Rightarrow> panel_db" where
  "control_step h now (Rotate fresh sid) d = committed d (create_enrollment h now fresh sid d)"
| "control_step h now (Register fresh tok m) d = committed d (map_sum id snd (register_agent h now fresh tok m d))"
| "control_step h now (Connect aid sid m) d = committed d (set_agent_connected_metadata now aid sid m d)"
| "control_step h now (Connect_version aid sid v) d = committed d (set_agent_connected_version now aid sid v d)"
| "control_step h now (Touch aid sid) d = committed d (touch_agent now aid sid d)"
| "control_step h now (Offline sid) d = committed d (set_agent_offline now sid d)"
| "control_step h now Reset_all d = reset_online now d"
| "control_step h now (Set_status sid st) d = committed d (set_status now sid st d)"
| "control_step h now (Result aid sid r) d = committed d (record_config_result now aid sid r d)"
| "control_step h now (State_failure aid sid msg) d = committed d (record_desired_state_failure now aid sid msg d)"
| "control_step h now (Prepare_upgrade sid target) d = committed d (map_sum id snd (prepare_agent_upgrade now sid target d))"
| "control_step h now (Upgrade_failure aid sid target msg) d = committed d (record_agent_upgrade_failure now aid sid target msg d)"
| "control_step h now (Mark_failed sid target msg) d = committed d (mark_agent_upgrade_failed now sid target msg d)"
| "control_step h now (Bump sid) d = committed d (map_sum id snd (bump_version now sid d))"

fun control_run :: "(string \<Rightarrow> string) \<Rightarrow> (unix_time \<times> control_event) list \<Rightarrow> panel_db \<Rightarrow> panel_db" where
  "control_run h [] d = d"
| "control_run h ((now, e) # es) d = control_run h es (control_step h now e d)"

lemma control_committed:
  assumes "control_ok d" "\<And>d'. r = Inr d' \<Longrightarrow> control_ok d' \<and> agents_evolve d d'"
  shows "control_ok (committed d r) \<and> agents_evolve d (committed d r)"
  using assms by (cases r) auto

lemma map_sum_Inr_iff: "map_sum id snd r = Inr d' \<longleftrightarrow> (\<exists>x. r = Inr (x, d'))"
  by (cases r) auto

lemma receipt_other [simp]:
  "agents (record_receipt now sid v st msg d) = agents d" "servers (record_receipt now sid v st msg d) = servers d"
  "agents_seq (record_receipt now sid v st msg d) = agents_seq d"
  by (simp_all add: record_receipt_def)

lemma connected_evolves:
  "coherent_upgrade a \<Longrightarrow> evolves a (connected_row now v a) \<and>
    agt_applied_version (connected_row now v a) = agt_applied_version a \<and> coherent_upgrade (connected_row now v a)"
  by (simp add: connected_row_def clear_upgrade_def evolves_def coherent_upgrade_def)

lemma declared_evolves:
  "coherent_upgrade a \<Longrightarrow> evolves a (declared_row now m caps a) \<and>
    agt_applied_version (declared_row now m caps a) = agt_applied_version a \<and> coherent_upgrade (declared_row now m caps a)"
  by (simp add: declared_row_def connected_row_def clear_upgrade_def evolves_def coherent_upgrade_def)

lemma control_online:
  assumes "control_ok d" "set_online now sid (d\<lparr>agents := sql_update P f (agents d)\<rparr>) = Inr d'"
    "\<And>a. P a \<Longrightarrow> coherent_upgrade a \<Longrightarrow>
      evolves a (f a) \<and> agt_applied_version (f a) = agt_applied_version a \<and> coherent_upgrade (f a)"
  shows "control_ok d' \<and> agents_evolve d d'"
proof (rule control_update_rows [OF assms(1)])
  show "servers d' = sql_update (live_server sid) (\<lambda>s. s\<lparr>srv_status := ''online'', srv_updated_at := now\<rparr>) (servers d)"
    "agents d' = sql_update P f (agents d)" "agents_seq d' = agents_seq d"
    using assms(2) by (auto simp: set_online_def split: if_splits)
qed (use assms(3) in simp_all)

lemma control_connected:
  assumes "control_ok d" "set_agent_connected now aid sid m persist d = Inr d'"
  shows "control_ok d' \<and> agents_evolve d d'"
proof (cases persist)
  case True
  then obtain caps P where "set_online now sid (d\<lparr>agents := sql_update P (declared_row now m caps) (agents d)\<rparr>) = Inr d'"
    using assms(2) by (auto simp: set_agent_connected_def Let_def split: sum.splits if_splits option.splits)
  then show ?thesis
    by (rule control_online [OF assms(1)]) (rule declared_evolves)
next
  case False
  then obtain P where "set_online now sid (d\<lparr>agents := sql_update P (connected_row now (md_version m)) (agents d)\<rparr>) = Inr d'"
    using assms(2) by (auto simp: set_agent_connected_def split: if_splits)
  then show ?thesis
    by (rule control_online [OF assms(1)]) (rule connected_evolves)
qed

lemma control_result:
  assumes ok: "control_ok d" and r: "record_config_result now aid sid r d = Inr d'"
  shows "control_ok d' \<and> agents_evolve d d'"
proof (cases "d' = d")
  case False
  obtain s a where sa: "agent_on_server aid sid d = Some (s, a)" "cr_version r \<le> srv_version s"
      "\<not> cr_version r < agt_applied_version a"
    using r False by (auto simp: record_config_result_def split: if_splits option.splits)
  then have a: "a \<in> set (agents d)" "agt_id a = aid" "agt_server_id a = sid"
    and s: "s \<in> set (servers d)" "srv_id s = sid"
    by (auto simp: agent_on_server_def split: option.splits dest!: sql_first_SomeD)
  have keys: "distinct (map agt_id (agents d))" "distinct (map srv_id (servers d))"
    using ok by (simp_all add: control_ok_def)
  have here: "x = a" if "x \<in> set (agents d)" "agent_at aid sid x" for x
    by (rule distinct_key_unique [OF keys(1) that(1) a(1)]) (simp add: that a)
  have there: "x = s" if "x \<in> set (servers d)" "srv_id x = sid" for x
    by (rule distinct_key_unique [OF keys(2) that(1) s(1)]) (simp add: that s)
  have ap: "agt_applied_version a \<le> srv_version s" "coherent_upgrade a"
    using ok a s unfolding control_ok_def by blast+
  define f :: "agent_row \<Rightarrow> agent_row" where "f = (if cr_status r = ''success''
      then (\<lambda>x. x\<lparr>agt_applied_version := max (agt_applied_version a) (cr_version r),
        agt_sync_status := ''success'', agt_sync_error := [], agt_synced_at := Some now, agt_updated_at := now\<rparr>)
      else (\<lambda>x. x\<lparr>agt_sync_status := ''failed'', agt_sync_error := cr_message r,
        agt_synced_at := Some now, agt_updated_at := now\<rparr>))"
  have d': "d' = record_receipt now sid (cr_version r) (cr_status r) (cr_message r)
      (d\<lparr>agents := sql_update (agent_at aid sid) f (agents d)\<rparr>)"
    using r sa False by (simp add: record_config_result_def f_def Let_def split: if_splits)
  have fa: "evolves a (f a) \<and> coherent_upgrade (f a) \<and> agt_applied_version (f a) \<le> srv_version s"
    using ap sa(2) by (simp add: f_def evolves_def coherent_upgrade_def)
  show ?thesis
  proof (rule control_update [OF ok])
    show "agents d' = sql_update (agent_at aid sid) f (agents d)" "agents_seq d' = agents_seq d"
      "servers d' = sql_update (\<lambda>_. False) (\<lambda>s. s) (servers d)"
      unfolding d' by (simp_all add: sql_update_def)
  next
    fix x
    assume "x \<in> set (agents d)" "agent_at aid sid x"
    then have "x = a" by (rule here)
    then show "evolves x (f x) \<and> coherent_upgrade (f x) \<and>
        (\<forall>s \<in> set (servers d). srv_id s = agt_server_id x \<longrightarrow> agt_applied_version (f x) \<le> srv_version s)"
      using fa there a(3) by blast
  qed simp
qed (use ok in simp)

lemma control_rotate:
  assumes "control_ok d"
  shows "control_ok (rotate_enrollment h now fresh sid d) \<and> agents_evolve d (rotate_enrollment h now fresh sid d)"
proof -
  let ?d = "rotate_enrollment h now fresh sid d"
  have sv: "servers ?d = sql_update (\<lambda>s. srv_id s = sid) (\<lambda>s. s\<lparr>srv_status := ''pending'', srv_updated_at := now\<rparr>) (servers d)"
    and ag: "agents ?d = sql_delete (\<lambda>a. agt_server_id a = sid) (agents d)" "agents_seq ?d = agents_seq d"
    by (simp_all add: rotate_enrollment_def insert_enrollment_def)
  let ?e = "d\<lparr>agents := sql_delete (\<lambda>a. agt_server_id a = sid) (agents d)\<rparr>"
  have "control_ok ?e"
    using assms by (simp add: control_ok_def distinct_sql_delete set_sql_delete)
  moreover have "agents_evolve d ?e"
    by (auto simp: agents_evolve_def set_sql_delete intro: evolves_refl)
  moreover have "control_ok ?d \<and> agents_evolve ?e ?d"
    by (rule control_update_servers [OF \<open>control_ok ?e\<close> _ _ _, where Q = "\<lambda>s. srv_id s = sid"
        and g = "\<lambda>s. s\<lparr>srv_status := ''pending'', srv_updated_at := now\<rparr>"]) (simp_all add: ag sv)
  ultimately show ?thesis
    using agents_evolve_trans by blast
qed

lemma register_agent_Inr:
  assumes "register_agent h now fresh tok m0 d = Inr (reg, d')"
  obtains m caps enr where "normalize_metadata m0 = Inr m" "normalize_capabilities (md_capabilities m) = Inr caps"
    "sql_first (\<lambda>e. enr_token_hash e = h tok \<and> usable_enrollment now e) (enrollments d) = Some enr"
    "reg = \<lparr>reg_id = agents_seq d + 1, reg_server_id = enr_server_id enr, reg_token = fresh\<rparr>"
    "d' = d\<lparr>agents := sql_delete (\<lambda>a. agt_server_id a = enr_server_id enr) (agents d) @
        [new_agent (agents_seq d + 1) (enr_server_id enr) (h fresh) m caps now],
      agents_seq := agents_seq d + 1,
      enrollments := sql_update (\<lambda>e. enr_id e = enr_id enr \<and> usable_enrollment now e)
        (\<lambda>e. e\<lparr>enr_used_at := Some now\<rparr>) (enrollments d),
      servers := sql_update (\<lambda>s. srv_id s = enr_server_id enr)
        (\<lambda>s. s\<lparr>srv_status := ''offline'', srv_archived_at := None, srv_updated_at := now\<rparr>) (servers d)\<rparr>"
  using assms by (auto simp: register_agent_def Let_def split: if_splits sum.splits option.splits)

lemma control_register:
  assumes ok: "control_ok d" and r: "register_agent h now fresh tok m0 d = Inr (reg, d')"
  shows "control_ok d' \<and> agents_evolve d d'"
proof (rule register_agent_Inr [OF r])
  fix m caps enr
  let ?sid = "enr_server_id enr"
  let ?ags = "sql_delete (\<lambda>a. agt_server_id a = ?sid) (agents d) @ [new_agent (agents_seq d + 1) ?sid (h fresh) m caps now]"
  assume d': "d' = d\<lparr>agents := ?ags, agents_seq := agents_seq d + 1,
      enrollments := sql_update (\<lambda>e. enr_id e = enr_id enr \<and> usable_enrollment now e)
        (\<lambda>e. e\<lparr>enr_used_at := Some now\<rparr>) (enrollments d),
      servers := sql_update (\<lambda>s. srv_id s = ?sid)
        (\<lambda>s. s\<lparr>srv_status := ''offline'', srv_archived_at := None, srv_updated_at := now\<rparr>) (servers d)\<rparr>"
  let ?e = "d\<lparr>agents := ?ags, agents_seq := agents_seq d + 1\<rparr>"
  have new: "agents_seq d + 1 \<notin> agt_id ` set (agents d)"
    using ok by (force simp: control_ok_def)
  have "control_ok ?e"
    using ok new by (auto simp: control_ok_def distinct_sql_delete set_sql_delete new_agent_def coherent_upgrade_def)
  moreover have "agents_evolve d ?e"
    by (auto simp: agents_evolve_def set_sql_delete new_agent_def intro: evolves_refl)
  moreover have "control_ok d' \<and> agents_evolve ?e d'"
    by (rule control_update_servers [OF \<open>control_ok ?e\<close> _ _ _, where Q = "\<lambda>s. srv_id s = ?sid"
        and g = "\<lambda>s. s\<lparr>srv_status := ''offline'', srv_archived_at := None, srv_updated_at := now\<rparr>"]) (simp_all add: d')
  ultimately show ?thesis
    using agents_evolve_trans by blast
qed

lemma control_bump:
  assumes ok: "control_ok d" and b: "bump_version now sid d = Inr (v, d')"
  shows "control_ok d' \<and> agents_evolve d d'"
proof (rule control_update_rows [OF ok])
  show "agents d' = sql_update (\<lambda>a. agt_server_id a = sid)
      (\<lambda>a. a\<lparr>agt_sync_status := ''pending'', agt_sync_error := [], agt_updated_at := now\<rparr>) (agents d)"
    "servers d' = sql_update (bumpable sid) (\<lambda>s. s\<lparr>srv_version := srv_version s + 1, srv_updated_at := now\<rparr>) (servers d)"
    "agents_seq d' = agents_seq d"
    using b by (auto simp: bump_version_def Let_def split: if_splits option.splits)
qed (simp_all add: evolves_def coherent_upgrade_def)

lemma control_state_failure:
  assumes ok: "control_ok d" and r: "record_desired_state_failure now aid sid msg d = Inr d'"
  shows "control_ok d' \<and> agents_evolve d d'"
proof (rule control_update_agents [OF ok])
  show "agents d' = sql_update (agent_at aid sid)
      (\<lambda>x. x\<lparr>agt_sync_status := ''failed'', agt_sync_error := msg, agt_synced_at := Some now, agt_updated_at := now\<rparr>) (agents d)"
    "servers d' = servers d" "agents_seq d' = agents_seq d"
    using r by (auto simp: record_desired_state_failure_def split: if_splits option.splits)
qed (simp add: evolves_def coherent_upgrade_def)

lemma trim_formal: "is_formal (trim_space t) \<Longrightarrow> trim_space t \<noteq> []"
  by (auto simp: is_formal_def parse_release_def)

lemma control_prepare:
  assumes ok: "control_ok d" and r: "prepare_agent_upgrade now sid t d = Inr (b, d')"
  shows "control_ok d' \<and> agents_evolve d d'"
proof (cases b)
  case True
  then show ?thesis
    using r ok by (auto simp: prepare_agent_upgrade_def Let_def split: if_splits sum.splits option.splits)
next
  case False
  then obtain aid where "is_formal (trim_space t)" "d' = d\<lparr>agents := sql_update (agent_at aid sid)
      (\<lambda>x. x\<lparr>agt_upgrade_target := trim_space t, agt_upgrade_status := ''upgrading'',
         agt_upgrade_error := [], agt_updated_at := now\<rparr>) (agents d)\<rparr>"
    using r by (auto simp: prepare_agent_upgrade_def Let_def split: if_splits sum.splits option.splits)
  then show ?thesis
    by (intro control_update_agents [OF ok, where P = "agent_at aid sid"])
      (auto simp: evolves_def coherent_upgrade_def trim_formal)
qed

lemma control_upgrade_failed:
  assumes ok: "control_ok d" and P: "\<And>a. P a \<Longrightarrow> agt_upgrade_status a = ''upgrading''"
  shows "control_ok (d\<lparr>agents := sql_update P (upgrade_failed_row now msg) (agents d)\<rparr>) \<and>
    agents_evolve d (d\<lparr>agents := sql_update P (upgrade_failed_row now msg) (agents d)\<rparr>)"
proof (rule control_update_agents [OF ok, where P = P and f = "upgrade_failed_row now msg"])
  fix a
  assume "P a" "coherent_upgrade a"
  then show "evolves a (upgrade_failed_row now msg a) \<and>
      agt_applied_version (upgrade_failed_row now msg a) = agt_applied_version a \<and>
      coherent_upgrade (upgrade_failed_row now msg a)"
    using P [of a] by (simp add: upgrade_failed_row_def evolves_def coherent_upgrade_def)
qed simp_all

lemma control_step_ok:
  assumes ok: "control_ok d"
  shows "control_ok (control_step h now e d) \<and> agents_evolve d (control_step h now e d)"
proof (cases e)
  case (Rotate fresh sid)
  show ?thesis unfolding Rotate control_step.simps
    by (rule control_committed [OF ok])
      (use ok control_rotate [OF ok] in \<open>auto simp: create_enrollment_def split: option.splits if_splits\<close>)
next
  case (Register fresh tok m)
  show ?thesis unfolding Register control_step.simps
    by (rule control_committed [OF ok]) (use ok control_register [OF ok] in \<open>auto simp: map_sum_Inr_iff\<close>)
next
  case (Connect aid sid m)
  show ?thesis unfolding Connect control_step.simps
    by (rule control_committed [OF ok])
      (use ok control_connected [OF ok] in \<open>auto simp: set_agent_connected_metadata_def split: sum.splits\<close>)
next
  case (Connect_version aid sid v)
  show ?thesis unfolding Connect_version control_step.simps
    by (rule control_committed [OF ok])
      (use ok control_connected [OF ok] in \<open>auto simp: set_agent_connected_version_def Let_def split: if_splits\<close>)
next
  case (Touch aid sid)
  have "control_ok d' \<and> agents_evolve d d'" if "touch_agent now aid sid d = Inr d'" for d'
    using that by (intro control_update_agents [OF ok, where P = "agent_at aid sid"
        and f = "\<lambda>a. a\<lparr>agt_last_seen_at := Some now, agt_updated_at := now\<rparr>"])
      (auto simp: touch_agent_def evolves_def coherent_upgrade_def split: if_splits)
  with ok show ?thesis unfolding Touch control_step.simps by (intro control_committed) auto
next
  case (Offline sid)
  have "control_ok d' \<and> agents_evolve d d'"
    if "d' = d\<lparr>servers := sql_update (\<lambda>s. live_server sid s \<and> srv_status s = ''online'')
      (\<lambda>s. s\<lparr>srv_status := ''offline'', srv_updated_at := now\<rparr>) (servers d)\<rparr>" for d'
    unfolding that by (rule control_server_rows [OF ok]) simp
  with ok show ?thesis unfolding Offline control_step.simps
    by (intro control_committed) (auto simp: set_agent_offline_def Let_def split: if_splits)
next
  case Reset_all
  show ?thesis unfolding Reset_all control_step.simps reset_online_def
    by (rule control_server_rows [OF ok]) simp
next
  case (Set_status sid st)
  have "control_ok d' \<and> agents_evolve d d'" if "d' = d\<lparr>servers := sql_update (live_server sid)
      (\<lambda>s. s\<lparr>srv_status := st, srv_updated_at := now\<rparr>) (servers d)\<rparr>" for d'
    unfolding that by (rule control_server_rows [OF ok]) simp
  with ok show ?thesis unfolding Set_status control_step.simps
    by (intro control_committed) (auto simp: set_status_def split: if_splits option.splits)
next
  case (Result aid sid r)
  show ?thesis unfolding Result control_step.simps
    by (rule control_committed [OF ok]) (use ok control_result [OF ok] in auto)
next
  case (State_failure aid sid msg)
  show ?thesis unfolding State_failure control_step.simps
    by (rule control_committed [OF ok]) (use ok control_state_failure [OF ok] in auto)
next
  case (Prepare_upgrade sid target)
  show ?thesis unfolding Prepare_upgrade control_step.simps
    by (rule control_committed [OF ok]) (use ok control_prepare [OF ok] in \<open>auto simp: map_sum_Inr_iff\<close>)
next
  case (Upgrade_failure aid sid target msg)
  show ?thesis unfolding Upgrade_failure control_step.simps
  proof (rule control_committed [OF ok])
    fix d'
    assume "record_agent_upgrade_failure now aid sid target msg d = Inr d'"
    then have d': "d' = d\<lparr>agents := sql_update (\<lambda>a. agent_at aid sid a \<and> agt_upgrade_target a = trim_space target \<and>
        agt_upgrade_status a = ''upgrading'') (upgrade_failed_row now (take 4096 (trim_space msg))) (agents d)\<rparr>"
      by (auto simp: record_agent_upgrade_failure_def Let_def split: if_splits)
    show "control_ok d' \<and> agents_evolve d d'"
      unfolding d' by (rule control_upgrade_failed [OF ok]) simp
  qed
next
  case (Mark_failed sid target msg)
  show ?thesis unfolding Mark_failed control_step.simps
  proof (rule control_committed [OF ok])
    fix d'
    assume "mark_agent_upgrade_failed now sid target msg d = Inr d'"
    then have d': "d' = d\<lparr>agents := sql_update (\<lambda>a. agt_server_id a = sid \<and> agt_upgrade_target a = target \<and>
        agt_upgrade_status a = ''upgrading'') (upgrade_failed_row now (trim_space msg)) (agents d)\<rparr>"
      by (auto simp: mark_agent_upgrade_failed_def Let_def split: if_splits)
    show "control_ok d' \<and> agents_evolve d d'"
      unfolding d' by (rule control_upgrade_failed [OF ok]) simp
  qed
next
  case (Bump sid)
  show ?thesis unfolding Bump control_step.simps
    by (rule control_committed [OF ok]) (use ok control_bump [OF ok] in \<open>auto simp: map_sum_Inr_iff\<close>)
qed

lemma control_run_ok: "control_ok d \<Longrightarrow> control_ok (control_run h es d) \<and> agents_evolve d (control_run h es d)"
proof (induction es arbitrary: d)
  case (Cons e es)
  obtain now ev where e: "e = (now, ev)" by force
  from control_step_ok [OF Cons.prems] have "control_ok (control_step h now ev d)" "agents_evolve d (control_step h now ev d)"
    by blast+
  with Cons.IH show ?case
    by (simp add: e) (meson agents_evolve_trans)
qed simp

text \<open>
  C10. Over every sequence of enrolments, registrations, connections, results, upgrades and
  configuration changes: the tables keep one Agent per server and one row per id, no Agent has
  applied a version its server has not reached, and an Agent row that is still there belongs to
  the same server and token, has not lost a version it applied, and has not changed an
  implementation it declared.
\<close>

theorem agent_rows_evolve:
  assumes "control_ok d"
  shows "control_ok (control_run h es d) \<and>
    (\<forall>a \<in> set (agents d). \<forall>a' \<in> set (agents (control_run h es d)). agt_id a' = agt_id a \<longrightarrow> evolves a a')"
proof -
  have ok: "control_ok (control_run h es d)" "agents_evolve d (control_run h es d)"
    using control_run_ok [OF assms] by blast+
  have "evolves a a'" if a: "a \<in> set (agents d)" and a': "a' \<in> set (agents (control_run h es d))"
    and eq: "agt_id a' = agt_id a" for a a'
  proof -
    have "agt_id a \<le> agents_seq d"
      using assms a by (simp add: control_ok_def)
    then obtain b where b: "b \<in> set (agents d)" "evolves b a'"
      using ok(2) a' eq unfolding agents_evolve_def by force
    have "b = a"
      by (rule distinct_key_unique [of agt_id "agents d"]) (use assms a b eq in \<open>simp_all add: control_ok_def evolves_def\<close>)
    with b show ?thesis by simp
  qed
  with ok show ?thesis by blast
qed

definition agent_db :: panel_db where
  "agent_db = empty_db\<lparr>servers := [plain_server 1],
     agents := [new_agent 1 1 ''h'' \<lparr>md_implementation = [], md_version = ''v1.0.0'', md_api_version = 0,
       md_capabilities = []\<rparr> [] 5], agents_seq := 1\<rparr>"

lemma agent_db_ok: "control_ok agent_db"
  by (simp add: control_ok_def agent_db_def empty_db_def plain_server_def new_agent_def coherent_upgrade_def)

definition agent_trace :: "(unix_time \<times> control_event) list" where
  "agent_trace = [(9, Bump 1), (10, Result 1 1 \<lparr>cr_version = 2, cr_status = ''success'', cr_message = []\<rparr>),
     (11, Result 1 1 \<lparr>cr_version = 3, cr_status = ''success'', cr_message = []\<rparr>)]"

lemma agent_db_applied: "map agt_applied_version (agents (control_run (\<lambda>s. s) agent_trace agent_db)) = [2]"
  by (simp add: agent_trace_def agent_db_def empty_db_def plain_server_def new_agent_def bump_version_def bumpable_def
      record_config_result_def agent_on_server_def sql_first_def sql_update_def sql_count_def record_receipt_def)

theorem agent_rows_evolve_witness:
  "control_ok (control_run (\<lambda>s. s) agent_trace agent_db) \<and>
    map agt_applied_version (agents (control_run (\<lambda>s. s) agent_trace agent_db)) = [2]"
  using agent_rows_evolve [OF agent_db_ok, of "\<lambda>s. s" agent_trace] agent_db_applied by simp

section \<open>The life of an enrolment token\<close>

lemma create_enrollment_Inr:
  "create_enrollment h now fresh sid d = Inr d' \<Longrightarrow> d' = rotate_enrollment h now fresh sid d \<and>
    (\<exists>s \<in> set (servers d). srv_id s = sid)"
  by (auto simp: create_enrollment_def split: option.splits if_splits dest!: sql_first_SomeD)

lemma rotated:
  "enrollments (rotate_enrollment h t tok sid d) =
    sql_delete (\<lambda>e. enr_server_id e = sid \<and> enr_used_at e = None) (enrollments d) @
    [\<lparr>enr_id = enrollments_seq d + 1, enr_server_id = sid, enr_token_hash = h tok, enr_purpose = ''rebind'',
      enr_expires_at = t + 86400, enr_used_at = None, enr_created_at = t\<rparr>]"
  "agents (rotate_enrollment h t tok sid d) = sql_delete (\<lambda>a. agt_server_id a = sid) (agents d)"
  "agents_seq (rotate_enrollment h t tok sid d) = agents_seq d"
  "servers (rotate_enrollment h t tok sid d) =
    sql_update (\<lambda>s. srv_id s = sid) (\<lambda>s. s\<lparr>srv_status := ''pending'', srv_updated_at := t\<rparr>) (servers d)"
  by (simp_all add: rotate_enrollment_def insert_enrollment_def enrollment_lifetime_def)

lemma sql_update_hit: "r \<in> set t \<Longrightarrow> P r \<Longrightarrow> f r \<in> set (sql_update P f t)"
  by (force simp: sql_update_def)

lemma sql_delete_twice: "sql_delete P (sql_delete P t) = sql_delete P t"
  by (simp add: sql_delete_def)

text \<open>Only a usable row with the token's hash lets an Agent register.\<close>

lemma register_needs_row:
  assumes "\<And>e. e \<in> set (enrollments d) \<Longrightarrow> enr_token_hash e = h tok \<Longrightarrow> \<not> usable_enrollment now e"
  shows "isl (register_agent h now fresh tok m d)"
proof -
  have "sql_first (\<lambda>e. enr_token_hash e = h tok \<and> usable_enrollment now e) (enrollments d) = None"
    using assms by (auto simp: sql_first_None_iff)
  then show ?thesis
    by (auto simp: register_agent_def split: sum.splits)
qed

lemma register_rotated:
  assumes ids: "distinct (map srv_id (servers d))" "\<forall>e \<in> set (enrollments d). enr_id e \<le> enrollments_seq d"
    and unused: "\<forall>e \<in> set (enrollments d). enr_token_hash e \<noteq> h tok"
    and s: "s \<in> set (servers d)" "srv_id s = sid"
    and m: "normalize_metadata m = Inr m'" "md_version m' \<noteq> []" "tok \<noteq> []" "t1 < t + 86400"
  shows "\<exists>caps d2. register_agent h t1 fresh tok m (rotate_enrollment h t tok sid d) =
      Inr (\<lparr>reg_id = agents_seq d + 1, reg_server_id = sid, reg_token = fresh\<rparr>, d2) \<and>
    agents d2 = sql_delete (\<lambda>a. agt_server_id a = sid) (agents d) @ [new_agent (agents_seq d + 1) sid (h fresh) m' caps t1] \<and>
    enrollments d2 = sql_update (\<lambda>e. enr_id e = enrollments_seq d + 1 \<and> usable_enrollment t1 e)
      (\<lambda>e. e\<lparr>enr_used_at := Some t1\<rparr>) (enrollments (rotate_enrollment h t tok sid d)) \<and>
    servers d2 = sql_update (\<lambda>s. srv_id s = sid)
      (\<lambda>s. s\<lparr>srv_status := ''offline'', srv_archived_at := None, srv_updated_at := t1\<rparr>)
      (servers (rotate_enrollment h t tok sid d))"
proof -
  let ?d = "rotate_enrollment h t tok sid d"
  let ?old = "sql_delete (\<lambda>e. enr_server_id e = sid \<and> enr_used_at e = None) (enrollments d)"
  let ?e = "\<lparr>enr_id = enrollments_seq d + 1, enr_server_id = sid, enr_token_hash = h tok, enr_purpose = ''rebind'',
      enr_expires_at = t + 86400, enr_used_at = None, enr_created_at = t\<rparr>"
  have usable: "usable_enrollment t1 ?e"
    using m(4) by (simp add: usable_enrollment_def)
  have old: "enr_token_hash e \<noteq> h tok" "enr_id e \<noteq> enrollments_seq d + 1" if "e \<in> set ?old" for e
    using that unused ids(2) by (force simp: set_sql_delete)+
  have "sql_first (\<lambda>e. enr_token_hash e = h tok \<and> usable_enrollment t1 e) ?old = None"
    using old(1) by (simp add: sql_first_None_iff)
  then have first: "sql_first (\<lambda>e. enr_token_hash e = h tok \<and> usable_enrollment t1 e) (enrollments ?d) = Some ?e"
    using usable by (simp add: rotated sql_first_append) (simp add: sql_first_def)
  have "filter (\<lambda>e. enr_id e = enrollments_seq d + 1 \<and> usable_enrollment t1 e) ?old = []"
    using old(2) by (simp add: filter_empty_conv)
  then have count: "sql_count (\<lambda>e. enr_id e = enrollments_seq d + 1 \<and> usable_enrollment t1 e) (enrollments ?d) = 1"
    using usable by (simp add: rotated sql_count_def)
  have "sql_count (\<lambda>s. srv_id s = sid) (servers d) = 1"
    by (rule sql_count_key [OF ids(1) s(1)]) (use s in simp_all)
  then have servers: "sql_count (\<lambda>s. srv_id s = sid) (servers ?d) = 1"
    by (simp add: rotated sql_count_def sql_update_def filter_map comp_def if_distrib cong: if_cong)
  obtain caps where caps: "normalize_capabilities (md_capabilities m') = Inr caps"
    using m(1) by (auto simp: normalize_metadata_def Let_def normalize_normalized normalize_capabilities_result
        split: if_splits sum.splits)
  show ?thesis
    using m(1-3) caps first count servers
    by (auto simp: register_agent_def Let_def rotated sql_delete_twice)
qed

text \<open>
  C11. A new enrolment token replaces what the server had: it revokes the Agent of the server
  at once and every earlier unused token of the server; it registers exactly one Agent, within
  24 hours of its creation, and never a second one; the Agent's token authenticates that Agent
  of that server, and no earlier token does.
\<close>

theorem enrollment_token_life:
  assumes "distinct (map srv_id (servers d))" "\<forall>e \<in> set (enrollments d). enr_id e \<le> enrollments_seq d"
    "\<forall>e \<in> set (enrollments d). enr_token_hash e \<noteq> h tok" "\<forall>a \<in> set (agents d). agt_token_hash a \<noteq> h fresh"
    "create_enrollment h t tok sid d = Inr d1"
    "normalize_metadata m = Inr m'" "md_version m' \<noteq> []" "tok \<noteq> []" "fresh \<noteq> []" "t1 < t + 86400"
  shows "(\<forall>old ag. authenticate_agent h old d1 = Inr ag \<longrightarrow> ag_server_id ag \<noteq> sid) \<and>
    (\<forall>t2 f2 old m2 reg d3. register_agent h t2 f2 old m2 d1 = Inr (reg, d3) \<and> reg_server_id reg = sid \<longrightarrow> h old = h tok) \<and>
    (\<forall>t2 f2 m2. t + 86400 \<le> t2 \<longrightarrow> isl (register_agent h t2 f2 tok m2 d1)) \<and>
    (\<exists>d2. register_agent h t1 fresh tok m d1 =
        Inr (\<lparr>reg_id = agents_seq d + 1, reg_server_id = sid, reg_token = fresh\<rparr>, d2) \<and>
      (\<forall>t2 f2 m2. isl (register_agent h t2 f2 tok m2 d2)) \<and>
      authenticate_agent h fresh d2 =
        Inr \<lparr>ag_id = agents_seq d + 1, ag_server_id = sid, ag_implementation = md_implementation m'\<rparr> \<and>
      (\<forall>old ag. authenticate_agent h old d2 = Inr ag \<and> ag_server_id ag = sid \<longrightarrow> h old = h fresh))"
proof -
  obtain s where s: "s \<in> set (servers d)" "srv_id s = sid" and d1: "d1 = rotate_enrollment h t tok sid d"
    using create_enrollment_Inr [OF assms(5)] by blast
  obtain caps d2 where r: "register_agent h t1 fresh tok m d1 =
      Inr (\<lparr>reg_id = agents_seq d + 1, reg_server_id = sid, reg_token = fresh\<rparr>, d2)"
    and ag: "agents d2 = sql_delete (\<lambda>a. agt_server_id a = sid) (agents d) @ [new_agent (agents_seq d + 1) sid (h fresh) m' caps t1]"
    and en: "enrollments d2 = sql_update (\<lambda>e. enr_id e = enrollments_seq d + 1 \<and> usable_enrollment t1 e)
      (\<lambda>e. e\<lparr>enr_used_at := Some t1\<rparr>) (enrollments d1)"
    and sv: "servers d2 = sql_update (\<lambda>s. srv_id s = sid)
      (\<lambda>s. s\<lparr>srv_status := ''offline'', srv_archived_at := None, srv_updated_at := t1\<rparr>) (servers d1)"
    using register_rotated [where h = h and tok = tok and fresh = fresh and t = t, OF assms(1-3) s assms(6-8,10)] unfolding d1 by blast
  have auth_row: "\<exists>a \<in> set (agents d'). agt_token_hash a = h old \<and> agt_server_id a = ag_server_id ag"
    if "authenticate_agent h old d' = Inr ag" for old ag d'
    using that by (auto simp: authenticate_agent_def split: if_splits option.splits dest!: sql_first_SomeD)
  have revoked: "ag_server_id ag \<noteq> sid" if "authenticate_agent h old d1 = Inr ag" for old ag
    using auth_row [OF that] by (auto simp: d1 rotated set_sql_delete)
  have replaced: "h old = h fresh" if "authenticate_agent h old d2 = Inr ag" "ag_server_id ag = sid" for old ag
    using auth_row [OF that(1)] that(2) by (auto simp: ag set_sql_delete new_agent_def)
  have enr: "enr_token_hash e = h tok \<Longrightarrow> e = \<lparr>enr_id = enrollments_seq d + 1, enr_server_id = sid, enr_token_hash = h tok,
      enr_purpose = ''rebind'', enr_expires_at = t + 86400, enr_used_at = None, enr_created_at = t\<rparr>"
    "enr_used_at e = None \<Longrightarrow> enr_server_id e = sid \<Longrightarrow> enr_token_hash e = h tok"
    if "e \<in> set (enrollments d1)" for e
    using that assms(3) by (auto simp: d1 rotated set_sql_delete)
  have only: "h old = h tok" if "register_agent h t2 f2 old m2 d1 = Inr (reg, d3)" "reg_server_id reg = sid" for t2 f2 old m2 reg d3
  proof (rule register_agent_Inr [OF that(1)])
    fix enr
    assume e: "sql_first (\<lambda>e. enr_token_hash e = h old \<and> usable_enrollment t2 e) (enrollments d1) = Some enr"
      and "reg = \<lparr>reg_id = agents_seq d1 + 1, reg_server_id = enr_server_id enr, reg_token = f2\<rparr>"
    then have "enr_server_id enr = sid"
      using that(2) by simp
    then show "h old = h tok"
      using sql_first_SomeD [OF e] enr(2) [of enr] by (auto simp: usable_enrollment_def)
  qed
  have expired: "isl (register_agent h t2 f2 tok m2 d1)" if "t + 86400 \<le> t2" for t2 f2 m2
    by (rule register_needs_row) (use enr(1) that in \<open>force simp: usable_enrollment_def\<close>)
  have used: "isl (register_agent h t2 f2 tok m2 d2)" for t2 f2 m2
  proof (rule register_needs_row)
    fix e
    assume e: "e \<in> set (enrollments d2)" "enr_token_hash e = h tok"
    then obtain e0 where e0: "e0 \<in> set (enrollments d1)" "enr_token_hash e0 = h tok"
        "e = (if enr_id e0 = enrollments_seq d + 1 \<and> usable_enrollment t1 e0 then e0\<lparr>enr_used_at := Some t1\<rparr> else e0)"
      unfolding en set_sql_update by (auto split: if_splits)
    have "enr_id e0 = enrollments_seq d + 1 \<and> usable_enrollment t1 e0"
      using enr(1) [OF e0(1,2)] assms(10) by (simp add: usable_enrollment_def)
    with e0(3) show "\<not> usable_enrollment t2 e"
      by (simp add: usable_enrollment_def)
  qed
  let ?new = "new_agent (agents_seq d + 1) sid (h fresh) m' caps t1"
  have "s\<lparr>srv_status := ''pending'', srv_updated_at := t\<rparr> \<in> set (servers d1)"
    unfolding d1 rotated using s by (rule sql_update_hit [where P = "\<lambda>s. srv_id s = sid"])
  from sql_update_hit [OF this, of "\<lambda>s. srv_id s = sid"
      "\<lambda>s. s\<lparr>srv_status := ''offline'', srv_archived_at := None, srv_updated_at := t1\<rparr>"]
  have "sql_exists (live_server sid) (servers d2)"
    unfolding sv sql_exists_iff by (rule bexI [rotated]) (simp_all add: s(2))
  moreover have "sql_first (\<lambda>a. agt_token_hash a = h fresh \<and> sql_exists (live_server (agt_server_id a)) (servers d2))
      (sql_delete (\<lambda>a. agt_server_id a = sid) (agents d)) = None"
    using assms(4) by (auto simp: sql_first_None_iff set_sql_delete)
  ultimately have "authenticate_agent h fresh d2 =
      Inr \<lparr>ag_id = agents_seq d + 1, ag_server_id = sid, ag_implementation = md_implementation m'\<rparr>"
    using assms(9) by (simp add: authenticate_agent_def ag sql_first_append)
      (simp add: sql_first_def new_agent_def)
  with r revoked only expired used replaced show ?thesis by blast
qed

definition legacy_metadata :: metadata where
  "legacy_metadata = \<lparr>md_implementation = [], md_version = ''v1.2.0'', md_api_version = 0, md_capabilities = []\<rparr>"

lemma legacy_normal: "normalize_metadata legacy_metadata = Inr legacy_metadata"
  by code_simp

theorem enrollment_token_life_witness:
  "\<exists>d1 d2. create_enrollment (\<lambda>s. s) 100 ''new'' 1 agent_db = Inr d1 \<and>
    register_agent (\<lambda>s. s) 200 ''tok'' ''new'' legacy_metadata d1 =
      Inr (\<lparr>reg_id = 2, reg_server_id = 1, reg_token = ''tok''\<rparr>, d2) \<and>
    isl (register_agent (\<lambda>s. s) 300 ''x'' ''new'' legacy_metadata d2)"
proof -
  obtain d1 where d1: "create_enrollment (\<lambda>s. s) 100 ''new'' 1 agent_db = Inr d1"
    by (simp add: create_enrollment_def agent_db_def empty_db_def sql_first_def plain_server_def)
  have side: "distinct (map srv_id (servers agent_db))" "\<forall>e \<in> set (enrollments agent_db). enr_id e \<le> enrollments_seq agent_db"
    "\<forall>e \<in> set (enrollments agent_db). enr_token_hash e \<noteq> ''new''"
    "\<forall>a \<in> set (agents agent_db). agt_token_hash a \<noteq> ''tok''" "agents_seq agent_db = 1"
    by (simp_all add: agent_db_def empty_db_def new_agent_def)
  have m: "md_version legacy_metadata \<noteq> []" "''new'' \<noteq> []" "''tok'' \<noteq> []" "(200::int) < 100 + 86400"
    by (simp_all add: legacy_metadata_def)
  note life = enrollment_token_life [where h = "\<lambda>s. s" and tok = "''new''" and fresh = "''tok''" and d = agent_db and ?d1.0 = d1
      and sid = 1 and m = legacy_metadata and m' = legacy_metadata and t = 100 and ?t1.0 = 200]
  note life2 = life [OF side(1,2,3,4) d1 legacy_normal m]
  show ?thesis
    using life2 d1 side(5) by auto
qed

section \<open>Upgrades\<close>









end
