(* ===== verification/AgentConnections.thy ===== *)
theory AgentConnections
  imports AgentControl ServerTraffic
begin

text \<open>
  The live connections of Agents: the registry of \<open>panel/internal/agentcontrol/connection.go\<close>
  and the handler of one connection, \<open>agentWebSocket\<close> of
  \<open>panel/internal/api/agent_connection.go\<close>, as a step relation. Every handler is a
  goroutine of its own; a step is what it does between two points where others may run: one
  critical section of the registry's mutex, or one database transaction.
\<close>

section \<open>The registry\<close>

type_synonym registry = "id64 \<Rightarrow> nat option"

text \<open>The connection that was there before, and the new registry.\<close>

definition track_connection :: "id64 \<Rightarrow> nat \<Rightarrow> registry \<Rightarrow> nat option \<times> registry" where
  "track_connection sid c conns = (conns sid, conns(sid \<mapsto> c))"

definition untrack_connection :: "id64 \<Rightarrow> nat \<Rightarrow> registry \<Rightarrow> bool \<times> registry" where
  "untrack_connection sid c conns =
     (if conns sid \<noteq> Some c then (False, conns) else (True, conns(sid := None)))"

definition is_current_connection :: "id64 \<Rightarrow> nat \<Rightarrow> registry \<Rightarrow> bool" where
  "is_current_connection sid c conns \<longleftrightarrow> conns sid = Some c"


text \<open>The mutex is held over the status update too, so both happen in one step.\<close>

definition disconnect_current ::
  "unix_time \<Rightarrow> id64 \<Rightarrow> nat \<Rightarrow> registry \<Rightarrow> panel_db \<Rightarrow> bool \<times> registry \<times> agent_error option \<times> panel_db" where
  "disconnect_current now sid c conns d =
     (if conns sid \<noteq> Some c then (False, conns, None, d)
      else case set_agent_offline now sid d of
        Inl e \<Rightarrow> (True, conns(sid := None), Some e, d)
      | Inr d' \<Rightarrow> (True, conns(sid := None), None, d'))"

definition close_connections :: "id64 \<Rightarrow> registry \<Rightarrow> registry" where
  "close_connections sid conns = conns(sid := None)"

definition with_current_connection ::
  "id64 \<Rightarrow> nat \<Rightarrow> registry \<Rightarrow> (panel_db \<Rightarrow> 'e + panel_db) \<Rightarrow> panel_db \<Rightarrow> bool \<times> 'e option \<times> panel_db" where
  "with_current_connection sid c conns report d =
     (if conns sid \<noteq> Some c then (False, None, d)
      else case report d of Inl e \<Rightarrow> (True, Some e, d) | Inr d' \<Rightarrow> (True, None, d'))"

text \<open>
  \<open>NotifyAgentUpgrade\<close>: the decision before the message is written, for the metadata the
  tracked connection declared; \<open>still_current\<close> is the second look at the registry.
\<close>

definition notify_agent_upgrade :: "metadata option \<Rightarrow> bool \<Rightarrow> string \<Rightarrow> agent_error option" where
  "notify_agent_upgrade conn still_current target = (case conn of
     None \<Rightarrow> Some ErrAgentOffline
   | Some m \<Rightarrow>
       if \<not> can_self_upgrade_flag (md_implementation m) (md_api_version m) (List.member (md_capabilities m) ''self_upgrade'')
       then Some ErrAgentUpgradeUnsupported
       else if \<not> still_current then Some ErrAgentOffline
       else case compare_releases (md_version m) target of
         None \<Rightarrow> Some ErrUnknownAgentVersion
       | Some c \<Rightarrow> if c = 0 then Some ErrAgentAlreadyCurrent else if c > 0 then Some ErrAgentNewer else None)"

section \<open>One connection\<close>

datatype phase = Accepted | Marked | Serving | Leaving | Done

record handler =
  hn_agent :: id64
  hn_server :: id64
  hn_meta :: metadata
  hn_phase :: phase

text \<open>From the token and the declared metadata to an accepted socket.\<close>

definition accept_agent :: "(string \<Rightarrow> string) \<Rightarrow> string \<Rightarrow> metadata \<Rightarrow> panel_db \<Rightarrow> agent_error + handler" where
  "accept_agent h tok m0 d = (case authenticate_agent h tok d of
     Inl e \<Rightarrow> Inl e
   | Inr ag \<Rightarrow> (case normalize_metadata m0 of
       Inl e \<Rightarrow> Inl e
     | Inr m \<Rightarrow> (case validate_implementation_match (ag_implementation ag) (md_implementation m) of
         Some e \<Rightarrow> Inl e
       | None \<Rightarrow> Inr \<lparr>hn_agent = ag_id ag, hn_server = ag_server_id ag, hn_meta = m, hn_phase = Accepted\<rparr>)))"

definition mark_online :: "unix_time \<Rightarrow> handler \<Rightarrow> panel_db \<Rightarrow> phase \<times> panel_db" where
  "mark_online now hn d =
     (case set_agent_connected_metadata now (hn_agent hn) (hn_server hn) (hn_meta hn) d of
        Inl e \<Rightarrow> (Done, d)
      | Inr d' \<Rightarrow> (Marked, d'))"

definition handle_heartbeat :: "unix_time \<Rightarrow> handler \<Rightarrow> panel_db \<Rightarrow> phase \<times> panel_db" where
  "handle_heartbeat now hn d = (case touch_agent now (hn_agent hn) (hn_server hn) d of
     Inl e \<Rightarrow> (Leaving, d)
   | Inr d' \<Rightarrow> (Serving, d'))"

record metrics_message =
  mm_gauges :: gauges
  mm_rx :: "int option"
  mm_tx :: "int option"

definition handle_metrics :: "unix_time \<Rightarrow> nat \<Rightarrow> handler \<Rightarrow> metrics_message \<Rightarrow> registry \<Rightarrow> panel_db \<Rightarrow> phase \<times> panel_db" where
  "handle_metrics now c hn msg conns d =
     (if (mm_rx msg = None) \<noteq> (mm_tx msg = None) then (Leaving, d)
      else
        let report = \<lparr>rep_gauges = mm_gauges msg, rep_has_network = (mm_rx msg \<noteq> None),
              rep_nic_rx = (case mm_rx msg of None \<Rightarrow> 0 | Some x \<Rightarrow> x),
              rep_nic_tx = (case mm_tx msg of None \<Rightarrow> 0 | Some x \<Rightarrow> x)\<rparr>
        in case with_current_connection (hn_server hn) c conns
             (report_metrics now (hn_agent hn) (hn_server hn) report) d of
          (current, err, d') \<Rightarrow>
            if \<not> current then (Done, d') else if err \<noteq> None then (Leaving, d') else (Serving, d'))"

section \<open>All connections\<close>

text \<open>
  \<open>w_closing\<close> are the servers between the commit of \<open>CreateEnrollment\<close> and the
  \<open>CloseConnections\<close> after it (\<open>createEnrollment\<close> of \<open>api/agent.go\<close>); the new
  token leaves the Panel only after that, so nobody can register with it earlier.
\<close>

record conn_world =
  w_db :: panel_db
  w_conns :: registry
  w_handlers :: "nat \<Rightarrow> handler option"
  w_closing :: "id64 list"

definition set_handler :: "nat \<Rightarrow> handler \<Rightarrow> phase \<Rightarrow> conn_world \<Rightarrow> conn_world" where
  "set_handler c hn p w = w\<lparr>w_handlers := (w_handlers w)(c \<mapsto> hn\<lparr>hn_phase := p\<rparr>)\<rparr>"

inductive conn_step :: "(string \<Rightarrow> string) \<Rightarrow> conn_world \<Rightarrow> conn_world \<Rightarrow> bool" for h where
  accept_step: "accept_agent h tok m (w_db w) = Inr hn \<Longrightarrow> w_handlers w c = None \<Longrightarrow>
    conn_step h w (w\<lparr>w_handlers := (w_handlers w)(c \<mapsto> hn)\<rparr>)"
| mark_step: "w_handlers w c = Some hn \<Longrightarrow> hn_phase hn = Accepted \<Longrightarrow> mark_online now hn (w_db w) = (p, d') \<Longrightarrow>
    conn_step h w ((set_handler c hn p w)\<lparr>w_db := d'\<rparr>)"
| track_step: "w_handlers w c = Some hn \<Longrightarrow> hn_phase hn = Marked \<Longrightarrow>
    conn_step h w ((set_handler c hn Serving w)\<lparr>w_conns := snd (track_connection (hn_server hn) c (w_conns w))\<rparr>)"
| broken_step: "w_handlers w c = Some hn \<Longrightarrow> hn_phase hn = Serving \<Longrightarrow> conn_step h w (set_handler c hn Leaving w)"
| replaced_step: "w_handlers w c = Some hn \<Longrightarrow> hn_phase hn = Serving \<Longrightarrow>
    \<not> is_current_connection (hn_server hn) c (w_conns w) \<Longrightarrow> conn_step h w (set_handler c hn Done w)"
| heartbeat_step: "w_handlers w c = Some hn \<Longrightarrow> hn_phase hn = Serving \<Longrightarrow>
    is_current_connection (hn_server hn) c (w_conns w) \<Longrightarrow> handle_heartbeat now hn (w_db w) = (p, d') \<Longrightarrow>
    conn_step h w ((set_handler c hn p w)\<lparr>w_db := d'\<rparr>)"
| metrics_step: "w_handlers w c = Some hn \<Longrightarrow> hn_phase hn = Serving \<Longrightarrow>
    handle_metrics now c hn msg (w_conns w) (w_db w) = (p, d') \<Longrightarrow>
    conn_step h w ((set_handler c hn p w)\<lparr>w_db := d'\<rparr>)"
| leave_step: "w_handlers w c = Some hn \<Longrightarrow> hn_phase hn = Leaving \<Longrightarrow>
    disconnect_current now (hn_server hn) c (w_conns w) (w_db w) = (current, conns', err, d') \<Longrightarrow>
    conn_step h w ((set_handler c hn Done w)\<lparr>w_conns := conns', w_db := d'\<rparr>)"
| rotate_step: "create_enrollment h now fresh sid (w_db w) = Inr d' \<Longrightarrow>
    conn_step h w (w\<lparr>w_db := d', w_closing := sid # w_closing w\<rparr>)"
| close_step: "sid \<in> set (w_closing w) \<Longrightarrow>
    conn_step h w (w\<lparr>w_conns := close_connections sid (w_conns w), w_closing := remove1 sid (w_closing w)\<rparr>)"
| register_step: "register_agent h now fresh tok m (w_db w) = Inr (reg, d') \<Longrightarrow>
    reg_server_id reg \<notin> set (w_closing w) \<Longrightarrow> conn_step h w (w\<lparr>w_db := d'\<rparr>)"

definition boot :: "unix_time \<Rightarrow> panel_db \<Rightarrow> conn_world" where
  "boot now d = \<lparr>w_db = reset_online now d, w_conns = (\<lambda>_. None), w_handlers = (\<lambda>_. None), w_closing = []\<rparr>"

inductive reachable :: "(string \<Rightarrow> string) \<Rightarrow> conn_world \<Rightarrow> conn_world \<Rightarrow> bool" for h w0 where
  start: "reachable h w0 w0"
| more: "reachable h w0 w \<Longrightarrow> conn_step h w w' \<Longrightarrow> reachable h w0 w'"

section \<open>Server status and the registry\<close>

definition server_online :: "id64 \<Rightarrow> panel_db \<Rightarrow> bool" where
  "server_online sid d = sql_exists (\<lambda>s. live_server sid s \<and> srv_status s = ''online'') (servers d)"















section \<open>The invariant\<close>

definition in_phase :: "conn_world \<Rightarrow> id64 \<Rightarrow> nat \<Rightarrow> phase set \<Rightarrow> bool" where
  "in_phase w sid c ps \<longleftrightarrow> (\<exists>hn. w_handlers w c = Some hn \<and> hn_server hn = sid \<and> hn_phase hn \<in> ps)"
















section \<open>A connection that replaces a broken one\<close>

definition race_handler :: handler where
  "race_handler = \<lparr>hn_agent = 1, hn_server = 1, hn_meta = legacy_metadata, hn_phase = Accepted\<rparr>"

definition race_agent :: "unix_time \<Rightarrow> agent_row" where
  "race_agent t = (new_agent 1 1 ''h'' \<lparr>md_implementation = [], md_version = ''v1.2.0'', md_api_version = 0,
     md_capabilities = []\<rparr> [] 5)\<lparr>agt_last_seen_at := Some t, agt_updated_at := t\<rparr>"

definition race_db :: "unix_time \<Rightarrow> string \<Rightarrow> unix_time \<Rightarrow> panel_db" where
  "race_db t status t' = agent_db\<lparr>agents := [race_agent t],
     servers := [(plain_server 1)\<lparr>srv_status := status, srv_updated_at := t'\<rparr>]\<rparr>"

lemma legacy_fields: "md_implementation legacy_metadata = []" "md_version legacy_metadata = ''v1.2.0''"
  "md_api_version legacy_metadata = 0" "md_capabilities legacy_metadata = []"
  by (simp_all add: legacy_metadata_def)

lemma race_accept:
  "accept_agent (\<lambda>s. s) ''h'' legacy_metadata (reset_online 0 agent_db) = Inr race_handler"
  "accept_agent (\<lambda>s. s) ''h'' legacy_metadata (race_db t status t') = Inr race_handler"
  by (simp_all add: accept_agent_def authenticate_agent_def reset_online_def race_db_def race_agent_def agent_db_def
      empty_db_def plain_server_def new_agent_def sql_first_def sql_exists_def sql_update_def legacy_normal
      validate_implementation_match_def race_handler_def legacy_fields)

lemma race_mark:
  "mark_online t race_handler (reset_online 0 agent_db) = (Marked, race_db t ''online'' t)"
  "mark_online t race_handler (race_db t0 status t1) = (Marked, race_db t ''online'' t)"
  by (simp_all add: mark_online_def race_handler_def set_agent_connected_metadata_def legacy_normal set_agent_connected_def
      legacy_fields normalize_capabilities_def set_online_def reset_online_def race_db_def race_agent_def agent_db_def
      empty_db_def plain_server_def new_agent_def sql_count_def sql_update_def declared_row_def connected_row_def
      clear_upgrade_def)

lemma race_leave:
  "conns 1 = Some c \<Longrightarrow> disconnect_current t 1 c conns (race_db t0 ''online'' t1) =
    (True, conns(1 := None), None, race_db t0 ''offline'' t)"
  by (simp add: disconnect_current_def set_agent_offline_def race_db_def sql_count_def sql_update_def plain_server_def)

lemma race_heartbeat:
  "handle_heartbeat t (race_handler\<lparr>hn_phase := Serving\<rparr>) (race_db t0 status t1) = (Serving, race_db t status t1)"
  by (simp add: handle_heartbeat_def touch_agent_def race_handler_def race_db_def race_agent_def new_agent_def
      sql_count_def sql_update_def)

definition race_world :: conn_world where
  "race_world = \<lparr>w_db = race_db 30 ''offline'' 40, w_conns = [1 \<mapsto> 2],
     w_handlers = [1 \<mapsto> race_handler\<lparr>hn_phase := Done\<rparr>, 2 \<mapsto> race_handler\<lparr>hn_phase := Serving\<rparr>], w_closing = []\<rparr>"

lemma race_reachable: "reachable (\<lambda>s. s) (boot 0 agent_db) race_world"
proof -
  let ?h = "\<lambda>p. race_handler\<lparr>hn_phase := p\<rparr>"
  let ?mk = "\<lambda>d k hs. \<lparr>w_db = d, w_conns = k, w_handlers = hs, w_closing = []\<rparr>"
  let ?S = "conn_step (\<lambda>s. s)"
  have ph: "?h Accepted = race_handler" "\<And>p. hn_server (?h p) = 1" "hn_server race_handler = 1" "hn_phase race_handler = Accepted"
    by (simp_all add: race_handler_def)
  let ?on = "race_db 10 ''online'' 10" and ?on2 = "race_db 30 ''online'' 30" and ?off = "race_db 30 ''offline'' 40"
  let ?w0 = "?mk (reset_online 0 agent_db) Map.empty Map.empty"
  let ?w1 = "?mk (reset_online 0 agent_db) Map.empty [1 \<mapsto> race_handler]"
  let ?w2 = "?mk ?on Map.empty [1 \<mapsto> ?h Marked]"
  let ?w3 = "?mk ?on [1 \<mapsto> 1] [1 \<mapsto> ?h Serving]"
  let ?w4 = "?mk ?on [1 \<mapsto> 1] [1 \<mapsto> ?h Leaving]"
  let ?w5 = "?mk ?on [1 \<mapsto> 1] [1 \<mapsto> ?h Leaving, 2 \<mapsto> race_handler]"
  let ?w6 = "?mk ?on2 [1 \<mapsto> 1] [1 \<mapsto> ?h Leaving, 2 \<mapsto> ?h Marked]"
  let ?w7 = "?mk ?off (Map.empty(1 := None)) [1 \<mapsto> ?h Done, 2 \<mapsto> ?h Marked]"
  have 1: "?S ?w0 ?w1"
    using accept_step [where w = ?w0 and c = 1 and m = legacy_metadata and tok = "''h''" and h = "\<lambda>s. s" and hn = race_handler] race_accept(1) by simp
  have 2: "?S ?w1 ?w2"
    using mark_step [where w = ?w1 and c = 1 and now = 10 and h = "\<lambda>s. s" and hn = race_handler and p = Marked and d' = ?on] race_mark(1)
    by (simp add: set_handler_def ph)
  have 3: "?S ?w2 ?w3"
    using track_step [where w = ?w2 and c = 1 and h = "\<lambda>s. s" and hn = "?h Marked"]
    by (simp add: set_handler_def ph track_connection_def)
  have 4: "?S ?w3 ?w4"
    using broken_step [where w = ?w3 and c = 1 and h = "\<lambda>s. s" and hn = "?h Serving"]
    by (simp add: set_handler_def)
  have 5: "?S ?w4 ?w5"
    using accept_step [where w = ?w4 and c = 2 and m = legacy_metadata and tok = "''h''" and h = "\<lambda>s. s" and hn = race_handler]
      race_accept(2) by simp
  have 6: "?S ?w5 ?w6"
    using mark_step [where w = ?w5 and c = 2 and now = 30 and h = "\<lambda>s. s" and hn = race_handler and p = Marked and d' = ?on2] race_mark(2)
    by (simp add: set_handler_def ph)
  have 7: "?S ?w6 ?w7"
    using leave_step [where w = ?w6 and c = 1 and now = 40 and h = "\<lambda>s. s" and hn = "?h Leaving" and current = True
        and err = None and conns' = "Map.empty(1 := None)" and d' = ?off] race_leave [of "[1 \<mapsto> 1]" 1 40 30 30]
    by (simp add: set_handler_def ph fun_upd_twist)
  have 8: "?S ?w7 race_world"
    using track_step [where w = ?w7 and c = 2 and h = "\<lambda>s. s" and hn = "?h Marked"]
    by (simp add: set_handler_def ph track_connection_def race_world_def)
  have 0: "reachable (\<lambda>s. s) (boot 0 agent_db) ?w0"
    using reachable.start [of "\<lambda>s. s" "boot 0 agent_db"] by (simp add: boot_def)
  show ?thesis
    by (rule more [OF more [OF more [OF more [OF more [OF more [OF more [OF more [OF 0 1] 2] 3] 4] 5] 6] 7] 8])
qed


text \<open>
  The converse of \<open>online_only_with_connection\<close> fails. \<open>agentWebSocket\<close> sets the server online before it
  tracks the new connection; when the handler of the broken connection runs
  \<open>DisconnectCurrent\<close> in between, it still finds its own connection and sets the server
  offline. In the state reached then, the new connection is tracked and serving, the old handler
  has ended, the server is shown offline, the heartbeats of the connection are accepted and do
  not change that, and an upgrade is refused because the Agent is offline.
\<close>

theorem connected_but_offline:
  "\<exists>w hn. reachable (\<lambda>s. s) (boot 0 agent_db) w \<and> w_conns w 1 = Some 2 \<and>
    w_handlers w 2 = Some hn \<and> hn_phase hn = Serving \<and> in_phase w 1 1 {Done} \<and> dom (w_handlers w) = {1, 2} \<and>
    \<not> server_online 1 (w_db w) \<and>
    fst (handle_heartbeat now hn (w_db w)) = Serving \<and> \<not> server_online 1 (snd (handle_heartbeat now hn (w_db w))) \<and>
    prepare_agent_upgrade now 1 ''v1.3.0'' (w_db w) = Inl ErrAgentOffline"
proof (rule exI [of _ race_world], rule exI [of _ "race_handler\<lparr>hn_phase := Serving\<rparr>"], intro conjI)
  show "reachable (\<lambda>s. s) (boot 0 agent_db) race_world"
    by (rule race_reachable)
  have p: "is_formal ''v1.3.0''" "trim_space ''v1.3.0'' = ''v1.3.0''"
  proof -
    have "release_string (Release 1 3 0) = ''v1.3.0''"
      by code_simp
    moreover have "release_fits (Release 1 3 0)"
      by (simp add: release_fits_def max_uint64_def)
    ultimately show "is_formal ''v1.3.0''"
      using parse_release_string [of "Release 1 3 0"] by (simp add: is_formal_def)
    show "trim_space ''v1.3.0'' = ''v1.3.0''"
      by (rule trim_space_identifier) code_simp
  qed
  then show "prepare_agent_upgrade now 1 ''v1.3.0'' (w_db race_world) = Inl ErrAgentOffline"
    by (simp add: prepare_agent_upgrade_def race_world_def race_db_def sql_first_def plain_server_def)
  have off: "\<not> server_online 1 (race_db 30 ''offline'' 40)" "\<not> server_online 1 (race_db now ''offline'' 40)"
    by (simp_all add: server_online_def race_db_def sql_exists_def)
  have db: "w_db race_world = race_db 30 ''offline'' 40"
    by (simp add: race_world_def)
  show "\<not> server_online 1 (w_db race_world)"
    "fst (handle_heartbeat now (race_handler\<lparr>hn_phase := Serving\<rparr>) (w_db race_world)) = Serving"
    "\<not> server_online 1 (snd (handle_heartbeat now (race_handler\<lparr>hn_phase := Serving\<rparr>) (w_db race_world)))"
    unfolding db race_heartbeat using off by simp_all
qed (simp_all add: race_world_def in_phase_def race_handler_def insert_commute)

end
