(* ===== verification/SubscriberUsage.thy ===== *)
theory SubscriberUsage
  imports ServerTraffic ClientTraffic GoStrings
begin

text \<open>
  Usage of subscribers (\<open>panel/internal/subscription/usage.go\<close>): the charge of a traffic
  report with the multiplier of the published node, the billing cycle, the usage total.
\<close>

datatype subscription_error = ErrSubscriberNotFound | ErrInvalidTrafficReset | ErrInvalidPlanNodes
  | ErrInvalidTrafficMultiplier | ErrChargedState | ErrChargedOverflow | ErrServerNotDistributable
  | ErrInvalidSubscriberPlan | ErrInvalidBillingPeriod | ErrForeignKey | ErrUniqueKey | ErrProxy proxy_error

section \<open>Charging\<close>

definition validate_traffic_multiplier_bp :: "int \<Rightarrow> subscription_error + int" where
  "validate_traffic_multiplier_bp value = (if value < 10 \<or> value > 500 then Inl ErrInvalidTrafficMultiplier else Inr value)"

definition normalize_traffic_multiplier_bp :: "int \<Rightarrow> subscription_error + int" where
  "normalize_traffic_multiplier_bp value = validate_traffic_multiplier_bp (if value = 0 then 100 else value)"

text \<open>The charge of one delta, and the remainder in hundredths of a byte.\<close>

definition apply_traffic_multiplier_delta :: "int \<Rightarrow> int \<Rightarrow> int \<Rightarrow> subscription_error + (int \<times> int)" where
  "apply_traffic_multiplier_delta delta bp remainder =
     (if delta < 0 \<or> remainder < 0 \<or> remainder > 99 then Inl ErrChargedState
      else case validate_traffic_multiplier_bp bp of
        Inl e \<Rightarrow> Inl e
      | Inr _ \<Rightarrow>
        let tail = add64 (mul64 (rem64 delta 100) bp) remainder;
            extra = quot64 tail 100;
            whole = quot64 delta 100
        in if whole > quot64 (sub64 max_int64 extra) bp then Inl ErrChargedOverflow
           else Inr (add64 (mul64 whole bp) extra, rem64 tail 100))"

definition subscriber_counter_delta :: "int \<Rightarrow> int \<Rightarrow> int" where
  "subscriber_counter_delta previous current = (if current < previous then 0 else sub64 current previous)"

definition saturating_add :: "int \<Rightarrow> int \<Rightarrow> int" where
  "saturating_add left right = (if right > 0 \<and> left > sub64 max_int64 right then max_int64 else add64 left right)"

definition mapping_of :: "id64 \<Rightarrow> subscriber_client_row \<Rightarrow> bool" where
  "mapping_of cid m \<longleftrightarrow> sc_client_id m = cid"

text \<open>The multipliers of the plan nodes of the user that lead to the proxy.\<close>

definition plan_multipliers :: "id64 \<Rightarrow> id64 \<Rightarrow> panel_db \<Rightarrow> int list" where
  "plan_multipliers uid pid d =
     [pub_multiplier n. p \<leftarrow> subscriber_profiles d, m \<leftarrow> plan_nodes d, n \<leftarrow> published_nodes d,
       sp_plan_id p = Some (pn_plan_id m) \<and> pub_id n = pn_node_id m \<and> sp_user_id p = uid \<and> pub_target_proxy n = pid]"

definition record_subscriber_charge :: "client_traffic_report \<Rightarrow> panel_db \<Rightarrow> subscription_error + panel_db" where
  "record_subscriber_charge rep d = (case sql_first (mapping_of (ctr_client_id rep)) (subscriber_clients d) of
     None \<Rightarrow> Inr d
   | Some m \<Rightarrow>
       (case plan_multipliers (sc_user_id m) (sc_proxy_id m) d of
          [bp] \<Rightarrow>
            (case validate_traffic_multiplier_bp bp of
               Inl e \<Rightarrow> Inl e
             | Inr _ \<Rightarrow>
               (case sql_first (\<lambda>x. cm_client_id x = ctr_client_id rep) (client_metrics d) of
                  None \<Rightarrow> Inr d
                | Some x \<Rightarrow>
                  (case apply_traffic_multiplier_delta (subscriber_counter_delta (cm_xray_up x) (ctr_uplink rep)) bp (sc_rem_up m) of
                     Inl e \<Rightarrow> Inl e
                   | Inr (up, rem_up) \<Rightarrow>
                     (case apply_traffic_multiplier_delta (subscriber_counter_delta (cm_xray_down x) (ctr_downlink rep)) bp (sc_rem_down m) of
                        Inl e \<Rightarrow> Inl e
                      | Inr (down, rem_down) \<Rightarrow>
                        if sc_charged_up m > sub64 max_int64 up \<or> sc_charged_down m > sub64 max_int64 down
                        then Inl ErrChargedOverflow
                        else Inr (d\<lparr>subscriber_clients := sql_update (mapping_of (ctr_client_id rep))
                          (\<lambda>r. r\<lparr>sc_charged_up := add64 (sc_charged_up m) up, sc_charged_down := add64 (sc_charged_down m) down,
                             sc_rem_up := rem_up, sc_rem_down := rem_down\<rparr>) (subscriber_clients d)\<rparr>)))))
        | _ \<Rightarrow> Inl ErrInvalidPlanNodes))"

section \<open>The cycle\<close>

definition subscriber_monthly_boundary :: "int \<Rightarrow> int \<Rightarrow> int \<Rightarrow> int \<Rightarrow> int \<Rightarrow> unix_time" where
  "subscriber_monthly_boundary year month day hour minute =
     (let last_day = t_day shanghai (go_date shanghai year (month + 1) 0 0 0 0);
          day' = (if day > last_day then last_day else day)
      in go_date shanghai year month day' hour minute 0)"

definition valid_reset_time :: "string \<Rightarrow> bool" where
  "valid_reset_time v = (case parse_hhmm v of None \<Rightarrow> False | Some (h, m) \<Rightarrow> format_hhmm h m = v)"

text \<open>\<open>parsed, _ := time.Parse(\<dots>)\<close>: on an error the zero time, which is midnight.\<close>

definition parsed_hm :: "string \<Rightarrow> int \<times> int" where
  "parsed_hm v = (case parse_hhmm v of None \<Rightarrow> (0, 0) | Some hm \<Rightarrow> hm)"

definition current_subscriber_cycle_start :: "unix_time \<Rightarrow> string \<Rightarrow> int \<Rightarrow> string \<Rightarrow> subscription_error + unix_time" where
  "current_subscriber_cycle_start now mode day time =
     (if mode = ''never'' then Inr now
      else if mode \<noteq> ''monthly'' \<or> day < 1 \<or> day > 31 \<or> \<not> valid_reset_time time then Inl ErrInvalidTrafficReset
      else
        let (h, m) = parsed_hm (trim_space time);
            boundary = subscriber_monthly_boundary (t_year shanghai now) (t_month shanghai now) day h m
        in if now < boundary then
             let previous = add_date shanghai now 0 (- 1) 0
             in Inr (subscriber_monthly_boundary (t_year shanghai previous) (t_month shanghai previous) day h m)
           else Inr boundary)"

definition next_subscriber_reset :: "unix_time \<Rightarrow> string \<Rightarrow> int \<Rightarrow> string \<Rightarrow> subscription_error + unix_time option" where
  "next_subscriber_reset now mode day time =
     (if mode = ''never'' then Inr None
      else case current_subscriber_cycle_start now mode day time of
        Inl e \<Rightarrow> Inl e
      | Inr current \<Rightarrow>
          let local = add_date shanghai current 0 1 0;
              (h, m) = parsed_hm time
          in Inr (Some (subscriber_monthly_boundary (t_year shanghai local) (t_month shanghai local) day h m)))"

definition subscriber_client_ids :: "id64 \<Rightarrow> panel_db \<Rightarrow> id64 list" where
  "subscriber_client_ids uid d = [sc_client_id m. m \<leftarrow> subscriber_clients d, sc_user_id m = uid]"

text \<open>The three statements that start a new cycle, in the order of \<open>resetSubscriberCycleIfDueTx\<close>.\<close>

definition start_subscriber_cycle :: "unix_time \<Rightarrow> unix_time \<Rightarrow> id64 \<Rightarrow> panel_db \<Rightarrow> panel_db" where
  "start_subscriber_cycle start now uid d = d\<lparr>
     subscriber_usage := sql_update (\<lambda>u. su_user_id u = uid)
       (\<lambda>u. u\<lparr>su_archived_up := 0, su_archived_down := 0, su_cycle_started := start, su_updated_at := now\<rparr>) (subscriber_usage d),
     subscriber_clients := sql_update (\<lambda>m. sc_user_id m = uid)
       (\<lambda>m. m\<lparr>sc_charged_up := 0, sc_charged_down := 0, sc_rem_up := 0, sc_rem_down := 0\<rparr>) (subscriber_clients d),
     client_metrics := sql_update (\<lambda>x. cm_client_id x \<in> set (subscriber_client_ids uid d))
       (\<lambda>x. x\<lparr>cm_cycle_up := 0, cm_cycle_down := 0, cm_cycle_started := start, cm_updated_at := now\<rparr>) (client_metrics d)\<rparr>"

definition reset_subscriber_cycle_if_due :: "unix_time \<Rightarrow> id64 \<Rightarrow> panel_db \<Rightarrow> subscription_error + (bool \<times> panel_db)" where
  "reset_subscriber_cycle_if_due now uid d =
     (case (sql_first (\<lambda>p. sp_user_id p = uid) (subscriber_profiles d), sql_first (\<lambda>u. su_user_id u = uid) (subscriber_usage d)) of
        (Some p, Some u) \<Rightarrow>
          if sp_reset_mode p = ''never'' then Inr (False, d)
          else (case current_subscriber_cycle_start now (sp_reset_mode p) (sp_reset_day p) (sp_reset_time p) of
              Inl e \<Rightarrow> Inl e
            | Inr start \<Rightarrow>
                if su_cycle_started u \<ge> start then Inr (False, d)
                else Inr (True, start_subscriber_cycle start now uid d))
      | _ \<Rightarrow> Inl ErrSubscriberNotFound)"

fun charged_total :: "int \<Rightarrow> subscriber_client_row list \<Rightarrow> int" where
  "charged_total used [] = used"
| "charged_total used (m # ms) = charged_total (saturating_add used (saturating_add (sc_charged_up m) (sc_charged_down m))) ms"

definition current_subscriber_usage :: "id64 \<Rightarrow> int \<Rightarrow> int \<Rightarrow> panel_db \<Rightarrow> int" where
  "current_subscriber_usage uid archived_up archived_down d =
     charged_total (saturating_add archived_up archived_down) (filter (\<lambda>m. sc_user_id m = uid) (subscriber_clients d))"

interpretation subscriber_counter: counter_delta subscriber_counter_delta
proof unfold_locales
  fix prev cur :: int
  assume r: "reading prev" "reading cur"
  have s: "sub64 cur prev = cur - prev"
    using r by (intro sub64_nonneg) (simp_all add: reading_def)
  show "0 \<le> subscriber_counter_delta prev cur" "subscriber_counter_delta prev cur \<le> cur"
    using r by (simp_all add: subscriber_counter_delta_def s reading_def)
  show "prev \<le> cur \<Longrightarrow> subscriber_counter_delta prev cur = cur - prev"
    "cur < prev \<Longrightarrow> subscriber_counter_delta prev cur = 0"
    by (simp_all add: subscriber_counter_delta_def s)
qed

section \<open>Charges are exact\<close>

definition multiplier :: "int \<Rightarrow> bool" where
  "multiplier bp \<longleftrightarrow> 10 \<le> bp \<and> bp \<le> 500"

definition hundredths :: "int \<Rightarrow> bool" where
  "hundredths r \<longleftrightarrow> 0 \<le> r \<and> r \<le> 99"

lemma validate_multiplier: "validate_traffic_multiplier_bp bp = (if multiplier bp then Inr bp else Inl ErrInvalidTrafficMultiplier)"
  by (auto simp: validate_traffic_multiplier_bp_def multiplier_def)

lemma charge_tail:
  assumes "reading delta" "multiplier bp" "hundredths r"
  shows "add64 (mul64 (rem64 delta 100) bp) r = delta mod 100 * bp + r"
    "0 \<le> delta mod 100 * bp + r" "delta mod 100 * bp + r \<le> 49599"
proof -
  have d: "0 \<le> delta mod 100" "delta mod 100 \<le> 99"
    by simp_all
  have m: "0 \<le> delta mod 100 * bp" "delta mod 100 * bp \<le> 49500"
    using d assms(2) mult_mono [of "delta mod 100" 99 bp 500] by (simp_all add: multiplier_def)
  then show "0 \<le> delta mod 100 * bp + r" "delta mod 100 * bp + r \<le> 49599"
    using assms(3) by (simp_all add: hundredths_def)
  have "rem64 delta 100 = delta mod 100"
    using assms(1) by (simp add: rem64_pos reading_def)
  moreover have "mul64 (delta mod 100) bp = delta mod 100 * bp"
    using m by (intro mul64_exact) (simp add: int64_bounds)
  moreover have "add64 (delta mod 100 * bp) r = delta mod 100 * bp + r"
    using m assms(3) by (intro add64_exact) (simp add: int64_bounds hundredths_def)
  ultimately show "add64 (mul64 (rem64 delta 100) bp) r = delta mod 100 * bp + r" by simp
qed

text \<open>\<open>whole > (MaxInt64-extra)/bp\<close> is exactly the overflow of \<open>whole*bp + extra\<close>.\<close>

lemma div_guard: "0 < b \<Longrightarrow> a > k div b \<longleftrightarrow> a * b > k" for a b k :: int
proof -
  assume b: "0 < b"
  have k: "b * (k div b) + k mod b = k" "0 \<le> k mod b" "k mod b < b"
    using b by simp_all
  show ?thesis
  proof
    assume "k div b < a"
    then have "b * (k div b + 1) \<le> b * a"
      using b by (intro mult_left_mono) simp_all
    then have "b * (k div b) + b \<le> b * a"
      by (simp add: distrib_left)
    then show "k < a * b"
      using k unfolding mult.commute [of a b] by linarith
  next
    assume "k < a * b"
    moreover have "b * a \<le> b * (k div b)" if "\<not> k div b < a"
      using b that by (intro mult_left_mono) simp_all
    ultimately show "k div b < a"
      using k unfolding mult.commute [of a b] by linarith
  qed
qed

lemma apply_multiplier_spec:
  assumes "reading delta" "multiplier bp" "hundredths r"
  shows "apply_traffic_multiplier_delta delta bp r =
    (if (delta * bp + r) div 100 > max_int64 then Inl ErrChargedOverflow
     else Inr ((delta * bp + r) div 100, (delta * bp + r) mod 100))"
proof -
  let ?t = "delta mod 100 * bp + r" and ?w = "delta div 100"
  note t = charge_tail [OF assms]
  have nonneg: "\<not> delta < 0" "\<not> r < 0" "\<not> r > 99" "0 \<le> ?w" "0 < bp"
    using assms by (simp_all add: reading_def hundredths_def multiplier_def pos_imp_zdiv_nonneg_iff)
  have w: "quot64 delta 100 = ?w" "quot64 ?t 100 = ?t div 100" "rem64 ?t 100 = ?t mod 100"
    using assms(1) t(2,3) by (simp_all add: quot64_pos rem64_pos reading_def max_int64_def)
  have e: "0 \<le> ?t div 100" "?t div 100 \<le> 495"
    using t(2,3) by (simp_all add: pos_imp_zdiv_nonneg_iff)
  have s: "sub64 max_int64 (?t div 100) = max_int64 - ?t div 100"
    using e by (simp add: sub64_nonneg max_int64_def)
  have q: "quot64 (max_int64 - ?t div 100) bp = (max_int64 - ?t div 100) div bp"
    using e nonneg(5) by (intro quot64_pos) (simp_all add: max_int64_def)
  have whole: "delta * bp + r = 100 * (?w * bp) + ?t"
    using mult_div_mod_eq [of 100 delta] by (metis (no_types, opaque_lifting) add.assoc distrib_right mult.assoc)
  have "(100 * x + y) div 100 = x + y div 100" "(100 * x + y) mod 100 = y mod 100" for x y :: int
    by simp_all
  then have dm: "(delta * bp + r) div 100 = ?w * bp + ?t div 100" "(delta * bp + r) mod 100 = ?t mod 100"
    unfolding whole by blast+
  have guard: "?w > (max_int64 - ?t div 100) div bp \<longleftrightarrow> ?w * bp + ?t div 100 > max_int64"
    using div_guard [OF nonneg(5), of "max_int64 - ?t div 100" ?w] by linarith
  have fits: "mul64 ?w bp = ?w * bp" "add64 (?w * bp) (?t div 100) = ?w * bp + ?t div 100"
    if "\<not> ?w * bp + ?t div 100 > max_int64"
  proof -
    have "0 \<le> ?w * bp"
      using nonneg by simp
    then show "mul64 ?w bp = ?w * bp" "add64 (?w * bp) (?t div 100) = ?w * bp + ?t div 100"
      using that e by (auto intro!: mul64_exact add64_exact simp: in64_def min_int64_def)
  qed
  show ?thesis
    using nonneg assms(2) fits
    by (simp add: apply_traffic_multiplier_delta_def validate_multiplier Let_def t(1) w s q guard dm)
qed

text \<open>A mapping row whose charge so far is a valid state of the accounting.\<close>

definition charge_ok :: "subscriber_client_row \<Rightarrow> bool" where
  "charge_ok m \<longleftrightarrow> reading (sc_charged_up m) \<and> reading (sc_charged_down m) \<and>
     hundredths (sc_rem_up m) \<and> hundredths (sc_rem_down m)"

text \<open>What the row owes, in hundredths of a byte.\<close>

definition owed_up :: "subscriber_client_row \<Rightarrow> int" where
  "owed_up m = 100 * sc_charged_up m + sc_rem_up m"

definition owed_down :: "subscriber_client_row \<Rightarrow> int" where
  "owed_down m = 100 * sc_charged_down m + sc_rem_down m"

lemma add_charge:
  assumes "reading c" "0 \<le> x"
  shows "x \<le> max_int64 \<Longrightarrow> c > sub64 max_int64 x \<longleftrightarrow> c + x > max_int64"
    "\<not> c + x > max_int64 \<Longrightarrow> add64 c x = c + x \<and> reading (c + x)"
  using assms guard_iff [of x c] by (auto simp: reading_def add64_def int64_bounds intro!: wrap64_id)

lemma charge_steps:
  assumes c: "reading c" and r: "hundredths r" and a: "apply_traffic_multiplier_delta delta bp r = Inr (x, r')"
    and d: "reading delta" and bp: "multiplier bp"
  shows "100 * x + r' = delta * bp + r" "0 \<le> x" "x \<le> max_int64" "hundredths r'"
proof -
  have eq: "\<not> (delta * bp + r) div 100 > max_int64" "x = (delta * bp + r) div 100" "r' = (delta * bp + r) mod 100"
    using a unfolding apply_multiplier_spec [OF d bp r] by (auto split: if_splits)
  show "100 * x + r' = delta * bp + r"
    unfolding eq(2,3) by simp
  have "0 \<le> delta * bp + r"
    using d bp r by (simp add: reading_def multiplier_def hundredths_def)
  then show "0 \<le> x" "x \<le> max_int64" "hundredths r'"
    unfolding hundredths_def using eq(1) by (simp_all add: eq(2,3) pos_imp_zdiv_nonneg_iff)
qed

text \<open>
  C3. A report of a subscriber's client charges both directions with the multiplier of the one
  plan node that leads to its proxy, and nothing is lost to rounding: what the row owes, in
  hundredths of a byte, grows by exactly the metered difference times the multiplier. The
  report fails only when a charge leaves \<open>int64\<close>, and touches no other row.
\<close>

theorem charge_is_exact:
  assumes "distinct (map sc_client_id (subscriber_clients d))" "m \<in> set (subscriber_clients d)" "charge_ok m"
    "sc_client_id m = ctr_client_id rep" "plan_multipliers (sc_user_id m) (sc_proxy_id m) d = [bp]" "multiplier bp"
    "sql_first (\<lambda>x. cm_client_id x = ctr_client_id rep) (client_metrics d) = Some x"
    "reading (cm_xray_up x)" "reading (cm_xray_down x)" "reading (ctr_uplink rep)" "reading (ctr_downlink rep)"
  defines "up \<equiv> max 0 (ctr_uplink rep - cm_xray_up x) * bp" and "down \<equiv> max 0 (ctr_downlink rep - cm_xray_down x) * bp"
  shows "(case record_subscriber_charge rep d of
      Inl e \<Rightarrow> e = ErrChargedOverflow \<and> ((owed_up m + up) div 100 > max_int64 \<or> (owed_down m + down) div 100 > max_int64)
    | Inr d' \<Rightarrow> \<exists>m'. charge_ok m' \<and> sc_client_id m' = sc_client_id m \<and> sc_user_id m' = sc_user_id m \<and>
        sc_proxy_id m' = sc_proxy_id m \<and> owed_up m' = owed_up m + up \<and> owed_down m' = owed_down m + down \<and>
        d' = d\<lparr>subscriber_clients := sql_update (mapping_of (ctr_client_id rep)) (\<lambda>_. m') (subscriber_clients d)\<rparr>)"
proof -
  let ?du = "subscriber_counter_delta (cm_xray_up x) (ctr_uplink rep)"
  let ?dd = "subscriber_counter_delta (cm_xray_down x) (ctr_downlink rep)"
  have first: "sql_first (mapping_of (ctr_client_id rep)) (subscriber_clients d) = Some m"
    unfolding mapping_of_def by (rule sql_first_key [OF assms(1,2,4)])
  have ok: "reading (sc_charged_up m)" "reading (sc_charged_down m)" "hundredths (sc_rem_up m)" "hundredths (sc_rem_down m)"
    using assms(3) by (simp_all add: charge_ok_def)
  have delta: "reading ?du" "reading ?dd" "?du * bp = up" "?dd * bp = down"
    using assms(8-11) subscriber_counter.delta_reading subscriber_counter.delta_max by (simp_all add: up_def down_def)
  have bp: "validate_traffic_multiplier_bp bp = Inr bp"
    using assms(6) by (simp add: validate_multiplier)
  have pos: "0 \<le> up" "0 \<le> down"
    using assms(6) by (simp_all add: up_def down_def multiplier_def)
  have owe: "(owed_up m + up) div 100 = sc_charged_up m + (up + sc_rem_up m) div 100"
    "(owed_down m + down) div 100 = sc_charged_down m + (down + sc_rem_down m) div 100"
  proof -
    have "(100 * a + b + c) div 100 = a + (c + b) div 100" for a b c :: int
      by (simp add: ac_simps)
    then show "(owed_up m + up) div 100 = sc_charged_up m + (up + sc_rem_up m) div 100"
      "(owed_down m + down) div 100 = sc_charged_down m + (down + sc_rem_down m) div 100"
      unfolding owed_up_def owed_down_def by blast+
  qed
  note au = apply_multiplier_spec [OF delta(1) assms(6) ok(3)] and ad = apply_multiplier_spec [OF delta(2) assms(6) ok(4)]
  show ?thesis
  proof (cases "(up + sc_rem_up m) div 100 > max_int64 \<or> (down + sc_rem_down m) div 100 > max_int64")
    case True
    then have "record_subscriber_charge rep d = Inl ErrChargedOverflow"
      using au ad delta(3,4) by (auto simp: record_subscriber_charge_def first assms(5,7) bp)
    moreover have "(owed_up m + up) div 100 > max_int64 \<or> (owed_down m + down) div 100 > max_int64"
      using True ok(1,2) unfolding owe by (auto simp: reading_def)
    ultimately show ?thesis by simp
  next
    case False
    let ?u = "(up + sc_rem_up m) div 100" and ?v = "(down + sc_rem_down m) div 100"
    have a: "apply_traffic_multiplier_delta ?du bp (sc_rem_up m) = Inr (?u, (up + sc_rem_up m) mod 100)"
      "apply_traffic_multiplier_delta ?dd bp (sc_rem_down m) = Inr (?v, (down + sc_rem_down m) mod 100)"
      using False au ad delta(3,4) by simp_all
    note su = charge_steps [OF ok(1,3) a(1) delta(1) assms(6)] and sd = charge_steps [OF ok(2,4) a(2) delta(2) assms(6)]
    note cu = add_charge [OF ok(1) su(2)] and cd = add_charge [OF ok(2) sd(2)]
    have gu: "sc_charged_up m > sub64 max_int64 ?u \<longleftrightarrow> (owed_up m + up) div 100 > max_int64"
      "sc_charged_down m > sub64 max_int64 ?v \<longleftrightarrow> (owed_down m + down) div 100 > max_int64"
      unfolding owe using cu(1) [OF su(3)] cd(1) [OF sd(3)] by blast+
    show ?thesis
    proof (cases "(owed_up m + up) div 100 > max_int64 \<or> (owed_down m + down) div 100 > max_int64")
      case True
      then have "record_subscriber_charge rep d = Inl ErrChargedOverflow"
        using gu by (auto simp: record_subscriber_charge_def first assms(5,7) bp a)
      with True show ?thesis by simp
    next
      case no: False
      define m' where "m' = m\<lparr>sc_charged_up := add64 (sc_charged_up m) ?u, sc_charged_down := add64 (sc_charged_down m) ?v,
          sc_rem_up := (up + sc_rem_up m) mod 100, sc_rem_down := (down + sc_rem_down m) mod 100\<rparr>"
      have sums: "add64 (sc_charged_up m) ?u = sc_charged_up m + ?u \<and> reading (sc_charged_up m + ?u)"
        "add64 (sc_charged_down m) ?v = sc_charged_down m + ?v \<and> reading (sc_charged_down m + ?v)"
        using cu(2) cd(2) no unfolding owe by blast+
      have "record_subscriber_charge rep d = Inr (d\<lparr>subscriber_clients := sql_update (mapping_of (ctr_client_id rep))
          (\<lambda>r. r\<lparr>sc_charged_up := add64 (sc_charged_up m) ?u, sc_charged_down := add64 (sc_charged_down m) ?v,
             sc_rem_up := (up + sc_rem_up m) mod 100, sc_rem_down := (down + sc_rem_down m) mod 100\<rparr>) (subscriber_clients d)\<rparr>)"
        using gu no by (simp add: record_subscriber_charge_def first assms(5,7) bp a)
      also have "\<dots> = Inr (d\<lparr>subscriber_clients := sql_update (mapping_of (ctr_client_id rep)) (\<lambda>_. m') (subscriber_clients d)\<rparr>)"
        unfolding m'_def mapping_of_def
        by (subst sql_update_key [OF assms(1) first [unfolded mapping_of_def]]) (rule refl)
      finally have rec: "record_subscriber_charge rep d =
          Inr (d\<lparr>subscriber_clients := sql_update (mapping_of (ctr_client_id rep)) (\<lambda>_. m') (subscriber_clients d)\<rparr>)" .
      have "owed_up m' = owed_up m + up" "owed_down m' = owed_down m + down" "charge_ok m'"
        using sums su(1,4) sd(1,4) delta(3,4) by (simp_all add: m'_def owed_up_def owed_down_def charge_ok_def)
      then show ?thesis
        unfolding rec by (auto simp: m'_def intro!: exI [of _ m'])
    qed
  qed
qed

section \<open>The clock of the code\<close>

text \<open>\<open>AddDate(0, j, 0)\<close> keeps the day of the month, and so runs into the month after.\<close>

lemma add_months_idx:
  fixes off t j :: int
  defines "k \<equiv> monthly_idx off t + j"
  shows "monthly_idx off (add_date off t 0 j 0) = (if t_day off t \<le> index_len k then k else k + 1)"
proof -
  let ?y = "t_year off t" and ?m = "t_month off t + j" and ?d = "t_day off t"
  have hm: "valid_hm (t_hour off t * 3600 + t_minute off t * 60 + t_second off t)"
    unfolding hms_split valid_hm_def using local_secs_range by blast
  have k: "12 * ?y + ?m - 1 = k"
    unfolding k_def monthly_idx_fields by simp
  have day: "local_day off (add_date off t 0 j 0) = month_start k + ?d - 1"
    using local_day_date(1) [OF hm, of off ?y ?m ?d] unfolding k by (simp add: add_date_def)
  have d: "1 \<le> ?d" "?d \<le> 31"
    using t_day_range by blast+
  have len: "28 \<le> index_len k" "28 \<le> index_len (k + 1)"
    using index_len_range by blast+
  show ?thesis
  proof (cases "?d \<le> index_len k")
    case True
    have "month_index (month_start k + ?d - 1) = k"
      by (rule month_index_unique) (use True d month_start_Suc [of k] in linarith)+
    with True show ?thesis
      by (simp add: monthly_idx_def day)
  next
    case False
    have "month_index (month_start k + ?d - 1) = k + 1"
      by (rule month_index_unique) (use False d len month_start_Suc [of k] month_start_Suc [of "k + 1"] in linarith)+
    with False show ?thesis
      by (simp add: monthly_idx_def day)
  qed
qed

lemma bnd_t_day:
  assumes "1 \<le> day" "valid_hm hm"
  shows "t_day off (monthly_bnd off day hm k) = min day (index_len k)"
proof -
  have hm: "0 \<le> hm" "hm < 86400"
    using assms(2) by (simp_all add: valid_hm_def)
  have "local_day off (monthly_bnd off day hm k) = month_start k + min day (index_len k) - 1"
    unfolding monthly_bnd_def by (rule local_of_date(1) [OF hm])
  moreover have "day_of (month_start k + j - 1) = j" if "1 \<le> j" "j \<le> index_len k" for j
  proof -
    have "month_index (month_start k + j - 1) = k"
      by (rule month_index_unique) (use that month_start_Suc [of k] in linarith)+
    then show ?thesis
      using month_start_of_index [of "month_start k + j - 1"] by simp
  qed
  ultimately show ?thesis
    using assms(1) index_len_range(1) [of k] by (simp add: t_day_def)
qed

lemma valid_reset_time_fields:
  assumes "valid_reset_time time"
  obtains h m where "parsed_hm time = (h, m)" "parsed_hm (trim_space time) = (h, m)" "reset_secs time = h * 3600 + m * 60"
proof -
  obtain h m where hm: "parse_hhmm time = Some (h, m)" "format_hhmm h m = time"
    using assms by (auto simp: valid_reset_time_def split: option.splits)
  have r: "0 \<le> h" "h < 24" "0 \<le> m" "m < 60"
    using parse_hhmm_range [OF hm(1)] by simp_all
  have plain: "plain_char (digit_char n)" if "0 \<le> n" "n < 10" for n
    using digit_char_simps(1) [OF that] by (simp add: plain_char_def is_digit_def)
  have "trim_space time = time"
  proof (rule trim_space_plain)
    show "time \<noteq> []" "plain_char (hd time)" "plain_char (last time)"
      using r plain [of "h div 10"] plain [of "m mod 10"] by (simp_all add: format_hhmm_def flip: hm(2))
  qed
  with hm that show ?thesis
    by (simp add: parsed_hm_def reset_secs_def)
qed

lemma boundary_bnd:
  "1 \<le> mo \<Longrightarrow> mo \<le> 12 \<Longrightarrow> subscriber_monthly_boundary y mo day h m = monthly_bnd shanghai day (h * 3600 + m * 60) (12 * y + mo - 1)"
  using clamped_date_bnd [of mo shanghai y day h m 0]
  by (simp add: subscriber_monthly_boundary_def clamped_date_def)

lemma boundary_of_time:
  assumes "reset_secs time = h * 3600 + m * 60"
  shows "subscriber_monthly_boundary (t_year shanghai t) (t_month shanghai t) day h m = month_reset day time (monthly_idx shanghai t)"
  by (simp only: boundary_bnd [OF t_month_range] monthly_idx_fields assms)

text \<open>The month the code takes the boundary from.\<close>

definition start_idx :: "int \<Rightarrow> string \<Rightarrow> unix_time \<Rightarrow> int" where
  "start_idx day time now = (let k = monthly_idx shanghai now in
     if now < month_reset day time k \<and> t_day shanghai now \<le> index_len (k - 1) then k - 1 else k)"

definition next_idx :: "int \<Rightarrow> int \<Rightarrow> int" where
  "next_idx day j = (if min day (index_len j) \<le> index_len (j + 1) then j + 1 else j + 2)"

lemma subscriber_start_eq:
  assumes "1 \<le> day" "day \<le> 31" "valid_reset_time time"
  shows "current_subscriber_cycle_start now ''monthly'' day time = Inr (month_reset day time (start_idx day time now))"
proof -
  obtain h m where hm: "parsed_hm (trim_space time) = (h, m)" "reset_secs time = h * 3600 + m * 60"
    by (rule valid_reset_time_fields [OF assms(3)])
  have p: "monthly_idx shanghai (add_date shanghai now 0 (- 1) 0) =
      (if t_day shanghai now \<le> index_len (monthly_idx shanghai now - 1) then monthly_idx shanghai now - 1
       else monthly_idx shanghai now)"
    using add_months_idx [of shanghai now "- 1"] by simp
  show ?thesis
    using assms by (simp add: current_subscriber_cycle_start_def hm(1) boundary_of_time [OF hm(2)] p start_idx_def Let_def)
qed

lemma subscriber_next_eq:
  assumes "1 \<le> day" "day \<le> 31" "valid_reset_time time"
  shows "next_subscriber_reset now ''monthly'' day time =
    Inr (Some (month_reset day time (next_idx day (start_idx day time now))))"
proof -
  obtain h m where hm: "parsed_hm time = (h, m)" "reset_secs time = h * 3600 + m * 60"
    by (rule valid_reset_time_fields [OF assms(3)])
  let ?c = "month_reset day time (start_idx day time now)"
  have c: "monthly_idx shanghai ?c = start_idx day time now" "t_day shanghai ?c = min day (index_len (start_idx day time now))"
    by (rule monthly_idx_bnd [OF assms(1) valid_hm_reset_secs], rule bnd_t_day [OF assms(1) valid_hm_reset_secs])
  have "monthly_idx shanghai (add_date shanghai ?c 0 1 0) = next_idx day (start_idx day time now)"
    using add_months_idx [of shanghai ?c 1] by (simp add: c next_idx_def)
  then show ?thesis
    by (simp add: next_subscriber_reset_def subscriber_start_eq [OF assms] hm(1) boundary_of_time [OF hm(2)])
qed

text \<open>
  C33. The subscriber clock, exactly: the cycle start is the reset instant of the current month,
  or of the month before when that instant is still to come and the month before has a day of
  today's number; the next reset is the instant of the following month, or of the one after it
  when the following month is shorter than the reset day reached. So for reset days and days of
  the month up to 28 both are the monthly clock's, and the start can only be wrong by being the
  next reset itself, in the future.
\<close>

theorem subscriber_clock:
  assumes "1 \<le> day" "day \<le> 31" "valid_reset_time time"
  shows "current_subscriber_cycle_start now ''monthly'' day time = Inr (month_reset day time (start_idx day time now)) \<and>
    next_subscriber_reset now ''monthly'' day time = Inr (Some (month_reset day time (next_idx day (start_idx day time now)))) \<and>
    (if now < month_reset day time (start_idx day time now)
     then month_reset day time (start_idx day time now) = traffic_next day time now
     else month_reset day time (start_idx day time now) = traffic_cycle day time now) \<and>
    (t_day shanghai now \<le> 28 \<longrightarrow> month_reset day time (start_idx day time now) = traffic_cycle day time now) \<and>
    (t_day shanghai now \<le> 28 \<and> day \<le> 28 \<longrightarrow>
       month_reset day time (next_idx day (start_idx day time now)) = traffic_next day time now)"
proof -
  let ?k = "monthly_idx shanghai now" and ?b = "month_reset day time" and ?i = "start_idx day time now"
  have le: "traffic_cycle day time now \<le> now"
    by (rule reset_clock.start_le [OF month_reset_clock [OF assms(1)]])
  have len: "28 \<le> index_len j" for j
    by (rule index_len_range)
  have cases: "?b ?k \<le> now \<and> ?i = ?k \<and> traffic_cycle day time now = ?b ?k \<and> traffic_next day time now = ?b (?k + 1) \<or>
      now < ?b ?k \<and> ?i = ?k - 1 \<and> traffic_cycle day time now = ?b (?k - 1) \<and> traffic_next day time now = ?b ?k \<or>
      now < ?b ?k \<and> ?i = ?k \<and> traffic_next day time now = ?b ?k \<and> 28 < t_day shanghai now"
    using len [of "?k - 1"] by (auto simp: start_idx_def cycle_start_def cycle_next_def Let_def)
  then have start: "(if now < ?b ?i then ?b ?i = traffic_next day time now else ?b ?i = traffic_cycle day time now) \<and>
      (t_day shanghai now \<le> 28 \<longrightarrow> ?b ?i = traffic_cycle day time now)"
    using le by auto
  have next28: "next_idx day j = j + 1" if "day \<le> 28" for j
    using that len [of "j + 1"] len [of j] by (simp add: next_idx_def)
  have "t_day shanghai now \<le> 28 \<and> day \<le> 28 \<longrightarrow> ?b (next_idx day ?i) = traffic_next day time now"
    using cases next28 [of ?i] by auto
  with start show ?thesis
    using subscriber_start_eq [OF assms] subscriber_next_eq [OF assms] by blast
qed

lemma noon: "valid_reset_time ''12:00''" "reset_secs ''12:00'' = 43200"
  by code_simp+

theorem subscriber_clock_witness:
  "current_subscriber_cycle_start 1739116800 ''monthly'' 15 ''12:00'' = Inr (traffic_cycle 15 ''12:00'' 1739116800)"
proof -
  have "t_day shanghai 1739116800 \<le> 28"
    by (simp add: t_day_def local_day_def shanghai_def day_of_def yday_of_def month_of_def month_of_yday_def year_of_def
        days_before_year_def days_before_month_def leaps_def leap_def Let_def)
  with subscriber_clock [of 15 "''12:00''" 1739116800] noon(1) show ?thesis by simp
qed

lemmas calendar_defs = monthly_idx_def month_index_def monthly_bnd_def month_start_def index_len_def month_len_def
  t_day_def local_day_def shanghai_def day_of_def yday_of_def month_of_def month_of_yday_def year_of_def days_of_def
  days_before_year_def days_before_month_def leaps_def leap_def Let_def

lemma march_31: "monthly_idx shanghai 1743352200 = 24302" "t_day shanghai 1743352200 = 31" "index_len 24301 = 28"
  "month_reset 31 ''12:00'' 24302 = 1743393600"
  by (simp_all add: calendar_defs noon)

lemma february_10: "monthly_idx shanghai 1739116800 = 24301" "t_day shanghai 1739116800 = 10" "index_len 24300 = 31"
  "month_reset 31 ''12:00'' 24301 = 1740715200"
  by (simp_all add: calendar_defs noon)

text \<open>
  Both deviations of \<open>subscriber_clock\<close> occur. On 31 March 2025 at 00:30, with resets on the 31st at
  12:00, the cycle start is 12:00 of that day, in the future, so a cycle whose stored start is
  the reset of February is reset eleven and a half hours early. On 10 February the next reset
  is announced for 31 March, although the cycle of February ends on the 28th.
\<close>

theorem subscriber_clock_deviates:
  "current_subscriber_cycle_start 1743352200 ''monthly'' 31 ''12:00'' = Inr 1743393600 \<and>
   traffic_cycle 31 ''12:00'' 1743352200 = 1740715200 \<and>
   next_subscriber_reset 1739116800 ''monthly'' 31 ''12:00'' = Inr (Some 1743393600) \<and>
   traffic_next 31 ''12:00'' 1739116800 = 1740715200"
proof -
  have "start_idx 31 ''12:00'' 1743352200 = 24302"
    by (simp add: start_idx_def march_31)
  then have "current_subscriber_cycle_start 1743352200 ''monthly'' 31 ''12:00'' = Inr 1743393600"
    using subscriber_start_eq [of 31 "''12:00''" 1743352200] by (simp add: noon(1) march_31)
  moreover have "start_idx 31 ''12:00'' 1739116800 = 24300" "next_idx 31 24300 = 24302"
    by (simp_all add: start_idx_def next_idx_def february_10 march_31)
  then have "next_subscriber_reset 1739116800 ''monthly'' 31 ''12:00'' = Inr (Some 1743393600)"
    using subscriber_next_eq [of 31 "''12:00''" 1739116800] by (simp add: noon(1) march_31)
  ultimately show ?thesis
    by (simp add: cycle_start_def cycle_next_def march_31 february_10)
qed

section \<open>Witnesses\<close>

definition charged_client :: subscriber_client_row where
  "charged_client = \<lparr>sc_user_id = 5, sc_proxy_id = 7, sc_client_id = 9, sc_charged_up = 10, sc_charged_down = 0,
     sc_rem_up = 60, sc_rem_down = 0\<rparr>"

definition usage_db :: panel_db where
  "usage_db = empty_db\<lparr>subscriber_clients := [charged_client],
     client_metrics := [\<lparr>cm_client_id = 9, cm_xray_up = 100, cm_xray_down = 50, cm_cycle_up = 0, cm_cycle_down = 0,
       cm_cycle_started = 0, cm_last_activity = None, cm_updated_at = 0\<rparr>],
     subscriber_profiles := [\<lparr>sp_user_id = 5, sp_plan_id = Some 3, sp_enabled = True, sp_expires_at = None,
       sp_reset_mode = ''monthly'', sp_reset_day = 1, sp_reset_time = ''00:00'', sp_billing = None, sp_token = ''t''\<rparr>],
     plan_nodes := [\<lparr>pn_plan_id = 3, pn_node_id = 4\<rparr>],
     published_nodes := [\<lparr>pub_id = 4, pub_target_proxy = 7, pub_multiplier = 150,
       pub_mode = ''direct'', pub_source_server = None, pub_enabled = True, pub_created_at = 0, pub_relay = None\<rparr>]\<rparr>"

theorem charge_is_exact_witness:
  "\<exists>d' m'. record_subscriber_charge \<lparr>ctr_client_id = 9, ctr_uplink = 103, ctr_downlink = 20\<rparr> usage_db = Inr d' \<and>
    sc_charged_up m' = 15 \<and> sc_rem_up m' = 10 \<and> subscriber_clients d' = [m']"
proof -
  let ?rep = "\<lparr>ctr_client_id = 9, ctr_uplink = 103, ctr_downlink = 20\<rparr>"
  let ?x = "\<lparr>cm_client_id = 9, cm_xray_up = 100, cm_xray_down = 50, cm_cycle_up = 0, cm_cycle_down = 0,
       cm_cycle_started = 0, cm_last_activity = None, cm_updated_at = 0\<rparr>"
  have side: "distinct (map sc_client_id (subscriber_clients usage_db))" "charged_client \<in> set (subscriber_clients usage_db)"
    "charge_ok charged_client" "sc_client_id charged_client = ctr_client_id ?rep"
    "plan_multipliers (sc_user_id charged_client) (sc_proxy_id charged_client) usage_db = [150]" "multiplier 150"
    "sql_first (\<lambda>x. cm_client_id x = ctr_client_id ?rep) (client_metrics usage_db) = Some ?x"
    "reading (cm_xray_up ?x)" "reading (cm_xray_down ?x)" "reading (ctr_uplink ?rep)" "reading (ctr_downlink ?rep)"
    by (simp_all add: usage_db_def charged_client_def charge_ok_def reading_def max_int64_def hundredths_def
        plan_multipliers_def multiplier_def sql_first_def)
  have owed: "(owed_up charged_client + max 0 (ctr_uplink ?rep - cm_xray_up ?x) * 150) div 100 \<le> max_int64"
    "(owed_down charged_client + max 0 (ctr_downlink ?rep - cm_xray_down ?x) * 150) div 100 \<le> max_int64"
    by (simp_all add: owed_up_def owed_down_def charged_client_def max_int64_def)
  obtain d' m' where r: "record_subscriber_charge ?rep usage_db = Inr d'" "charge_ok m'" "sc_client_id m' = 9"
      "owed_up m' = 1510" "d' = usage_db\<lparr>subscriber_clients := sql_update (mapping_of 9) (\<lambda>_. m') (subscriber_clients usage_db)\<rparr>"
    using charge_is_exact [OF side] owed
    by (auto simp: owed_up_def owed_down_def charged_client_def split: sum.splits)
  have rem: "100 * sc_charged_up m' + sc_rem_up m' = 1510" "0 \<le> sc_rem_up m'" "sc_rem_up m' \<le> 99"
    using r(2,4) by (simp_all add: owed_up_def charge_ok_def hundredths_def)
  then have "sc_charged_up m' = 15"
    by presburger
  with rem have "sc_charged_up m' = 15" "sc_rem_up m' = 10"
    by simp_all
  moreover have "subscriber_clients d' = [m']"
    by (simp add: r(5) usage_db_def sql_update_def mapping_of_def charged_client_def)
  ultimately show ?thesis
    using r(1) by blast
qed

end
