(* ===== verification/SubscriberReconcile.thy ===== *)
theory SubscriberReconcile
  imports SubscriberUsage Operations "HOL-Library.Multiset"
begin

text \<open>
  Reconciliation of a subscriber (\<open>reconcileSubscriberTx\<close> and its callers,
  \<open>panel/internal/subscription/subscriber.go\<close> and \<open>usage.go\<close>, with
  \<open>panel/internal/proxy/subscriber.go\<close>): the clients a plan requires are created, the others
  are deleted after their usage is archived, and all are switched on or off with the quota.

  A Go map is iterated in an unspecified order; \<open>shuffle\<close> is that order, any permutation.
  \<open>credential\<close> is the result of \<open>newCredentialForProxy\<close>, which draws random keys.
\<close>

section \<open>Creating and deleting a client\<close>

definition validate_name :: "string \<Rightarrow> proxy_error + string" where
  "validate_name value = (let v = trim_space value in if v = [] \<or> rune_count v > 100 then Inl ErrInvalidName else Inr v)"

definition require_admin_created_proxy :: "id64 \<Rightarrow> panel_db \<Rightarrow> proxy_error option" where
  "require_admin_created_proxy pid d =
     (case [srv_created_role s. p \<leftarrow> proxies d, s \<leftarrow> servers d,
         srv_id s = prx_server_id p \<and> prx_id p = pid \<and> srv_archived_at s = None] of
        [] \<Rightarrow> Some ErrProxyNotFound
      | role # _ \<Rightarrow> if role \<noteq> ''admin'' then Some ErrNotDistributable else None)"

definition get_proxy_for_mutation :: "id64 \<Rightarrow> panel_db \<Rightarrow> proxy_error + proxy_row" where
  "get_proxy_for_mutation pid d =
     (case [(p, srv_decom_status s). p \<leftarrow> proxies d, s \<leftarrow> servers d,
         srv_id s = prx_server_id p \<and> prx_id p = pid \<and> srv_archived_at s = None] of
        [] \<Rightarrow> Inl ErrProxyNotFound
      | (p, status) # _ \<Rightarrow> if status \<noteq> [] then Inl ErrServerDecommissioning else Inr p)"

definition create_subscriber_client ::
  "(proxy_row \<Rightarrow> proxy_error + string) \<Rightarrow> unix_time \<Rightarrow> id64 \<Rightarrow> id64 \<Rightarrow> string \<Rightarrow> bool \<Rightarrow> panel_db \<Rightarrow>
    proxy_error + ((id64 \<times> id64) \<times> panel_db)" where
  "create_subscriber_client credential now uid pid name effective d =
     (case validate_name name of
        Inl e \<Rightarrow> Inl e
      | Inr name' \<Rightarrow>
        (case sql_first (\<lambda>u. usr_id u = uid) (users (accounts d)) of
           None \<Rightarrow> Inl ErrAssignmentUserNotFound
         | Some u \<Rightarrow>
           if usr_role u \<noteq> ''subscriber'' then Inl ErrInvalidAssignmentRole
           else (case require_admin_created_proxy pid d of
               Some e \<Rightarrow> Inl e
             | None \<Rightarrow>
               (case get_proxy_for_mutation pid d of
                  Inl e \<Rightarrow> Inl e
                | Inr p \<Rightarrow>
                  (case credential p of
                     Inl e \<Rightarrow> Inl e
                   | Inr cred \<Rightarrow>
                     let cid = clients_seq d + 1 in
                     Inr ((cid, prx_server_id p), d\<lparr>clients_seq := cid, clients := clients d @
                       [\<lparr>cli_id = cid, cli_proxy_id = pid, cli_assigned_user = Some uid, cli_enabled = True,
                         cli_expires_at = None, cli_limit = None, cli_reset_mode = ''never'', cli_reset_weekday = 1,
                         cli_reset_day = 1, cli_reset_time = ''00:00'', cli_effective = effective, cli_updated_at = now,
                         cli_name = name', cli_credential = cred,
                         cli_udp443 = False, cli_billing = None, cli_created_at = now\<rparr>]\<rparr>))))))"

text \<open>
  \<open>DELETE FROM clients\<close> with the actions of the foreign keys: a relay that starts at the
  client restricts it, relays to it lose their target, its mapping, metrics and relay ports go,
  and the trigger of \<open>client_relay_ports\<close> releases the reserved listeners.
\<close>

definition delete_client :: "id64 \<Rightarrow> panel_db \<Rightarrow> subscription_error + panel_db" where
  "delete_client cid d =
     (if sql_exists (\<lambda>r. rel_source_client r = Some cid) (relays d) then Inl ErrForeignKey
      else Inr (d\<lparr>clients := sql_delete (\<lambda>c. cli_id c = cid) (clients d),
        client_metrics := sql_delete (\<lambda>x. cm_client_id x = cid) (client_metrics d),
        subscriber_clients := sql_delete (mapping_of cid) (subscriber_clients d),
        relays := sql_update (\<lambda>r. rel_target_client r = Some cid) (\<lambda>r. r\<lparr>rel_target_client := None\<rparr>) (relays d),
        reservations := sql_delete (\<lambda>v. res_type v = ''client_relay'' \<and> res_resource_id v = cid \<and>
          sql_exists (\<lambda>p. crp_client_id p = cid \<and> crp_port p = res_port v) (relay_ports d)) (reservations d),
        relay_ports := sql_delete (\<lambda>p. crp_client_id p = cid) (relay_ports d)\<rparr>))"

section \<open>Reconciliation\<close>

record required_proxy =
  rq_server :: id64
  rq_name :: string
  rq_distributable :: bool

record existing_client =
  ex_client :: id64
  ex_server :: id64
  ex_effective :: bool
  ex_up :: int
  ex_down :: int

text \<open>A Go map built from rows: later rows overwrite, keys come in the order of \<open>shuffle\<close>.\<close>

definition go_map :: "('k \<times> 'v) list \<Rightarrow> 'k \<rightharpoonup> 'v" where
  "go_map rows = map_of (rev rows)"

definition go_entries :: "('k list \<Rightarrow> 'k list) \<Rightarrow> ('k \<times> 'v) list \<Rightarrow> ('k \<times> 'v) list" where
  "go_entries shuffle rows = map (\<lambda>k. (k, the (go_map rows k))) (shuffle (remdups (map fst rows)))"

definition source_role :: "published_node_row \<Rightarrow> panel_db \<Rightarrow> string" where
  "source_role n d = (case sql_first (\<lambda>s. pub_source_server n = Some (srv_id s)) (servers d) of
     None \<Rightarrow> [] | Some s \<Rightarrow> srv_created_role s)"

definition required_rows :: "id64 \<Rightarrow> panel_db \<Rightarrow> (id64 \<times> required_proxy) list" where
  "required_rows plan d =
     [(prx_id p, \<lparr>rq_server = prx_server_id p, rq_name = prx_name p,
        rq_distributable = (srv_created_role s = ''admin'' \<and> (pub_mode n = ''direct'' \<or> source_role n d = ''admin''))\<rparr>).
      m \<leftarrow> plan_nodes d, n \<leftarrow> published_nodes d, p \<leftarrow> proxies d, s \<leftarrow> servers d,
      pub_id n = pn_node_id m \<and> prx_id p = pub_target_proxy n \<and> srv_id s = prx_server_id p \<and>
      pn_plan_id m = plan \<and> pub_enabled n \<and> srv_archived_at s = None]"

definition existing_rows :: "id64 \<Rightarrow> panel_db \<Rightarrow> (id64 \<times> existing_client) list" where
  "existing_rows uid d =
     [(sc_proxy_id m, \<lparr>ex_client = sc_client_id m, ex_server = prx_server_id p, ex_effective = cli_effective c,
        ex_up = sc_charged_up m, ex_down = sc_charged_down m\<rparr>).
      m \<leftarrow> subscriber_clients d, c \<leftarrow> clients d, p \<leftarrow> proxies d,
      cli_id c = sc_client_id m \<and> prx_id p = sc_proxy_id m \<and> sc_user_id m = uid]"

record reconcile_state =
  rs_db :: panel_db
  rs_up :: int
  rs_down :: int
  rs_affected :: "id64 list"

definition reconcile_existing ::
  "unix_time \<Rightarrow> id64 \<Rightarrow> bool \<Rightarrow> (id64 \<rightharpoonup> required_proxy) \<Rightarrow> id64 \<times> existing_client \<Rightarrow> reconcile_state \<Rightarrow>
    subscription_error + reconcile_state" where
  "reconcile_existing now uid active required entry st =
     (let (pid, e) = entry; d = rs_db st in
      if required pid = None then
        let up = saturating_add (rs_up st) (ex_up e);
            down = saturating_add (rs_down st) (ex_down e);
            d1 = d\<lparr>subscriber_usage := sql_update (\<lambda>u. su_user_id u = uid)
              (\<lambda>u. u\<lparr>su_archived_up := up, su_archived_down := down, su_updated_at := now\<rparr>) (subscriber_usage d)\<rparr>
        in case delete_client (ex_client e) d1 of
             Inl err \<Rightarrow> Inl err
           | Inr d2 \<Rightarrow> Inr \<lparr>rs_db = d2, rs_up = up, rs_down = down, rs_affected = ex_server e # rs_affected st\<rparr>
      else if ex_effective e \<noteq> active then
        Inr (st\<lparr>rs_db := d\<lparr>clients := sql_update (\<lambda>c. cli_id c = ex_client e)
          (\<lambda>c. c\<lparr>cli_effective := active, cli_updated_at := now\<rparr>) (clients d)\<rparr>,
          rs_affected := ex_server e # rs_affected st\<rparr>)
      else Inr st)"

definition subscriber_client_name :: "string \<Rightarrow> string \<Rightarrow> string" where
  "subscriber_client_name username proxy_name =
     (let value = ''sub-'' @ trim_space username @ ''-'' @ trim_space proxy_name
      in if rune_count value \<le> 100 then value else take_runes 100 value)"

definition reconcile_required ::
  "(proxy_row \<Rightarrow> proxy_error + string) \<Rightarrow> unix_time \<Rightarrow> id64 \<Rightarrow> string \<Rightarrow> bool \<Rightarrow> (id64 \<rightharpoonup> existing_client) \<Rightarrow>
    id64 \<times> required_proxy \<Rightarrow> reconcile_state \<Rightarrow> subscription_error + reconcile_state" where
  "reconcile_required credential now uid username active existing entry st =
     (let (pid, target) = entry in
      if existing pid \<noteq> None then Inr st
      else if \<not> rq_distributable target then Inl ErrServerNotDistributable
      else case create_subscriber_client credential now uid pid (subscriber_client_name username (rq_name target)) active (rs_db st) of
        Inl e \<Rightarrow> Inl (ErrProxy e)
      | Inr ((cid, sid), d) \<Rightarrow>
          if sql_exists (\<lambda>m. sc_user_id m = uid \<and> sc_proxy_id m = pid \<or> sc_client_id m = cid) (subscriber_clients d)
          then Inl ErrUniqueKey
          else Inr (st\<lparr>rs_db := d\<lparr>subscriber_clients := subscriber_clients d @
              [\<lparr>sc_user_id = uid, sc_proxy_id = pid, sc_client_id = cid, sc_charged_up = 0, sc_charged_down = 0,
                sc_rem_up = 0, sc_rem_down = 0\<rparr>]\<rparr>,
            rs_affected := sid # rs_affected st\<rparr>))"

text \<open>The row of the joined tables: username, profile, plan of the left join, usage.\<close>

definition subscriber_row ::
  "id64 \<Rightarrow> panel_db \<Rightarrow> (user_row \<times> subscriber_profile_row \<times> plan_row option \<times> subscriber_usage_row) option" where
  "subscriber_row uid d =
     (case (sql_first (\<lambda>p. sp_user_id p = uid) (subscriber_profiles d),
            sql_first (\<lambda>u. usr_id u = uid \<and> usr_role u = ''subscriber'') (users (accounts d)),
            sql_first (\<lambda>u. su_user_id u = uid) (subscriber_usage d)) of
        (Some p, Some u, Some v) \<Rightarrow> Some (u, p, sql_first (\<lambda>q. sp_plan_id p = Some (pln_id q)) (plans d), v)
      | _ \<Rightarrow> None)"

definition subscriber_active :: "unix_time \<Rightarrow> subscriber_profile_row \<Rightarrow> plan_row option \<Rightarrow> int \<Rightarrow> bool" where
  "subscriber_active now p plan used =
     (let exhausted = (case plan of Some q \<Rightarrow> (case pln_limit q of Some l \<Rightarrow> used \<ge> l | None \<Rightarrow> False) | None \<Rightarrow> False)
      in sp_enabled p \<and> sp_plan_id p \<noteq> None \<and> (case plan of Some q \<Rightarrow> pln_enabled q | None \<Rightarrow> False) \<and>
         (case sp_expires_at p of None \<Rightarrow> True | Some t \<Rightarrow> now < t) \<and> \<not> exhausted)"

definition reconcile_subscriber_tx ::
  "(id64 list \<Rightarrow> id64 list) \<Rightarrow> (proxy_row \<Rightarrow> proxy_error + string) \<Rightarrow> unix_time \<Rightarrow> id64 \<Rightarrow> id64 list \<times> panel_db \<Rightarrow>
    subscription_error + (id64 list \<times> panel_db)" where
  "reconcile_subscriber_tx shuffle credential now uid st =
     (case reset_subscriber_cycle_if_due now uid (snd st) of
        Inl e \<Rightarrow> Inl e
      | Inr (_, d) \<Rightarrow>
        (case subscriber_row uid d of
           None \<Rightarrow> Inl ErrSubscriberNotFound
         | Some (u, p, plan, v) \<Rightarrow>
           let used = current_subscriber_usage uid (su_archived_up v) (su_archived_down v) d;
               active = subscriber_active now p plan used;
               required = (case sp_plan_id p of None \<Rightarrow> [] | Some k \<Rightarrow> required_rows k d);
               existing = existing_rows uid d;
               st1 = \<lparr>rs_db = d, rs_up = su_archived_up v, rs_down = su_archived_down v, rs_affected = fst st\<rparr>
           in case fold_result (reconcile_existing now uid active (go_map required)) (go_entries shuffle existing) st1 of
                Inl e \<Rightarrow> Inl e
              | Inr st2 \<Rightarrow>
                (case fold_result (reconcile_required credential now uid (usr_username u) active (go_map existing))
                   (go_entries shuffle required) st2 of
                   Inl e \<Rightarrow> Inl e
                 | Inr st3 \<Rightarrow> Inr (rs_affected st3, rs_db st3))))"

section \<open>The operations\<close>

definition bump_server :: "unix_time \<Rightarrow> id64 \<Rightarrow> mutation list \<times> panel_db \<Rightarrow> subscription_error + (mutation list \<times> panel_db)" where
  "bump_server now sid st = (case bump_version now sid (snd st) of
     Inl e \<Rightarrow> Inl (ErrProxy e)
   | Inr (v, d) \<Rightarrow> Inr (fst st @ [\<lparr>mut_server_id = sid, mut_version = v\<rparr>],
       record_operation now sid ''subscriber'' 0 ''reconcile'' v d))"

definition bump_server_versions :: "unix_time \<Rightarrow> id64 list \<Rightarrow> panel_db \<Rightarrow> subscription_error + (mutation list \<times> panel_db)" where
  "bump_server_versions now ids d = fold_result (bump_server now) (sort (remdups (filter (\<lambda>k. k > 0) ids))) ([], d)"

definition bump_affected :: "unix_time \<Rightarrow> subscription_error + (id64 list \<times> panel_db) \<Rightarrow> subscription_error + (mutation list \<times> panel_db)" where
  "bump_affected now r = (case r of Inl e \<Rightarrow> Inl e | Inr (ids, d) \<Rightarrow> bump_server_versions now ids d)"

definition reconcile_subscriber ::
  "(id64 list \<Rightarrow> id64 list) \<Rightarrow> (proxy_row \<Rightarrow> proxy_error + string) \<Rightarrow> unix_time \<Rightarrow> id64 \<Rightarrow> panel_db \<Rightarrow>
    subscription_error + (mutation list \<times> panel_db)" where
  "reconcile_subscriber shuffle credential now uid d =
     bump_affected now (reconcile_subscriber_tx shuffle credential now uid ([], d))"




definition reset_subscriber_traffic ::
  "(id64 list \<Rightarrow> id64 list) \<Rightarrow> (proxy_row \<Rightarrow> proxy_error + string) \<Rightarrow> unix_time \<Rightarrow> id64 \<Rightarrow> panel_db \<Rightarrow>
    subscription_error + (mutation list \<times> panel_db)" where
  "reset_subscriber_traffic shuffle credential now uid d =
     (if \<not> sql_exists (\<lambda>p. sp_user_id p = uid) (subscriber_profiles d) then Inl ErrSubscriberNotFound
      else bump_affected now (reconcile_subscriber_tx shuffle credential now uid ([], start_subscriber_cycle now now uid d)))"

definition reconcile_server_subscribers ::
  "(id64 list \<Rightarrow> id64 list) \<Rightarrow> (proxy_row \<Rightarrow> proxy_error + string) \<Rightarrow> unix_time \<Rightarrow> id64 \<Rightarrow> panel_db \<Rightarrow>
    subscription_error + (id64 list \<times> panel_db)" where
  "reconcile_server_subscribers shuffle credential now sid d =
     fold_result (reconcile_subscriber_tx shuffle credential now)
       (sort (remdups [sc_user_id m. m \<leftarrow> subscriber_clients d, p \<leftarrow> proxies d, prx_id p = sc_proxy_id m \<and> prx_server_id p = sid]))
       ([], d)"

section \<open>Changing a subscriber\<close>

record subscriber_update =
  up_plan :: "id64 option option"
  up_enabled :: "bool option"
  up_expires :: "unix_time option option"
  up_mode :: "string option"
  up_day :: "int option"
  up_time :: "string option"
  up_billing :: "int option option"

definition normalize_subscriber_lifecycle ::
  "string \<Rightarrow> int \<Rightarrow> string \<Rightarrow> int option \<Rightarrow> subscription_error + (string \<times> int \<times> string \<times> int option)" where
  "normalize_subscriber_lifecycle mode day time billing =
     (let m = trim_space mode; t = trim_space time in
      if m \<noteq> ''never'' \<and> m \<noteq> ''monthly'' \<or> day < 1 \<or> day > 31 \<or> \<not> valid_reset_time t then Inl ErrInvalidTrafficReset
      else if (case billing of None \<Rightarrow> False | Some b \<Rightarrow> b \<noteq> 1 \<and> b \<noteq> 3 \<and> b \<noteq> 6 \<and> b \<noteq> 12) then Inl ErrInvalidBillingPeriod
      else Inr (m, day, t, billing))"

definition update_subscriber ::
  "(id64 list \<Rightarrow> id64 list) \<Rightarrow> (proxy_row \<Rightarrow> proxy_error + string) \<Rightarrow> unix_time \<Rightarrow> id64 \<Rightarrow> subscriber_update \<Rightarrow> panel_db \<Rightarrow>
    subscription_error + (mutation list \<times> panel_db)" where
  "update_subscriber shuffle credential now uid inp d =
     (case (sql_first (\<lambda>p. sp_user_id p = uid) (subscriber_profiles d),
            sql_first (\<lambda>u. usr_id u = uid \<and> usr_role u = ''subscriber'') (users (accounts d))) of
        (Some p, Some _) \<Rightarrow>
          let plan = (case up_plan inp of None \<Rightarrow> sp_plan_id p | Some v \<Rightarrow> v) in
          if (case plan of None \<Rightarrow> False | Some k \<Rightarrow> \<not> sql_exists (\<lambda>q. pln_id q = k) (plans d)) then Inl ErrInvalidSubscriberPlan
          else (case normalize_subscriber_lifecycle
                 (case up_mode inp of None \<Rightarrow> sp_reset_mode p | Some v \<Rightarrow> v)
                 (case up_day inp of None \<Rightarrow> sp_reset_day p | Some v \<Rightarrow> v)
                 (case up_time inp of None \<Rightarrow> sp_reset_time p | Some v \<Rightarrow> v)
                 (case up_billing inp of None \<Rightarrow> sp_billing p | Some v \<Rightarrow> v) of
              Inl e \<Rightarrow> Inl e
            | Inr (mode, day, time, billing) \<Rightarrow>
              bump_affected now (reconcile_subscriber_tx shuffle credential now uid ([],
                d\<lparr>subscriber_profiles := sql_update (\<lambda>r. sp_user_id r = uid)
                  (\<lambda>r. r\<lparr>sp_plan_id := plan, sp_enabled := (case up_enabled inp of None \<Rightarrow> sp_enabled p | Some v \<Rightarrow> v),
                    sp_expires_at := (case up_expires inp of None \<Rightarrow> sp_expires_at p | Some v \<Rightarrow> v),
                    sp_reset_mode := mode, sp_reset_day := day, sp_reset_time := time, sp_billing := billing\<rparr>)
                  (subscriber_profiles d)\<rparr>)))
      | _ \<Rightarrow> Inl ErrSubscriberNotFound)"

definition regenerate_subscription_token :: "string \<Rightarrow> id64 \<Rightarrow> panel_db \<Rightarrow> subscription_error + panel_db" where
  "regenerate_subscription_token token uid d =
     (let hit = (\<lambda>r. sp_user_id r = uid \<and> sql_exists (\<lambda>u. usr_id u = uid \<and> usr_role u = ''subscriber'') (users (accounts d)))
      in if sql_exists (\<lambda>r. sp_token r = token \<and> \<not> hit r) (subscriber_profiles d) \<and> sql_count hit (subscriber_profiles d) \<noteq> 0 then Inl ErrUniqueKey
         else if sql_count hit (subscriber_profiles d) \<noteq> 1 then Inl ErrSubscriberNotFound
         else Inr (d\<lparr>subscriber_profiles := sql_update hit (\<lambda>r. r\<lparr>sp_token := token\<rparr>) (subscriber_profiles d)\<rparr>))"

section \<open>The saturated total\<close>

definition charged :: "subscriber_client_row \<Rightarrow> int" where
  "charged m = sc_charged_up m + sc_charged_down m"

definition charges_ok :: "subscriber_client_row \<Rightarrow> bool" where
  "charges_ok m \<longleftrightarrow> reading (sc_charged_up m) \<and> reading (sc_charged_down m)"

lemma saturating_min: "reading a \<Longrightarrow> reading b \<Longrightarrow> saturating_add a b = min max_int64 (a + b)"
proof -
  assume r: "reading a" "reading b"
  then have "sub64 max_int64 b = max_int64 - b"
    by (intro sub64_nonneg) (simp_all add: reading_def)
  moreover have "add64 a b = a + b" if "a + b \<le> max_int64"
    using r that by (intro add64_exact) (simp add: reading_def int64_bounds)
  ultimately show ?thesis
    using r by (auto simp: saturating_add_def reading_def)
qed

lemma saturating_reading: "reading a \<Longrightarrow> reading b \<Longrightarrow> reading (saturating_add a b)"
  by (simp add: saturating_min) (auto simp: reading_def)

lemma charged_total_min:
  "reading used \<Longrightarrow> \<forall>m \<in> set ms. charges_ok m \<Longrightarrow>
    charged_total used ms = min max_int64 (used + sum_list (map charged ms))"
proof (induction ms arbitrary: used)
  case Nil
  then show ?case by (simp add: reading_def)
next
  case (Cons m ms)
  let ?both = "saturating_add (sc_charged_up m) (sc_charged_down m)"
  have m: "reading (sc_charged_up m)" "reading (sc_charged_down m)"
    using Cons.prems(2) by (simp_all add: charges_ok_def)
  have both: "reading ?both" "?both = min max_int64 (charged m)"
    using m by (rule saturating_reading) (simp add: m saturating_min charged_def)
  have nonneg: "0 \<le> sum_list (map charged ms)"
    using Cons.prems(2) by (intro sum_list_nonneg) (auto simp: charges_ok_def reading_def charged_def)
  have "charged_total used (m # ms) = min max_int64 (min max_int64 (used + ?both) + sum_list (map charged ms))"
    using Cons.IH [of "saturating_add used ?both"] Cons.prems saturating_reading [OF Cons.prems(1) both(1)]
    by (simp add: saturating_min both(1))
  moreover have "0 \<le> used" "0 \<le> charged m"
    using Cons.prems(1) m by (simp_all add: reading_def charged_def)
  ultimately show ?case
    using nonneg both(2) by (simp add: max_int64_def)
qed

lemma sum_list_filter_split: "sum_list (map f xs) = sum_list (map f (filter P xs)) + sum_list (map f (filter (\<lambda>x. \<not> P x) xs))"
  for f :: "'a \<Rightarrow> int"
  by (induction xs) auto

section \<open>The invariant of the subscriber tables\<close>

definition subscribers_ok :: "panel_db \<Rightarrow> bool" where
  "subscribers_ok d \<longleftrightarrow> distinct (map cli_id (clients d)) \<and> (\<forall>c \<in> set (clients d). cli_id c \<le> clients_seq d) \<and>
     distinct (map prx_id (proxies d)) \<and> distinct (map sc_client_id (subscriber_clients d)) \<and>
     distinct (map (\<lambda>m. (sc_user_id m, sc_proxy_id m)) (subscriber_clients d)) \<and>
     (\<forall>m \<in> set (subscriber_clients d). charges_ok m \<and> sc_client_id m \<in> cli_id ` set (clients d) \<and>
        sc_proxy_id m \<in> prx_id ` set (proxies d)) \<and>
     distinct (map su_user_id (subscriber_usage d)) \<and>
     (\<forall>u \<in> set (subscriber_usage d). reading (su_archived_up u) \<and> reading (su_archived_down u))"

text \<open>The tables reconciliation reads and never writes.\<close>

definition same_catalog :: "panel_db \<Rightarrow> panel_db \<Rightarrow> bool" where
  "same_catalog d d' \<longleftrightarrow> servers d' = servers d \<and> proxies d' = proxies d \<and> plans d' = plans d \<and>
     plan_nodes d' = plan_nodes d \<and> published_nodes d' = published_nodes d \<and>
     subscriber_profiles d' = subscriber_profiles d \<and> accounts d' = accounts d \<and> agents d' = agents d \<and>
     operations d' = operations d"

lemma same_catalog_refl [simp]: "same_catalog d d"
  by (simp add: same_catalog_def)

lemma same_catalog_trans: "same_catalog d d1 \<Longrightarrow> same_catalog d1 d2 \<Longrightarrow> same_catalog d d2"
  by (simp add: same_catalog_def)

lemma delete_client_effect:
  assumes "delete_client cid d = Inr d'"
  shows "clients d' = sql_delete (\<lambda>c. cli_id c = cid) (clients d)"
    "subscriber_clients d' = sql_delete (mapping_of cid) (subscriber_clients d)"
    "subscriber_usage d' = subscriber_usage d" "clients_seq d' = clients_seq d" "same_catalog d d'"
  using assms by (auto simp: delete_client_def same_catalog_def split: if_splits)

section \<open>The loop over the existing clients\<close>

definition obsolete :: "(id64 \<rightharpoonup> required_proxy) \<Rightarrow> (id64 \<times> existing_client) list \<Rightarrow> id64 \<Rightarrow> bool" where
  "obsolete required es cid \<longleftrightarrow> (\<exists>(pid, e) \<in> set es. required pid = None \<and> ex_client e = cid)"

definition switched :: "(id64 \<rightharpoonup> required_proxy) \<Rightarrow> bool \<Rightarrow> (id64 \<times> existing_client) list \<Rightarrow> id64 \<Rightarrow> bool" where
  "switched required active es cid \<longleftrightarrow>
     (\<exists>(pid, e) \<in> set es. required pid \<noteq> None \<and> ex_client e = cid \<and> ex_effective e \<noteq> active)"

definition switch_to :: "unix_time \<Rightarrow> bool \<Rightarrow> client_row \<Rightarrow> client_row" where
  "switch_to now active c = c\<lparr>cli_effective := active, cli_updated_at := now\<rparr>"

lemma switch_to_simps [simp]: "cli_id (switch_to now active c) = cli_id c" "cli_effective (switch_to now active c) = active"
  "switch_to now active (switch_to now active c) = switch_to now active c" "cli_proxy_id (switch_to now active c) = cli_proxy_id c"
  by (simp_all add: switch_to_def)

lemma obsolete_one: "obsolete required [(pid, e)] cid \<longleftrightarrow> required pid = None \<and> cid = ex_client e"
  by (auto simp: obsolete_def)

lemma switched_one: "switched required active [(pid, e)] cid \<longleftrightarrow>
    required pid \<noteq> None \<and> cid = ex_client e \<and> ex_effective e \<noteq> active"
  by (auto simp: switched_def)

lemma existing_step:
  assumes "reconcile_existing now uid active required (pid, e) st = Inr st'"
  shows "clients (rs_db st') = sql_update (\<lambda>c. switched required active [(pid, e)] (cli_id c)) (switch_to now active)
      (sql_delete (\<lambda>c. obsolete required [(pid, e)] (cli_id c)) (clients (rs_db st)))"
    "subscriber_clients (rs_db st') = sql_delete (\<lambda>m. obsolete required [(pid, e)] (sc_client_id m)) (subscriber_clients (rs_db st))"
    "same_catalog (rs_db st) (rs_db st')" "clients_seq (rs_db st') = clients_seq (rs_db st)"
    "set (rs_affected st') = set (rs_affected st) \<union>
      (if required pid = None \<or> ex_effective e \<noteq> active then {ex_server e} else {})"
    "subscriber_usage (rs_db st') = (if required pid = None then sql_update (\<lambda>u. su_user_id u = uid)
        (\<lambda>u. u\<lparr>su_archived_up := rs_up st', su_archived_down := rs_down st', su_updated_at := now\<rparr>) (subscriber_usage (rs_db st))
      else subscriber_usage (rs_db st))"
    "rs_up st' = (if required pid = None then saturating_add (rs_up st) (ex_up e) else rs_up st)"
    "rs_down st' = (if required pid = None then saturating_add (rs_down st) (ex_down e) else rs_down st)"
proof -
  consider d2 where "required pid = None" "delete_client (ex_client e) (rs_db st\<lparr>subscriber_usage := sql_update (\<lambda>u. su_user_id u = uid)
        (\<lambda>u. u\<lparr>su_archived_up := saturating_add (rs_up st) (ex_up e), su_archived_down := saturating_add (rs_down st) (ex_down e),
          su_updated_at := now\<rparr>) (subscriber_usage (rs_db st))\<rparr>) = Inr d2"
      "st' = \<lparr>rs_db = d2, rs_up = saturating_add (rs_up st) (ex_up e), rs_down = saturating_add (rs_down st) (ex_down e),
        rs_affected = ex_server e # rs_affected st\<rparr>"
    | q where "required pid = Some q" "ex_effective e \<noteq> active"
      "st' = st\<lparr>rs_db := (rs_db st)\<lparr>clients := sql_update (\<lambda>c. cli_id c = ex_client e) (switch_to now active) (clients (rs_db st))\<rparr>,
          rs_affected := ex_server e # rs_affected st\<rparr>"
    | q where "required pid = Some q" "ex_effective e = active" "st' = st"
    using assms by (cases "required pid") (auto simp: reconcile_existing_def Let_def switch_to_def [abs_def] split: sum.splits if_splits)
  note c = this
  show "clients (rs_db st') = sql_update (\<lambda>c. switched required active [(pid, e)] (cli_id c)) (switch_to now active)
      (sql_delete (\<lambda>c. obsolete required [(pid, e)] (cli_id c)) (clients (rs_db st)))"
    using c
  proof cases
    case 1
    then show ?thesis
      by (simp add: delete_client_effect(1) [OF 1(2)] obsolete_one switched_one sql_update_def sql_delete_def)
  next
    case 2
    then show ?thesis
      by (simp add: obsolete_one switched_one sql_update_def sql_delete_def)
  qed (simp add: obsolete_one switched_one sql_update_def sql_delete_def)
  show "subscriber_clients (rs_db st') = sql_delete (\<lambda>m. obsolete required [(pid, e)] (sc_client_id m)) (subscriber_clients (rs_db st))"
    using c
  proof cases
    case 1
    then show ?thesis
      by (simp add: delete_client_effect(2) [OF 1(2)] obsolete_one mapping_of_def sql_delete_def)
  qed (simp_all add: obsolete_one sql_delete_def)
  show "same_catalog (rs_db st) (rs_db st')"
    using c
  proof cases
    case 1
    then show ?thesis
      using delete_client_effect(5) [OF 1(2)] by (simp add: same_catalog_def)
  qed (simp_all add: same_catalog_def)
  show "clients_seq (rs_db st') = clients_seq (rs_db st)"
    using c
  proof cases
    case 1
    then show ?thesis
      using delete_client_effect(4) [OF 1(2)] by simp
  qed simp_all
  show "set (rs_affected st') = set (rs_affected st) \<union> (if required pid = None \<or> ex_effective e \<noteq> active then {ex_server e} else {})"
    using c by cases simp_all
  show "subscriber_usage (rs_db st') = (if required pid = None then sql_update (\<lambda>u. su_user_id u = uid)
        (\<lambda>u. u\<lparr>su_archived_up := rs_up st', su_archived_down := rs_down st', su_updated_at := now\<rparr>) (subscriber_usage (rs_db st))
      else subscriber_usage (rs_db st))"
    using c
  proof cases
    case 1
    then show ?thesis
      using delete_client_effect(3) [OF 1(2)] by simp
  qed simp_all
  show "rs_up st' = (if required pid = None then saturating_add (rs_up st) (ex_up e) else rs_up st)"
    using c by cases simp_all
  show "rs_down st' = (if required pid = None then saturating_add (rs_down st) (ex_down e) else rs_down st)"
    using c by cases simp_all
qed

lemma obsolete_Cons: "obsolete required (x # es) cid \<longleftrightarrow> obsolete required [x] cid \<or> obsolete required es cid"
  by (auto simp: obsolete_def)

lemma switched_Cons: "switched required active (x # es) cid \<longleftrightarrow> switched required active [x] cid \<or> switched required active es cid"
  by (auto simp: switched_def)

definition existing_result :: "unix_time \<Rightarrow> bool \<Rightarrow> (id64 \<rightharpoonup> required_proxy) \<Rightarrow> (id64 \<times> existing_client) list \<Rightarrow>
    client_row list \<Rightarrow> client_row list" where
  "existing_result now active required es cs =
     sql_update (\<lambda>c. switched required active es (cli_id c)) (switch_to now active)
       (sql_delete (\<lambda>c. obsolete required es (cli_id c)) cs)"

lemma existing_result_Cons:
  "existing_result now active required es (existing_result now active required [x] cs) = existing_result now active required (x # es) cs"
  by (induction cs) (auto simp: existing_result_def sql_update_def sql_delete_def obsolete_Cons [of _ x es] switched_Cons [of _ _ x es])

text \<open>The clients and mappings after the loop, the untouched tables, and the servers to tell.\<close>

lemma existing_loop:
  "fold_result (reconcile_existing now uid active required) es st = Inr st' \<Longrightarrow>
    clients (rs_db st') = existing_result now active required es (clients (rs_db st)) \<and>
    subscriber_clients (rs_db st') = sql_delete (\<lambda>m. obsolete required es (sc_client_id m)) (subscriber_clients (rs_db st)) \<and>
    same_catalog (rs_db st) (rs_db st') \<and> clients_seq (rs_db st') = clients_seq (rs_db st) \<and>
    set (rs_affected st') = set (rs_affected st) \<union>
      {ex_server e |pid e. (pid, e) \<in> set es \<and> (required pid = None \<or> ex_effective e \<noteq> active)}"
proof (induction es arbitrary: st)
  case Nil
  then show ?case
    by (simp add: existing_result_def obsolete_def switched_def sql_update_def sql_delete_def)
next
  case (Cons x es)
  obtain pid e where x: "x = (pid, e)" by force
  from Cons.prems obtain st1 where st1: "reconcile_existing now uid active required (pid, e) st = Inr st1"
    "fold_result (reconcile_existing now uid active required) es st1 = Inr st'"
    by (auto simp: x split: sum.splits)
  note ih = Cons.IH [OF st1(2)] and step = existing_step [OF st1(1)]
  have "clients (rs_db st1) = existing_result now active required [x] (clients (rs_db st))"
    unfolding existing_result_def x by (rule step(1))
  moreover have "sql_delete (\<lambda>m. obsolete required es (sc_client_id m)) (subscriber_clients (rs_db st1)) =
      sql_delete (\<lambda>m. obsolete required (x # es) (sc_client_id m)) (subscriber_clients (rs_db st))"
    unfolding step(2) x by (simp add: sql_delete_def obsolete_Cons [of _ "(pid, e)" es] conj_commute)
  moreover have "same_catalog (rs_db st) (rs_db st')"
    using same_catalog_trans step(3) ih by blast
  moreover have "set (rs_affected st') = set (rs_affected st) \<union>
      {ex_server e |pid e. (pid, e) \<in> set (x # es) \<and> (required pid = None \<or> ex_effective e \<noteq> active)}"
    using ih step(5) by (auto simp: x)
  ultimately show ?case
    using ih step(4) by (simp add: existing_result_Cons)
qed

text \<open>
  The running total: the archived bytes and the charges of the remaining clients add up to the
  same number while clients are archived.
\<close>

definition usage_rows :: "id64 \<Rightarrow> int \<Rightarrow> int \<Rightarrow> panel_db \<Rightarrow> bool" where
  "usage_rows uid up down d \<longleftrightarrow> reading up \<and> reading down \<and> (\<forall>m \<in> set (subscriber_clients d). charges_ok m) \<and>
     distinct (map sc_client_id (subscriber_clients d)) \<and> distinct (map su_user_id (subscriber_usage d)) \<and>
     (\<forall>u \<in> set (subscriber_usage d). reading (su_archived_up u) \<and> reading (su_archived_down u)) \<and>
     (\<forall>u \<in> set (subscriber_usage d). su_user_id u = uid \<longrightarrow> su_archived_up u = up \<and> su_archived_down u = down)"

lemma usage_total:
  assumes "usage_rows uid up down d"
  shows "current_subscriber_usage uid up down d =
    min max_int64 (up + down + sum_list (map charged (filter (\<lambda>m. sc_user_id m = uid) (subscriber_clients d))))"
proof -
  let ?ms = "filter (\<lambda>m. sc_user_id m = uid) (subscriber_clients d)"
  have r: "reading up" "reading down" "\<forall>m \<in> set ?ms. charges_ok m"
    using assms by (simp_all add: usage_rows_def)
  from r(3) have "0 \<le> sum_list (map charged ?ms)"
    by (intro sum_list_nonneg) (auto simp: charges_ok_def reading_def charged_def)
  moreover have "current_subscriber_usage uid up down d = min max_int64 (saturating_add up down + sum_list (map charged ?ms))"
    unfolding current_subscriber_usage_def by (rule charged_total_min [OF saturating_reading [OF r(1,2)] r(3)])
  ultimately show ?thesis
    unfolding saturating_min [OF r(1,2)] by simp
qed

text \<open>What an entry of the loop says about the mapping it came from.\<close>

definition entry_of :: "id64 \<Rightarrow> panel_db \<Rightarrow> existing_client \<Rightarrow> bool" where
  "entry_of uid d e \<longleftrightarrow> (\<exists>m \<in> set (subscriber_clients d). sc_user_id m = uid \<and> sc_client_id m = ex_client e \<and>
     sc_charged_up m = ex_up e \<and> sc_charged_down m = ex_down e)"

lemma filter_key_single: "distinct (map key xs) \<Longrightarrow> m \<in> set xs \<Longrightarrow> filter (\<lambda>x. key x = key m) xs = [m]"
  by (induction xs) (auto simp: filter_empty_conv image_iff)

lemma existing_total_step:
  assumes step: "reconcile_existing now uid active required (pid, e) st = Inr st'"
    and rows: "usage_rows uid (rs_up st) (rs_down st) (rs_db st)" and e: "entry_of uid (rs_db st) e"
  shows "usage_rows uid (rs_up st') (rs_down st') (rs_db st') \<and>
    current_subscriber_usage uid (rs_up st') (rs_down st') (rs_db st') =
      current_subscriber_usage uid (rs_up st) (rs_down st) (rs_db st)"
proof (cases "required pid = None")
  case False
  note s = existing_step [OF step]
  have "subscriber_clients (rs_db st') = subscriber_clients (rs_db st)" "subscriber_usage (rs_db st') = subscriber_usage (rs_db st)"
    "rs_up st' = rs_up st" "rs_down st' = rs_down st"
    using s(2,6-8) False by (simp_all add: obsolete_one sql_delete_def)
  then show ?thesis
    using rows by (simp add: usage_rows_def current_subscriber_usage_def)
next
  case True
  note s = existing_step [OF step]
  obtain m where m: "m \<in> set (subscriber_clients (rs_db st))" "sc_user_id m = uid" "sc_client_id m = ex_client e"
    "sc_charged_up m = ex_up e" "sc_charged_down m = ex_down e"
    using e by (auto simp: entry_of_def)
  have r: "reading (rs_up st)" "reading (rs_down st)" "reading (ex_up e)" "reading (ex_down e)"
    using rows m(1,4,5) by (auto simp: usage_rows_def charges_ok_def)
  have up: "rs_up st' = saturating_add (rs_up st) (ex_up e)" "rs_down st' = saturating_add (rs_down st) (ex_down e)"
    using s(7,8) True by simp_all
  have maps: "subscriber_clients (rs_db st') = filter (\<lambda>x. sc_client_id x \<noteq> ex_client e) (subscriber_clients (rs_db st))"
    using s(2) True by (simp add: obsolete_one sql_delete_def)
  have rows': "usage_rows uid (rs_up st') (rs_down st') (rs_db st')"
    unfolding usage_rows_def
  proof (intro conjI)
    show "reading (rs_up st')" "reading (rs_down st')"
      unfolding up by (rule saturating_reading, rule r, rule r)+
    show "\<forall>m \<in> set (subscriber_clients (rs_db st')). charges_ok m" "distinct (map sc_client_id (subscriber_clients (rs_db st')))"
      unfolding maps using rows by (simp_all add: usage_rows_def distinct_map_filter)
    have us: "subscriber_usage (rs_db st') = sql_update (\<lambda>u. su_user_id u = uid)
        (\<lambda>u. u\<lparr>su_archived_up := rs_up st', su_archived_down := rs_down st', su_updated_at := now\<rparr>) (subscriber_usage (rs_db st))"
      using s(6) True by simp
    show "distinct (map su_user_id (subscriber_usage (rs_db st')))"
      unfolding us using rows by (simp add: usage_rows_def map_sql_update_key)
    show "\<forall>u \<in> set (subscriber_usage (rs_db st')). reading (su_archived_up u) \<and> reading (su_archived_down u)"
      unfolding us by (rule sql_update_all)
        (use rows \<open>reading (rs_up st')\<close> \<open>reading (rs_down st')\<close> in \<open>simp_all add: usage_rows_def\<close>)
    show "\<forall>u \<in> set (subscriber_usage (rs_db st')). su_user_id u = uid \<longrightarrow> su_archived_up u = rs_up st' \<and> su_archived_down u = rs_down st'"
      unfolding us by (rule sql_update_all) simp_all
  qed
  let ?mine = "filter (\<lambda>x. sc_user_id x = uid) (subscriber_clients (rs_db st))"
  have "distinct (map sc_client_id ?mine)"
    using rows by (simp add: usage_rows_def distinct_map_filter)
  then have one: "filter (\<lambda>x. sc_client_id x = ex_client e) ?mine = [m]"
    using filter_key_single [of sc_client_id ?mine m] m(1-3) by simp
  have rest: "filter (\<lambda>x. sc_user_id x = uid) (subscriber_clients (rs_db st')) = filter (\<lambda>x. sc_client_id x \<noteq> ex_client e) ?mine"
    unfolding maps by (simp add: conj_commute)
  have sum: "sum_list (map charged ?mine) = ex_up e + ex_down e +
      sum_list (map charged (filter (\<lambda>x. sc_client_id x \<noteq> ex_client e) ?mine))"
    using sum_list_filter_split [of charged ?mine "\<lambda>x. sc_client_id x = ex_client e"] m(4,5) unfolding one by (simp add: charged_def)
  have "0 \<le> sum_list (map charged (filter (\<lambda>x. sc_client_id x \<noteq> ex_client e) ?mine))"
    using rows by (intro sum_list_nonneg) (auto simp: usage_rows_def charges_ok_def reading_def charged_def)
  moreover have "rs_up st' = min max_int64 (rs_up st + ex_up e)" "rs_down st' = min max_int64 (rs_down st + ex_down e)"
    unfolding up by (rule saturating_min [OF r(1,3)]) (rule saturating_min [OF r(2,4)])
  moreover note usage_total [OF rows'] usage_total [OF rows]
  ultimately have "current_subscriber_usage uid (rs_up st') (rs_down st') (rs_db st') =
      current_subscriber_usage uid (rs_up st) (rs_down st) (rs_db st)"
    using r unfolding rest sum reading_def by linarith
  with rows' show ?thesis by blast
qed

lemma entry_of_step:
  assumes "reconcile_existing now uid active required (pid, e) st = Inr st'" "entry_of uid (rs_db st) x" "ex_client x \<noteq> ex_client e"
  shows "entry_of uid (rs_db st') x"
  using assms(2,3) unfolding entry_of_def existing_step(2) [OF assms(1)]
  by (auto simp: set_sql_delete obsolete_one)

lemma existing_loop_usage:
  "fold_result (reconcile_existing now uid active required) es st = Inr st' \<Longrightarrow>
    map su_user_id (subscriber_usage (rs_db st')) = map su_user_id (subscriber_usage (rs_db st))"
proof (induction es arbitrary: st)
  case (Cons x es)
  obtain pid e where x: "x = (pid, e)" by force
  from Cons.prems obtain st1 where st1: "reconcile_existing now uid active required (pid, e) st = Inr st1"
    "fold_result (reconcile_existing now uid active required) es st1 = Inr st'"
    by (auto simp: x split: sum.splits)
  have "map su_user_id (subscriber_usage (rs_db st1)) = map su_user_id (subscriber_usage (rs_db st))"
    unfolding existing_step(6) [OF st1(1)] by (simp add: map_sql_update_key)
  with Cons.IH [OF st1(2)] show ?case by simp
qed simp

lemma existing_loop_total:
  "fold_result (reconcile_existing now uid active required) es st = Inr st' \<Longrightarrow>
    usage_rows uid (rs_up st) (rs_down st) (rs_db st) \<Longrightarrow> \<forall>x \<in> set es. entry_of uid (rs_db st) (snd x) \<Longrightarrow>
    distinct (map (\<lambda>x. ex_client (snd x)) es) \<Longrightarrow>
    usage_rows uid (rs_up st') (rs_down st') (rs_db st') \<and>
    current_subscriber_usage uid (rs_up st') (rs_down st') (rs_db st') =
      current_subscriber_usage uid (rs_up st) (rs_down st) (rs_db st)"
proof (induction es arbitrary: st)
  case (Cons x es)
  obtain pid e where x: "x = (pid, e)" by force
  from Cons.prems(1) obtain st1 where st1: "reconcile_existing now uid active required (pid, e) st = Inr st1"
    "fold_result (reconcile_existing now uid active required) es st1 = Inr st'"
    by (auto simp: x split: sum.splits)
  have "entry_of uid (rs_db st) e"
    using Cons.prems(3) by (simp add: x)
  note step = existing_total_step [OF st1(1) Cons.prems(2) this]
  have "\<forall>y \<in> set es. entry_of uid (rs_db st1) (snd y)"
  proof
    fix y
    assume "y \<in> set es"
    moreover from this have "ex_client (snd y) \<noteq> ex_client e"
      using Cons.prems(4) by (auto simp: x image_iff)
    ultimately show "entry_of uid (rs_db st1) (snd y)"
      using Cons.prems(3) by (intro entry_of_step [OF st1(1)]) simp_all
  qed
  from Cons.IH [OF st1(2) conjunct1 [OF step] this] step Cons.prems(4) show ?case
    by simp
qed simp

section \<open>The loop over the required proxies\<close>

lemma get_proxy_InrD:
  assumes "get_proxy_for_mutation pid d = Inr p"
  shows "p \<in> set (proxies d) \<and> prx_id p = pid"
proof -
  let ?L = "[(p, srv_decom_status s). p \<leftarrow> proxies d, s \<leftarrow> servers d,
         srv_id s = prx_server_id p \<and> prx_id p = pid \<and> srv_archived_at s = None]"
  obtain status rest where "?L = (p, status) # rest"
    using assms unfolding get_proxy_for_mutation_def by (cases ?L) (auto split: if_splits)
  then have "(p, status) \<in> set ?L"
    by simp
  then show ?thesis
    by auto
qed

lemma create_client_effect:
  assumes "create_subscriber_client credential now uid pid name effective d = Inr ((cid, sid), d')"
  shows "\<exists>c. clients d' = clients d @ [c] \<and> cli_id c = cid \<and> cli_effective c = effective \<and> cli_proxy_id c = pid" "cid = clients_seq d + 1"
    "clients_seq d' = cid" "subscriber_clients d' = subscriber_clients d" "subscriber_usage d' = subscriber_usage d" "same_catalog d d'"
    "\<exists>p \<in> set (proxies d). prx_id p = pid \<and> prx_server_id p = sid"
  using assms unfolding create_subscriber_client_def
  by (auto simp: same_catalog_def Let_def split: sum.splits option.splits if_splits dest: get_proxy_InrD)

text \<open>The mappings and clients the loop appends.\<close>

definition appended :: "id64 \<Rightarrow> bool \<Rightarrow> id64 list \<Rightarrow> panel_db \<Rightarrow> panel_db \<Rightarrow> subscriber_client_row list \<Rightarrow> client_row list \<Rightarrow> bool" where
  "appended uid active pids d d' ms cs \<longleftrightarrow>
     subscriber_clients d' = subscriber_clients d @ ms \<and> clients d' = clients d @ cs \<and>
     map sc_proxy_id ms = pids \<and> map sc_client_id ms = map cli_id cs \<and> sorted_wrt (<) (map cli_id cs) \<and>
     (\<forall>m \<in> set ms. sc_user_id m = uid \<and> sc_charged_up m = 0 \<and> sc_charged_down m = 0) \<and>
     (\<forall>c \<in> set cs. cli_effective c = active \<and> clients_seq d < cli_id c \<and> cli_id c \<le> clients_seq d') \<and>
     clients_seq d \<le> clients_seq d' \<and> subscriber_usage d' = subscriber_usage d \<and> same_catalog d d' \<and>
     set pids \<subseteq> prx_id ` set (proxies d)"

lemma appended_nil: "appended uid active [] d d [] []"
  by (simp add: appended_def)

lemma appended_trans:
  assumes "appended uid active ps d d1 ms cs" "appended uid active qs d1 d2 ms' cs'"
  shows "appended uid active (ps @ qs) d d2 (ms @ ms') (cs @ cs')"
  using assms by (fastforce simp: appended_def sorted_wrt_append same_catalog_def)

lemma required_step:
  assumes "reconcile_required credential now uid username active existing (pid, target) st = Inr st'"
  shows "\<exists>ms cs. appended uid active (if existing pid = None then [pid] else []) (rs_db st) (rs_db st') ms cs"
    "rs_up st' = rs_up st" "rs_down st' = rs_down st"
    "existing pid = None \<Longrightarrow> \<exists>p \<in> set (proxies (rs_db st)). prx_id p = pid \<and> set (rs_affected st') = insert (prx_server_id p) (set (rs_affected st))"
    "existing pid \<noteq> None \<Longrightarrow> st' = st"
    "existing pid = None \<Longrightarrow> rq_distributable target"
proof -
  have "(\<exists>ms cs. appended uid active (if existing pid = None then [pid] else []) (rs_db st) (rs_db st') ms cs) \<and>
    rs_up st' = rs_up st \<and> rs_down st' = rs_down st \<and> (if existing pid = None then rq_distributable target \<and>
      (\<exists>p \<in> set (proxies (rs_db st)). prx_id p = pid \<and> set (rs_affected st') = insert (prx_server_id p) (set (rs_affected st))) else st' = st)"
  proof (cases "existing pid")
    case (Some x)
    then show ?thesis
      using assms appended_nil [of uid active "rs_db st"] unfolding reconcile_required_def by fastforce
  next
    case None
    then obtain cid sid d1 where c: "rq_distributable target"
      "create_subscriber_client credential now uid pid (subscriber_client_name username (rq_name target)) active (rs_db st) = Inr ((cid, sid), d1)"
      "st' = st\<lparr>rs_db := d1\<lparr>subscriber_clients := subscriber_clients d1 @
              [\<lparr>sc_user_id = uid, sc_proxy_id = pid, sc_client_id = cid, sc_charged_up = 0, sc_charged_down = 0,
                sc_rem_up = 0, sc_rem_down = 0\<rparr>]\<rparr>, rs_affected := sid # rs_affected st\<rparr>"
      using assms by (auto simp: reconcile_required_def split: sum.splits if_splits)
    note e = create_client_effect [OF c(2)]
    obtain r where r: "clients d1 = clients (rs_db st) @ [r]" "cli_id r = cid" "cli_effective r = active"
      using e(1) by blast
    obtain p where p: "p \<in> set (proxies (rs_db st))" "prx_id p = pid" "prx_server_id p = sid"
      using e(7) by blast
    have "appended uid active [pid] (rs_db st) (rs_db st')
      [\<lparr>sc_user_id = uid, sc_proxy_id = pid, sc_client_id = cid, sc_charged_up = 0, sc_charged_down = 0, sc_rem_up = 0, sc_rem_down = 0\<rparr>] [r]"
      using e(2-6) r p by (auto simp: appended_def c(3) same_catalog_def)
    moreover have "rs_up st' = rs_up st" "rs_down st' = rs_down st" "set (rs_affected st') = insert sid (set (rs_affected st))"
      by (simp_all add: c(3))
    ultimately show ?thesis
      using None c(1) p by auto
  qed
  note all = this
  show "\<exists>ms cs. appended uid active (if existing pid = None then [pid] else []) (rs_db st) (rs_db st') ms cs"
    "rs_up st' = rs_up st" "rs_down st' = rs_down st"
    using all by blast+
  show "existing pid = None \<Longrightarrow> \<exists>p \<in> set (proxies (rs_db st)). prx_id p = pid \<and> set (rs_affected st') = insert (prx_server_id p) (set (rs_affected st))"
    "existing pid \<noteq> None \<Longrightarrow> st' = st" "existing pid = None \<Longrightarrow> rq_distributable target"
    using all by (simp_all split: if_splits)
qed

lemma required_loop:
  "fold_result (reconcile_required credential now uid username active existing) rs st = Inr st' \<Longrightarrow>
    (\<exists>ms cs. appended uid active (filter (\<lambda>k. existing k = None) (map fst rs)) (rs_db st) (rs_db st') ms cs) \<and>
    rs_up st' = rs_up st \<and> rs_down st' = rs_down st \<and> set (rs_affected st) \<subseteq> set (rs_affected st') \<and>
    (\<forall>k \<in> fst ` set rs. existing k = None \<longrightarrow> (\<exists>p \<in> set (proxies (rs_db st)). prx_id p = k \<and> prx_server_id p \<in> set (rs_affected st')))"
proof (induction rs arbitrary: st)
  case Nil
  then have "appended uid active [] (rs_db st) (rs_db st') [] []"
    by (simp add: appended_nil)
  then have "\<exists>ms cs. appended uid active (filter (\<lambda>k. existing k = None) (map fst [])) (rs_db st) (rs_db st') ms cs"
    by auto
  with Nil show ?case by simp
next
  case (Cons x rs)
  obtain pid target where x: "x = (pid, target)" by force
  from Cons.prems obtain st1 where st1: "reconcile_required credential now uid username active existing (pid, target) st = Inr st1"
    "fold_result (reconcile_required credential now uid username active existing) rs st1 = Inr st'"
    by (auto simp: x split: sum.splits)
  note step = required_step [OF st1(1)] and ih = Cons.IH [OF st1(2)]
  obtain ms cs where a: "appended uid active (if existing pid = None then [pid] else []) (rs_db st) (rs_db st1) ms cs"
    using step(1) by blast
  obtain ms' cs' where b: "appended uid active (filter (\<lambda>k. existing k = None) (map fst rs)) (rs_db st1) (rs_db st') ms' cs'"
    using ih by blast
  have "appended uid active (filter (\<lambda>k. existing k = None) (map fst (x # rs))) (rs_db st) (rs_db st') (ms @ ms') (cs @ cs')"
    using appended_trans [OF a b] by (cases "existing pid") (simp_all add: x)
  then have A: "\<exists>ms cs. appended uid active (filter (\<lambda>k. existing k = None) (map fst (x # rs))) (rs_db st) (rs_db st') ms cs"
    by blast
  have p: "proxies (rs_db st1) = proxies (rs_db st)"
    using a by (simp add: appended_def same_catalog_def)
  have B: "set (rs_affected st) \<subseteq> set (rs_affected st1)"
    using step(4,5) by (cases "existing pid") auto
  have "existing pid = None \<Longrightarrow> \<exists>p \<in> set (proxies (rs_db st)). prx_id p = pid \<and> prx_server_id p \<in> set (rs_affected st')"
    using step(4) ih by blast
  then have C: "\<forall>k \<in> fst ` set (x # rs). existing k = None \<longrightarrow>
      (\<exists>p \<in> set (proxies (rs_db st)). prx_id p = k \<and> prx_server_id p \<in> set (rs_affected st'))"
    using ih unfolding p by (simp add: x)
  show ?case
    using A B C step(2,3) ih by (intro conjI) auto
qed

section \<open>Go maps of rows\<close>

definition permutes :: "('k list \<Rightarrow> 'k list) \<Rightarrow> bool" where
  "permutes shuffle \<longleftrightarrow> (\<forall>xs. mset (shuffle xs) = mset xs)"

lemma permutes_set: "permutes shuffle \<Longrightarrow> set (shuffle xs) = set xs"
  by (metis permutes_def mset_eq_setD)

lemma permutes_distinct: "permutes shuffle \<Longrightarrow> distinct (shuffle xs) = distinct xs"
  by (metis permutes_def mset_eq_imp_distinct_iff)

lemma go_map_None: "go_map rows k = None \<longleftrightarrow> k \<notin> fst ` set rows"
  by (simp add: go_map_def map_of_eq_None_iff)

lemma go_map_SomeD: "go_map rows k = Some v \<Longrightarrow> (k, v) \<in> set rows"
  by (auto simp: go_map_def dest: map_of_SomeD)

lemma go_entries_keys: "permutes shuffle \<Longrightarrow> distinct (map fst (go_entries shuffle rows))"
  "permutes shuffle \<Longrightarrow> fst ` set (go_entries shuffle rows) = fst ` set rows"
  by (simp_all add: go_entries_def comp_def permutes_distinct permutes_set image_image)

lemma go_entries_set:
  assumes "permutes shuffle" "(k, v) \<in> set (go_entries shuffle rows)"
  shows "(k, v) \<in> set rows"
proof -
  have "k \<in> fst ` set rows" "v = the (go_map rows k)"
    using assms by (auto simp: go_entries_def permutes_set)
  then show ?thesis
    using go_map_None [of rows k] go_map_SomeD [of rows k] by (cases "go_map rows k") auto
qed

section \<open>The clients of one user\<close>

definition mine :: "id64 \<Rightarrow> panel_db \<Rightarrow> id64 set" where
  "mine uid d = sc_client_id ` {m \<in> set (subscriber_clients d). sc_user_id m = uid}"

lemma existing_rowsD:
  assumes "(pid, e) \<in> set (existing_rows uid d)"
  shows "\<exists>m \<in> set (subscriber_clients d). sc_user_id m = uid \<and> sc_proxy_id m = pid \<and> sc_client_id m = ex_client e \<and>
      sc_charged_up m = ex_up e \<and> sc_charged_down m = ex_down e"
    "\<exists>c \<in> set (clients d). cli_id c = ex_client e \<and> cli_effective c = ex_effective e"
    "\<exists>p \<in> set (proxies d). prx_id p = pid \<and> prx_server_id p = ex_server e"
  using assms by (auto simp: existing_rows_def)

lemma existing_rows_all:
  assumes "subscribers_ok d" "m \<in> set (subscriber_clients d)" "sc_user_id m = uid"
  shows "sc_proxy_id m \<in> fst ` set (existing_rows uid d)"
proof -
  obtain c p where "c \<in> set (clients d)" "cli_id c = sc_client_id m" "p \<in> set (proxies d)" "prx_id p = sc_proxy_id m"
    using assms(1,2) by (force simp: subscribers_ok_def)
  then have "(sc_proxy_id m, \<lparr>ex_client = sc_client_id m, ex_server = prx_server_id p, ex_effective = cli_effective c,
      ex_up = sc_charged_up m, ex_down = sc_charged_down m\<rparr>) \<in> set (existing_rows uid d)"
    using assms(2,3) by (fastforce simp: existing_rows_def)
  then show ?thesis by force
qed

text \<open>The entries \<open>es\<close> are those of the user's existing clients, in the order of the Go map.\<close>

definition entries_ok :: "(id64 list \<Rightarrow> id64 list) \<Rightarrow> id64 \<Rightarrow> panel_db \<Rightarrow> (id64 \<times> existing_client) list \<Rightarrow> bool" where
  "entries_ok shuffle uid d es \<longleftrightarrow> permutes shuffle \<and> subscribers_ok d \<and> es = go_entries shuffle (existing_rows uid d)"

lemma entries_okD:
  assumes "entries_ok shuffle uid d es"
  shows "permutes shuffle" "subscribers_ok d" "es = go_entries shuffle (existing_rows uid d)"
  using assms by (simp_all add: entries_ok_def)

lemma entry_mapping:
  assumes E: "entries_ok shuffle uid d es" and "(pid, e) \<in> set es" "m \<in> set (subscriber_clients d)"
  shows "sc_client_id m = ex_client e \<longleftrightarrow> sc_user_id m = uid \<and> sc_proxy_id m = pid"
proof -
  note perm = entries_okD(1) [OF E] and ok = entries_okD(2) [OF E] and es = entries_okD(3) [OF E]
  obtain m' where m': "m' \<in> set (subscriber_clients d)" "sc_user_id m' = uid" "sc_proxy_id m' = pid" "sc_client_id m' = ex_client e"
    using existing_rowsD(1) [OF go_entries_set [OF perm assms(2) [unfolded es]]] by blast
  have "distinct (map sc_client_id (subscriber_clients d))"
    "distinct (map (\<lambda>m. (sc_user_id m, sc_proxy_id m)) (subscriber_clients d))"
    using ok by (simp_all add: subscribers_ok_def)
  from distinct_key_unique [OF this(1) assms(3) m'(1)] distinct_key_unique [OF this(2) assms(3) m'(1)]
  show ?thesis
    using m' by auto
qed

lemma mapping_entry:
  assumes E: "entries_ok shuffle uid d es" and "m \<in> set (subscriber_clients d)" "sc_user_id m = uid"
  obtains e where "(sc_proxy_id m, e) \<in> set es" "ex_client e = sc_client_id m"
proof -
  note perm = entries_okD(1) [OF E] and ok = entries_okD(2) [OF E] and es = entries_okD(3) [OF E]
  have "sc_proxy_id m \<in> fst ` set es"
    unfolding es go_entries_keys(2) [OF perm] by (rule existing_rows_all [OF ok assms(2,3)])
  then obtain e where "(sc_proxy_id m, e) \<in> set es"
    by force
  with that entry_mapping [OF E this assms(2)] assms(3) show ?thesis
    by metis
qed

lemma entries_distinct:
  assumes E: "entries_ok shuffle uid d es"
  shows "distinct (map (\<lambda>x. ex_client (snd x)) es)"
proof -
  note perm = entries_okD(1) [OF E] and ok = entries_okD(2) [OF E] and es = entries_okD(3) [OF E]
  have keys: "distinct (map fst es)"
    unfolding es by (rule go_entries_keys(1) [OF perm])
  have "inj_on (\<lambda>x. ex_client (snd x)) (set es)"
  proof (rule inj_onI)
    fix x y
    assume x: "x \<in> set es" and y: "y \<in> set es" and eq: "ex_client (snd x) = ex_client (snd y)"
    have "(fst x, snd x) \<in> set (existing_rows uid d)"
      by (rule go_entries_set [OF perm]) (simp add: x es [symmetric])
    from existing_rowsD(1) [OF this] obtain m where m: "m \<in> set (subscriber_clients d)" "sc_client_id m = ex_client (snd x)"
      by blast
    have "sc_proxy_id m = fst x" "sc_proxy_id m = fst y"
      using entry_mapping [OF E, of "fst x" "snd x" m] entry_mapping [OF E, of "fst y" "snd y" m] m x y eq by auto
    then have "fst x = fst y" by simp
    with distinct_key_unique [OF keys x y] show "x = y" by simp
  qed
  moreover have "distinct es"
    using keys by (simp add: distinct_map)
  ultimately show ?thesis
    by (simp add: distinct_map)
qed

lemma entries_of:
  assumes E: "entries_ok shuffle uid d es"
  shows "\<forall>x \<in> set es. entry_of uid d (snd x)"
proof
  fix x
  assume "x \<in> set es"
  then have "(fst x, snd x) \<in> set (go_entries shuffle (existing_rows uid d))"
    unfolding entries_okD(3) [OF E] by simp
  from go_entries_set [OF entries_okD(1) [OF E] this] have "(fst x, snd x) \<in> set (existing_rows uid d)" .
  from existing_rowsD(1) [OF this] show "entry_of uid d (snd x)"
    unfolding entry_of_def by blast
qed

lemma obsolete_mapping:
  assumes E: "entries_ok shuffle uid d es" and "m \<in> set (subscriber_clients d)"
  shows "obsolete required es (sc_client_id m) \<longleftrightarrow> sc_user_id m = uid \<and> required (sc_proxy_id m) = None"
proof
  assume "obsolete required es (sc_client_id m)"
  then obtain pid e where "(pid, e) \<in> set es" "required pid = None" "ex_client e = sc_client_id m"
    by (auto simp: obsolete_def)
  with entry_mapping [OF E this(1) assms(2)] show "sc_user_id m = uid \<and> required (sc_proxy_id m) = None"
    by auto
next
  assume m: "sc_user_id m = uid \<and> required (sc_proxy_id m) = None"
  obtain e where "(sc_proxy_id m, e) \<in> set es" "ex_client e = sc_client_id m"
    using mapping_entry [OF E assms(2) conjunct1 [OF m]] .
  with m show "obsolete required es (sc_client_id m)"
    unfolding obsolete_def by blast
qed

lemma touched_mine:
  assumes E: "entries_ok shuffle uid d es"
  shows "obsolete required es cid \<Longrightarrow> cid \<in> mine uid d" "switched required active es cid \<Longrightarrow> cid \<in> mine uid d"
proof -
  note perm = entries_okD(1) [OF E] and ok = entries_okD(2) [OF E] and es = entries_okD(3) [OF E]
  have "ex_client e \<in> mine uid d" if "(pid, e) \<in> set es" for pid e
    using existing_rowsD(1) [OF go_entries_set [OF perm that [unfolded es]]] by (force simp: mine_def)
  then show "obsolete required es cid \<Longrightarrow> cid \<in> mine uid d" "switched required active es cid \<Longrightarrow> cid \<in> mine uid d"
    by (auto simp: obsolete_def switched_def)
qed

section \<open>What reconciliation establishes\<close>

text \<open>
  \<open>req\<close> are the required proxies. A server is told about every client of the user that was
  added, removed or switched on it.
\<close>

definition reconciled :: "id64 \<Rightarrow> bool \<Rightarrow> id64 set \<Rightarrow> panel_db \<Rightarrow> panel_db \<Rightarrow> id64 set \<Rightarrow> bool" where
  "reconciled uid active req d d' affected \<longleftrightarrow>
     sc_proxy_id ` {m \<in> set (subscriber_clients d'). sc_user_id m = uid} = req \<and>
     (\<forall>m \<in> set (subscriber_clients d'). sc_user_id m = uid \<longrightarrow>
        (\<exists>c \<in> set (clients d'). cli_id c = sc_client_id m \<and> cli_effective c = active)) \<and>
     filter (\<lambda>m. sc_user_id m \<noteq> uid) (subscriber_clients d') = filter (\<lambda>m. sc_user_id m \<noteq> uid) (subscriber_clients d) \<and>
     (\<forall>c. cli_id c \<notin> mine uid d \<union> mine uid d' \<longrightarrow> c \<in> set (clients d') \<longleftrightarrow> c \<in> set (clients d)) \<and>
     (\<forall>p \<in> set (proxies d). prx_server_id p \<notin> affected \<longrightarrow>
        filter (\<lambda>m. sc_proxy_id m = prx_id p) (subscriber_clients d') = filter (\<lambda>m. sc_proxy_id m = prx_id p) (subscriber_clients d) \<and>
        (\<forall>c. cli_id c \<in> sc_client_id ` {m \<in> set (subscriber_clients d). sc_proxy_id m = prx_id p} \<longrightarrow>
           c \<in> set (clients d') \<longleftrightarrow> c \<in> set (clients d))) \<and>
     same_catalog d d'"

lemma sql_update_other: "\<not> P r \<Longrightarrow> (\<And>r. P r \<Longrightarrow> P (f r)) \<Longrightarrow> r \<in> set (sql_update P f t) \<longleftrightarrow> r \<in> set t"
  by (auto simp: set_sql_update)

lemma existing_result_other:
  assumes "\<not> obsolete required es (cli_id c)" "\<not> switched required active es (cli_id c)"
  shows "c \<in> set (existing_result now active required es cs) \<longleftrightarrow> c \<in> set cs"
proof -
  have "c \<in> set (existing_result now active required es cs) \<longleftrightarrow> c \<in> set (sql_delete (\<lambda>c. obsolete required es (cli_id c)) cs)"
    unfolding existing_result_def by (rule sql_update_other) (use assms(2) in simp_all)
  then show ?thesis
    using assms(1) by (simp add: set_sql_delete)
qed

lemma existing_result_ids: "map cli_id (existing_result now active required es cs) = filter (\<lambda>k. \<not> obsolete required es k) (map cli_id cs)"
  by (simp add: existing_result_def map_sql_update_key sql_delete_def filter_map comp_def)

lemma existing_result_effective:
  assumes E: "entries_ok shuffle uid d es" and m: "m \<in> set (subscriber_clients d)" "sc_user_id m = uid" "required (sc_proxy_id m) \<noteq> None"
  shows "\<exists>c \<in> set (existing_result now active required es (clients d)). cli_id c = sc_client_id m \<and> cli_effective c = active"
proof -
  obtain e where e: "(sc_proxy_id m, e) \<in> set es" "ex_client e = sc_client_id m"
    using mapping_entry [OF E m(1,2)] .
  obtain c where c: "c \<in> set (clients d)" "cli_id c = ex_client e" "cli_effective c = ex_effective e"
    using existing_rowsD(2) [OF go_entries_set [OF entries_okD(1) [OF E] e(1) [unfolded entries_okD(3) [OF E]]]] by blast
  have "\<not> obsolete required es (cli_id c)"
    using obsolete_mapping [OF E m(1)] m(3) c(2) e(2) by simp
  then have kept: "c \<in> set (sql_delete (\<lambda>c. obsolete required es (cli_id c)) (clients d))"
    using c(1) by (simp add: set_sql_delete)
  show ?thesis
  proof (cases "switched required active es (cli_id c)")
    case True
    then have "switch_to now active c \<in> set (existing_result now active required es (clients d))"
      using kept by (force simp: existing_result_def set_sql_update)
    then show ?thesis
      using c(2) e(2) by (intro bexI [of _ "switch_to now active c"]) simp_all
  next
    case False
    then have "c \<in> set (existing_result now active required es (clients d))"
      using kept by (force simp: existing_result_def set_sql_update)
    moreover have "ex_effective e = active"
      using False e m(3) c(2) unfolding switched_def by force
    ultimately show ?thesis
      using c e(2) by auto
  qed
qed

text \<open>The result of the loops, \<open>ms\<close> and \<open>cs\<close> are the new mappings and clients.\<close>

definition loop_result ::
  "id64 \<Rightarrow> bool \<Rightarrow> (id64 \<times> required_proxy) list \<Rightarrow> (id64 \<times> existing_client) list \<Rightarrow> unix_time \<Rightarrow> panel_db \<Rightarrow> panel_db \<Rightarrow>
    subscriber_client_row list \<Rightarrow> client_row list \<Rightarrow> bool" where
  "loop_result uid active required es now d d' ms cs \<longleftrightarrow>
     subscriber_clients d' = filter (\<lambda>m. \<not> (sc_user_id m = uid \<and> go_map required (sc_proxy_id m) = None)) (subscriber_clients d) @ ms \<and>
     clients d' = existing_result now active (go_map required) es (clients d) @ cs \<and>
     sc_proxy_id ` set ms = fst ` set required - fst ` set (existing_rows uid d) \<and> distinct (map sc_proxy_id ms) \<and>
     map sc_client_id ms = map cli_id cs \<and> distinct (map cli_id cs) \<and>
     (\<forall>m \<in> set ms. sc_user_id m = uid \<and> sc_charged_up m = 0 \<and> sc_charged_down m = 0) \<and>
     (\<forall>c \<in> set cs. cli_effective c = active \<and> clients_seq d < cli_id c \<and> cli_id c \<le> clients_seq d') \<and>
     clients_seq d \<le> clients_seq d' \<and> same_catalog d d' \<and> sc_proxy_id ` set ms \<subseteq> prx_id ` set (proxies d)"

text \<open>The two loops together.\<close>

lemma reconcile_loops:
  assumes E: "entries_ok shuffle uid d es" and rows: "usage_rows uid up down d"
    and f1: "fold_result (reconcile_existing now uid active (go_map required)) es
      \<lparr>rs_db = d, rs_up = up, rs_down = down, rs_affected = aff\<rparr> = Inr st2"
    and f2: "fold_result (reconcile_required credential now uid username active (go_map (existing_rows uid d)))
      (go_entries shuffle required) st2 = Inr st3"
  shows "\<exists>ms cs. loop_result uid active required es now d (rs_db st3) ms cs \<and>
    subscriber_usage (rs_db st3) = subscriber_usage (rs_db st2) \<and>
    usage_rows uid (rs_up st3) (rs_down st3) (rs_db st2) \<and>
    current_subscriber_usage uid (rs_up st3) (rs_down st3) (rs_db st2) = current_subscriber_usage uid up down d \<and>
    subscriber_clients (rs_db st3) = subscriber_clients (rs_db st2) @ ms"
    "set aff \<subseteq> set (rs_affected st3)"
    "(pid, e) \<in> set es \<Longrightarrow> go_map required pid = None \<or> ex_effective e \<noteq> active \<Longrightarrow> ex_server e \<in> set (rs_affected st3)"
    "k \<in> fst ` set required - fst ` set (existing_rows uid d) \<Longrightarrow>
       \<exists>p \<in> set (proxies d). prx_id p = k \<and> prx_server_id p \<in> set (rs_affected st3)"
proof -
  have perm: "permutes shuffle"
    using E by (simp add: entries_ok_def)
  note l1 = existing_loop [OF f1, simplified] and l2 = required_loop [OF f2]
  have total: "usage_rows uid (rs_up st2) (rs_down st2) (rs_db st2) \<and>
      current_subscriber_usage uid (rs_up st2) (rs_down st2) (rs_db st2) = current_subscriber_usage uid up down d"
    using existing_loop_total [OF f1] rows entries_of [OF E] entries_distinct [OF E] by simp
  have maps: "subscriber_clients (rs_db st2) =
      filter (\<lambda>m. \<not> (sc_user_id m = uid \<and> go_map required (sc_proxy_id m) = None)) (subscriber_clients d)"
    using l1 obsolete_mapping [OF E] by (simp add: sql_delete_def cong: filter_cong)
  obtain ms cs where a: "appended uid active (filter (\<lambda>k. go_map (existing_rows uid d) k = None) (map fst (go_entries shuffle required)))
      (rs_db st2) (rs_db st3) ms cs"
    using l2 by blast
  let ?miss = "filter (\<lambda>k. go_map (existing_rows uid d) k = None) (map fst (go_entries shuffle required))"
  have miss: "set ?miss = fst ` set required - fst ` set (existing_rows uid d)"
    using go_entries_keys(2) [OF perm, of required] by (auto simp: go_map_None)
  have eq: "map sc_proxy_id ms = ?miss"
    using a by (simp add: appended_def)
  have px: "sc_proxy_id ` set ms = set ?miss" "distinct (map sc_proxy_id ms)"
    using arg_cong [OF eq, of set] go_entries_keys(1) [OF perm, of required] by (simp, simp add: eq)
  have strict: "distinct (map cli_id cs)"
    using a by (simp add: appended_def strict_sorted_iff)
  have prox: "proxies (rs_db st2) = proxies d"
    using l1 by (simp add: same_catalog_def)
  have keys: "fst ` set (go_entries shuffle required) = fst ` set required"
    by (rule go_entries_keys(2) [OF perm])
  have "same_catalog d (rs_db st3)"
    by (rule same_catalog_trans [of d "rs_db st2"]) (use l1 in blast, use a in \<open>simp add: appended_def\<close>)
  moreover have "sc_proxy_id ` set ms \<subseteq> prx_id ` set (proxies d)"
    using a px(1) prox by (simp add: appended_def)
  moreover have "sc_proxy_id ` set ms = fst ` set required - fst ` set (existing_rows uid d)"
    using px(1) miss by simp
  moreover have "clients_seq (rs_db st2) = clients_seq d" "clients (rs_db st2) = existing_result now active (go_map required) es (clients d)"
    using l1 by blast+
  ultimately have "loop_result uid active required es now d (rs_db st3) ms cs"
    using a px(2) strict unfolding loop_result_def appended_def maps by simp
  moreover have "subscriber_usage (rs_db st3) = subscriber_usage (rs_db st2)"
    "subscriber_clients (rs_db st3) = subscriber_clients (rs_db st2) @ ms"
    using a by (simp_all add: appended_def)
  ultimately show "\<exists>ms cs. loop_result uid active required es now d (rs_db st3) ms cs \<and>
    subscriber_usage (rs_db st3) = subscriber_usage (rs_db st2) \<and>
    usage_rows uid (rs_up st3) (rs_down st3) (rs_db st2) \<and>
    current_subscriber_usage uid (rs_up st3) (rs_down st3) (rs_db st2) = current_subscriber_usage uid up down d \<and>
    subscriber_clients (rs_db st3) = subscriber_clients (rs_db st2) @ ms"
    using total l2 by auto
  show "set aff \<subseteq> set (rs_affected st3)"
    using l1 l2 by blast
  show "\<exists>p \<in> set (proxies d). prx_id p = k \<and> prx_server_id p \<in> set (rs_affected st3)"
    if "k \<in> fst ` set required - fst ` set (existing_rows uid d)"
  proof -
    have "go_map (existing_rows uid d) k = None" "k \<in> fst ` set required"
      using that unfolding go_map_None by blast+
    then show ?thesis
      using l2 unfolding keys prox by blast
  qed
  show "ex_server e \<in> set (rs_affected st3)" if "(pid, e) \<in> set es" "go_map required pid = None \<or> ex_effective e \<noteq> active"
    using l1 l2 that by blast
qed

lemma existing_proxies:
  assumes "subscribers_ok d"
  shows "fst ` set (existing_rows uid d) = sc_proxy_id ` {m \<in> set (subscriber_clients d). sc_user_id m = uid}"
proof
  show "fst ` set (existing_rows uid d) \<subseteq> sc_proxy_id ` {m \<in> set (subscriber_clients d). sc_user_id m = uid}"
    by (auto dest!: existing_rowsD(1))
  show "sc_proxy_id ` {m \<in> set (subscriber_clients d). sc_user_id m = uid} \<subseteq> fst ` set (existing_rows uid d)"
    using existing_rows_all [OF assms] by blast
qed

lemma seq_disjoint:
  fixes n :: int
  assumes "A \<subseteq> B" "\<And>k. k \<in> B \<Longrightarrow> k \<le> n" "\<And>k. k \<in> C \<Longrightarrow> n < k"
  shows "A \<inter> C = {}"
  using assms by (metis disjoint_iff not_le subsetD)

lemma loop_result_ok:
  assumes E: "entries_ok shuffle uid d es" and L: "loop_result uid active required es now d d' ms cs"
    and U: "distinct (map su_user_id (subscriber_usage d'))"
      "\<forall>u \<in> set (subscriber_usage d'). reading (su_archived_up u) \<and> reading (su_archived_down u)"
  shows "subscribers_ok d'"
proof -
  have ok: "subscribers_ok d"
    using E by (simp add: entries_ok_def)
  let ?keep = "\<lambda>m. \<not> (sc_user_id m = uid \<and> go_map required (sc_proxy_id m) = None)"
  have maps: "subscriber_clients d' = filter ?keep (subscriber_clients d) @ ms" and cl: "clients d' = existing_result now active (go_map required) es (clients d) @ cs"
    and ids: "map sc_client_id ms = map cli_id cs"
    using L by (simp_all add: loop_result_def)
  have old: "cli_id c \<le> clients_seq d" if "c \<in> set (clients d)" for c
    using ok that by (simp add: subscribers_ok_def)
  have new: "clients_seq d < k \<and> k \<le> clients_seq d'" if "k \<in> set (map cli_id cs)" for k
    using L that by (auto simp: loop_result_def)
  have seq: "clients_seq d \<le> clients_seq d'"
    using L by (simp add: loop_result_def)
  have kept: "set (map cli_id (existing_result now active (go_map required) es (clients d))) \<subseteq> set (map cli_id (clients d))"
    unfolding existing_result_ids by (rule filter_is_subset)
  have disj: "set (map cli_id (existing_result now active (go_map required) es (clients d))) \<inter> set (map cli_id cs) = {}"
    by (rule seq_disjoint [OF kept, where n = "clients_seq d"]) (use old new in auto)
  have "distinct (map cli_id (existing_result now active (go_map required) es (clients d)))"
    unfolding existing_result_ids using ok by (intro distinct_filter) (simp add: subscribers_ok_def)
  then have c1: "distinct (map cli_id (clients d'))"
    using L disj unfolding cl by (simp add: loop_result_def)
  have c2: "\<forall>c \<in> set (clients d'). cli_id c \<le> clients_seq d'"
  proof
    fix c
    assume "c \<in> set (clients d')"
    then have "cli_id c \<in> set (map cli_id (clients d)) \<or> cli_id c \<in> set (map cli_id cs)"
      using kept unfolding cl by auto
    then show "cli_id c \<le> clients_seq d'"
    proof
      assume "cli_id c \<in> set (map cli_id (clients d))"
      then obtain x where "x \<in> set (clients d)" "cli_id x = cli_id c"
        by auto
      with old [of x] seq show ?thesis
        by simp
    qed (use new in blast)
  qed
  have mold: "sc_client_id m \<in> cli_id ` set (clients d)" "charges_ok m" "sc_proxy_id m \<in> prx_id ` set (proxies d)" if "m \<in> set (subscriber_clients d)" for m
    using ok that by (simp_all add: subscribers_ok_def)
  have mdisj: "sc_client_id ` set (filter ?keep (subscriber_clients d)) \<inter> sc_client_id ` set ms = {}"
  proof -
    have "sc_client_id ` set ms = set (map cli_id cs)"
      using arg_cong [OF ids, of set] by simp
    moreover have "sc_client_id ` set (filter ?keep (subscriber_clients d)) \<subseteq> set (map cli_id (clients d))"
      using mold(1) by auto
    ultimately show ?thesis
      by (simp only:) (rule seq_disjoint [where n = "clients_seq d"], use old new in auto)
  qed
  have c4: "distinct (map sc_client_id (subscriber_clients d'))"
    unfolding maps map_append distinct_append
  proof (intro conjI)
    show "distinct (map sc_client_id (filter ?keep (subscriber_clients d)))"
      using ok by (simp add: subscribers_ok_def distinct_map_filter)
    show "distinct (map sc_client_id ms)"
      unfolding ids using L by (simp add: loop_result_def)
    show "set (map sc_client_id (filter ?keep (subscriber_clients d))) \<inter> set (map sc_client_id ms) = {}"
      unfolding set_map by (rule mdisj)
  qed
  let ?key = "\<lambda>m. (sc_user_id m, sc_proxy_id m)"
  have "?key ` set (subscriber_clients d) \<inter> ?key ` set ms = {}"
  proof (rule ccontr)
    assume "?key ` set (subscriber_clients d) \<inter> ?key ` set ms \<noteq> {}"
    then obtain m x where m: "m \<in> set (subscriber_clients d)" "x \<in> set ms" "sc_user_id m = sc_user_id x" "sc_proxy_id m = sc_proxy_id x"
      by auto
    have "sc_user_id x = uid" "sc_proxy_id x \<in> fst ` set required - fst ` set (existing_rows uid d)"
      using L m(2) unfolding loop_result_def by blast+
    then show False
      using m unfolding existing_proxies [OF ok] by auto
  qed
  moreover have "distinct (map ?key ms)"
    using L by (auto simp: loop_result_def distinct_map inj_on_def)
  moreover have "distinct (map ?key (filter ?keep (subscriber_clients d)))"
    using ok by (simp add: subscribers_ok_def distinct_map_filter)
  ultimately have c5: "distinct (map ?key (subscriber_clients d'))"
    unfolding maps map_append distinct_append set_map by auto
  have prx: "proxies d' = proxies d"
    using L by (simp add: loop_result_def same_catalog_def)
  have "charges_ok m \<and> sc_client_id m \<in> cli_id ` set (clients d') \<and> sc_proxy_id m \<in> prx_id ` set (proxies d')"
    if m: "m \<in> set (subscriber_clients d')" for m
  proof (cases "m \<in> set ms")
    case True
    then have "sc_client_id m \<in> set (map cli_id cs)"
      unfolding ids [symmetric] by simp
    moreover have "charges_ok m" "sc_proxy_id m \<in> prx_id ` set (proxies d)"
      using L True by (auto simp: loop_result_def charges_ok_def reading_0)
    ultimately show ?thesis
      unfolding cl prx by auto
  next
    case False
    then have mm: "m \<in> set (subscriber_clients d)" "?keep m"
      using m unfolding maps by auto
    have "sc_client_id m \<in> set (map cli_id (existing_result now active (go_map required) es (clients d)))"
      unfolding existing_result_ids using mold(1) [OF mm(1)] obsolete_mapping [OF E mm(1)] mm(2) by simp
    then show ?thesis
      using mold [OF mm(1)] unfolding cl prx by auto
  qed
  with c1 c2 c4 c5 U ok show ?thesis
    unfolding subscribers_ok_def prx by blast
qed

lemma filter_weaker: "(\<And>x. x \<in> set xs \<Longrightarrow> P x \<Longrightarrow> Q x) \<Longrightarrow> filter P (filter Q xs) = filter P xs"
  by (induction xs) auto

lemma loop_result_reconciled:
  assumes E: "entries_ok shuffle uid d es" and L: "loop_result uid active required es now d d' ms cs"
    and told: "\<And>pid e. (pid, e) \<in> set es \<Longrightarrow> go_map required pid = None \<or> ex_effective e \<noteq> active \<Longrightarrow> ex_server e \<in> aff"
      "\<And>k. k \<in> sc_proxy_id ` set ms \<Longrightarrow> \<exists>p \<in> set (proxies d). prx_id p = k \<and> prx_server_id p \<in> aff"
  shows "reconciled uid active (fst ` set required) d d' aff"
proof -
  have ok: "subscribers_ok d"
    using E by (simp add: entries_ok_def)
  let ?keep = "\<lambda>m. \<not> (sc_user_id m = uid \<and> go_map required (sc_proxy_id m) = None)"
  have maps: "subscriber_clients d' = filter ?keep (subscriber_clients d) @ ms" and cl: "clients d' = existing_result now active (go_map required) es (clients d) @ cs"
    and ids: "map sc_client_id ms = map cli_id cs" and mine: "\<forall>m \<in> set ms. sc_user_id m = uid"
    and eff: "\<forall>c \<in> set cs. cli_effective c = active" and fresh: "\<forall>c \<in> set cs. clients_seq d < cli_id c"
    and miss: "sc_proxy_id ` set ms = fst ` set required - fst ` set (existing_rows uid d)"
    using L by (simp_all add: loop_result_def)
  have "sc_proxy_id ` {m \<in> set (subscriber_clients d'). sc_user_id m = uid} =
      (sc_proxy_id ` {m \<in> set (subscriber_clients d). sc_user_id m = uid} \<inter> fst ` set required) \<union> sc_proxy_id ` set ms"
    unfolding maps using mine by (auto simp: go_map_None)
  then have r1: "sc_proxy_id ` {m \<in> set (subscriber_clients d'). sc_user_id m = uid} = fst ` set required"
    unfolding miss existing_proxies [OF ok] by blast
  have r2: "\<exists>c \<in> set (clients d'). cli_id c = sc_client_id m \<and> cli_effective c = active"
    if m: "m \<in> set (subscriber_clients d')" "sc_user_id m = uid" for m
  proof (cases "m \<in> set ms")
    case True
    then have "sc_client_id m \<in> set (map cli_id cs)"
      unfolding ids [symmetric] by simp
    then show ?thesis
      using eff unfolding cl by auto
  next
    case False
    then have "m \<in> set (subscriber_clients d)" "go_map required (sc_proxy_id m) \<noteq> None"
      using m unfolding maps by auto
    from existing_result_effective [where required = "go_map required", OF E this(1) m(2) this(2)] obtain c where
      "c \<in> set (existing_result now active (go_map required) es (clients d))" "cli_id c = sc_client_id m" "cli_effective c = active"
      by blast
    then show ?thesis
      unfolding cl set_append by blast
  qed
  have "filter (\<lambda>m. sc_user_id m \<noteq> uid) ms = []"
    using mine by (simp add: filter_empty_conv)
  then have r3: "filter (\<lambda>m. sc_user_id m \<noteq> uid) (subscriber_clients d') = filter (\<lambda>m. sc_user_id m \<noteq> uid) (subscriber_clients d)"
    unfolding maps filter_append using filter_weaker [of "subscriber_clients d" "\<lambda>m. sc_user_id m \<noteq> uid" ?keep] by simp
  have r4: "c \<in> set (clients d') \<longleftrightarrow> c \<in> set (clients d)" if "cli_id c \<notin> mine uid d \<union> mine uid d'" for c
  proof -
    have "cli_id ` set cs = sc_client_id ` set ms"
      using arg_cong [OF ids, of set] by simp
    then have "cli_id ` set cs \<subseteq> mine uid d'"
      using mine unfolding mine_def maps by auto
    then have "c \<notin> set cs"
      using that by auto
    moreover have "\<not> obsolete (go_map required) es (cli_id c)" "\<not> switched (go_map required) active es (cli_id c)"
      using touched_mine [OF E] that by blast+
    ultimately show ?thesis
      unfolding cl by (simp add: existing_result_other)
  qed
  have r5: "filter (\<lambda>m. sc_proxy_id m = prx_id p) (subscriber_clients d') = filter (\<lambda>m. sc_proxy_id m = prx_id p) (subscriber_clients d) \<and>
      (\<forall>c. cli_id c \<in> sc_client_id ` {m \<in> set (subscriber_clients d). sc_proxy_id m = prx_id p} \<longrightarrow> c \<in> set (clients d') \<longleftrightarrow> c \<in> set (clients d))"
    if p: "p \<in> set (proxies d)" "prx_server_id p \<notin> aff" for p
  proof -
    have uniq: "q = p" if "q \<in> set (proxies d)" "prx_id q = prx_id p" for q
      using distinct_key_unique [of prx_id "proxies d" q p] ok that p(1) by (simp add: subscribers_ok_def)
    have quiet: "go_map required (prx_id p) \<noteq> None \<and> ex_effective e = active" if x: "(prx_id p, e) \<in> set es" for e
    proof -
      obtain q where "q \<in> set (proxies d)" "prx_id q = prx_id p" "prx_server_id q = ex_server e"
        using existing_rowsD(3) [OF go_entries_set [OF entries_okD(1) [OF E] x [unfolded entries_okD(3) [OF E]]]] by blast
      then have quiet_server: "ex_server e \<notin> aff"
        using uniq [of q] p(2) by simp
      show ?thesis
        using told(1) [OF x] quiet_server by (cases "go_map required (prx_id p) = None") auto
    qed
    have "?keep m" if "m \<in> set (subscriber_clients d)" "sc_proxy_id m = prx_id p" for m
      using mapping_entry [OF E that(1)] quiet that(2) by metis
    moreover have "filter (\<lambda>m. sc_proxy_id m = prx_id p) ms = []"
      using told(2) uniq p(2) by (force simp: filter_empty_conv)
    ultimately have "filter (\<lambda>m. sc_proxy_id m = prx_id p) (subscriber_clients d') = filter (\<lambda>m. sc_proxy_id m = prx_id p) (subscriber_clients d)"
      unfolding maps filter_append
      using filter_weaker [of "subscriber_clients d" "\<lambda>m. sc_proxy_id m = prx_id p" ?keep] by simp
    moreover have "c \<in> set (clients d') \<longleftrightarrow> c \<in> set (clients d)"
      if c: "cli_id c = sc_client_id m" "m \<in> set (subscriber_clients d)" "sc_proxy_id m = prx_id p" for c m
    proof -
      have "cli_id c \<le> clients_seq d"
        using ok c(1,2) by (fastforce simp: subscribers_ok_def)
      then have "c \<notin> set cs"
        using fresh by auto
      moreover have q: "\<forall>pid e. (pid, e) \<in> set es \<longrightarrow> ex_client e = cli_id c \<longrightarrow> go_map required pid \<noteq> None \<and> ex_effective e = active"
      proof (intro allI impI)
        fix pid e
        assume e: "(pid, e) \<in> set es" "ex_client e = cli_id c"
        then have "pid = prx_id p"
          using entry_mapping [OF E e(1) c(2)] c by simp
        with quiet e(1) show "go_map required pid \<noteq> None \<and> ex_effective e = active" by blast
      qed
      have "\<not> obsolete (go_map required) es (cli_id c)" "\<not> switched (go_map required) active es (cli_id c)"
        unfolding obsolete_def switched_def using q by blast+
      ultimately show ?thesis
        unfolding cl by (simp add: existing_result_other)
    qed
    ultimately show ?thesis by blast
  qed
  have r6: "same_catalog d d'"
    using L by (simp add: loop_result_def)
  show ?thesis
    unfolding reconciled_def
  proof (intro conjI ballI allI impI)
    fix p and c :: client_row assume "p \<in> set (proxies d)" "prx_server_id p \<notin> aff"
      "cli_id c \<in> sc_client_id ` {m \<in> set (subscriber_clients d). sc_proxy_id m = prx_id p}"
    then show "c \<in> set (clients d') \<longleftrightarrow> c \<in> set (clients d)" using r5 by blast
  qed (rule r1, erule r2, assumption, rule r3, erule r4, use r5 in blast, rule r6)
qed

lemma reset_keeps_ok:
  assumes "reset_subscriber_cycle_if_due now uid d = Inr (fired, d0)" "subscribers_ok d"
  shows "subscribers_ok d0"
proof (cases fired)
  case False
  then have "d0 = d"
    using assms(1) by (auto simp: reset_subscriber_cycle_if_due_def split: option.splits sum.splits if_splits)
  with assms(2) show ?thesis by simp
next
  case True
  then obtain start where d0: "d0 = start_subscriber_cycle start now uid d"
    using assms(1) by (auto simp: reset_subscriber_cycle_if_due_def split: option.splits sum.splits if_splits)
  let ?f = "\<lambda>m. m\<lparr>sc_charged_up := 0, sc_charged_down := 0, sc_rem_up := 0, sc_rem_down := 0\<rparr>"
  have maps: "map g (sql_update (\<lambda>m. sc_user_id m = uid) ?f t) = map g t" if "\<And>m. g (?f m) = g m" for g :: "subscriber_client_row \<Rightarrow> 'k" and t
    by (rule map_sql_update_key) (rule that)
  have "\<forall>m \<in> set (sql_update (\<lambda>m. sc_user_id m = uid) ?f (subscriber_clients d)).
      charges_ok m \<and> sc_client_id m \<in> cli_id ` set (clients d) \<and> sc_proxy_id m \<in> prx_id ` set (proxies d)"
    by (rule sql_update_all) (use assms(2) in \<open>simp_all add: subscribers_ok_def charges_ok_def reading_0\<close>)
  moreover have "\<forall>u \<in> set (subscriber_usage d0). reading (su_archived_up u) \<and> reading (su_archived_down u)"
    unfolding d0 start_subscriber_cycle_def
    by (simp, rule sql_update_all) (use assms(2) in \<open>simp_all add: subscribers_ok_def reading_0\<close>)
  ultimately show ?thesis
    using assms(2) by (simp add: subscribers_ok_def d0 start_subscriber_cycle_def maps map_sql_update_key)
qed

lemma subscriber_row_usage:
  assumes "subscribers_ok d" "subscriber_row uid d = Some (u, p, plan, v)"
  shows "usage_rows uid (su_archived_up v) (su_archived_down v) d" "v \<in> set (subscriber_usage d)" "su_user_id v = uid"
proof -
  have v: "sql_first (\<lambda>u. su_user_id u = uid) (subscriber_usage d) = Some v"
    using assms(2) by (auto simp: subscriber_row_def split: option.splits)
  then show vs: "v \<in> set (subscriber_usage d)" "su_user_id v = uid"
    by (auto dest: sql_first_SomeD)
  have "x = v" if "x \<in> set (subscriber_usage d)" "su_user_id x = uid" for x
    using distinct_key_unique [of su_user_id "subscriber_usage d" x v] assms(1) that vs by (simp add: subscribers_ok_def)
  then show "usage_rows uid (su_archived_up v) (su_archived_down v) d"
    using assms(1) vs(1) unfolding usage_rows_def subscribers_ok_def by blast
qed

definition required_keys :: "subscriber_profile_row \<Rightarrow> panel_db \<Rightarrow> id64 set" where
  "required_keys p d = (case sp_plan_id p of None \<Rightarrow> {} | Some k \<Rightarrow> fst ` set (required_rows k d))"

lemma charges_added_nothing:
  assumes "subscriber_clients d' = xs @ ms" "\<forall>m \<in> set ms. sc_charged_up m = 0 \<and> sc_charged_down m = 0" "subscriber_clients d2 = xs"
    "usage_rows uid up down d2" "usage_rows uid up down d'"
  shows "current_subscriber_usage uid up down d' = current_subscriber_usage uid up down d2"
proof -
  have "sum_list (map charged (filter (\<lambda>m. sc_user_id m = uid) ms)) = 0"
    using assms(2) by (induction ms) (auto simp: charged_def)
  then show ?thesis
    unfolding usage_total [OF assms(4)] usage_total [OF assms(5)] by (simp add: assms(1,3))
qed

lemma reconcile_tx_effect:
  assumes ok: "subscribers_ok d" and perm: "permutes shuffle"
    and r: "reconcile_subscriber_tx shuffle credential now uid (aff, d) = Inr (aff', d')"
  shows "\<exists>fired d0 u p plan v v'. reset_subscriber_cycle_if_due now uid d = Inr (fired, d0) \<and>
    subscriber_row uid d0 = Some (u, p, plan, v) \<and>
    reconciled uid (subscriber_active now p plan (current_subscriber_usage uid (su_archived_up v) (su_archived_down v) d0))
      (required_keys p d0) d0 d' (set aff') \<and>
    set aff \<subseteq> set aff' \<and> subscribers_ok d' \<and> sql_first (\<lambda>u. su_user_id u = uid) (subscriber_usage d') = Some v' \<and>
    current_subscriber_usage uid (su_archived_up v') (su_archived_down v') d' =
      current_subscriber_usage uid (su_archived_up v) (su_archived_down v) d0"
proof -
  obtain fired d0 where reset: "reset_subscriber_cycle_if_due now uid d = Inr (fired, d0)"
    using r by (auto simp: reconcile_subscriber_tx_def split: sum.splits)
  obtain u p plan v where row: "subscriber_row uid d0 = Some (u, p, plan, v)"
    using r by (auto simp: reconcile_subscriber_tx_def reset split: sum.splits option.splits)
  define up down where "up = su_archived_up v" and "down = su_archived_down v"
  define active where "active = subscriber_active now p plan (current_subscriber_usage uid up down d0)"
  define required where "required = (case sp_plan_id p of None \<Rightarrow> [] | Some k \<Rightarrow> required_rows k d0)"
  define es where "es = go_entries shuffle (existing_rows uid d0)"
  obtain st2 st3 where f1: "fold_result (reconcile_existing now uid active (go_map required)) es
      \<lparr>rs_db = d0, rs_up = up, rs_down = down, rs_affected = aff\<rparr> = Inr st2"
    and f2: "fold_result (reconcile_required credential now uid (usr_username u) active (go_map (existing_rows uid d0)))
      (go_entries shuffle required) st2 = Inr st3" and out: "aff' = rs_affected st3" "d' = rs_db st3"
    using r unfolding reconcile_subscriber_tx_def snd_conv fst_conv reset sum.case prod.case row option.case Let_def
      up_def [symmetric] down_def [symmetric] active_def [symmetric] required_def [symmetric] es_def [symmetric]
    by (auto split: sum.splits)
  have ok0: "subscribers_ok d0"
    by (rule reset_keeps_ok [OF reset ok])
  have E: "entries_ok shuffle uid d0 es"
    by (simp add: entries_ok_def perm ok0 es_def)
  note usage = subscriber_row_usage [OF ok0 row, folded up_def down_def]
  note loops = reconcile_loops [OF E usage(1) f1 f2, folded out]
  from loops(1) obtain ms cs where LR: "loop_result uid active required es now d0 d' ms cs"
    and us: "subscriber_usage d' = subscriber_usage (rs_db st2)" and rows: "usage_rows uid (rs_up st3) (rs_down st3) (rs_db st2)"
    and cur: "current_subscriber_usage uid (rs_up st3) (rs_down st3) (rs_db st2) = current_subscriber_usage uid up down d0"
    and app: "subscriber_clients d' = subscriber_clients (rs_db st2) @ ms"
    by blast
  have new: "sc_proxy_id ` set ms = fst ` set required - fst ` set (existing_rows uid d0)" "\<forall>m \<in> set ms. sc_charged_up m = 0 \<and> sc_charged_down m = 0"
    using LR by (simp_all add: loop_result_def)
  have U: "distinct (map su_user_id (subscriber_usage d'))" "\<forall>u \<in> set (subscriber_usage d'). reading (su_archived_up u) \<and> reading (su_archived_down u)"
    using rows unfolding us usage_rows_def by blast+
  have ok': "subscribers_ok d'"
    by (rule loop_result_ok [OF E LR U])
  have keys: "fst ` set required = required_keys p d0"
    by (simp add: required_def required_keys_def split: option.splits)
  have rec: "reconciled uid active (fst ` set required) d0 d' (set aff')"
    by (rule loop_result_reconciled [OF E LR]) (rule loops(3), assumption+, rule loops(4), simp only: new(1))
  have rows': "usage_rows uid (rs_up st3) (rs_down st3) d'"
    using rows ok' unfolding usage_rows_def subscribers_ok_def us by blast
  have "map su_user_id (subscriber_usage (rs_db st2)) = map su_user_id (subscriber_usage d0)"
    by (rule existing_loop_usage [OF f1, simplified])
  then have "uid \<in> su_user_id ` set (subscriber_usage d')"
    using usage(2,3) unfolding us by (metis image_eqI list.set_map)
  then obtain v' where v': "v' \<in> set (subscriber_usage d')" "su_user_id v' = uid"
    by blast
  have first: "sql_first (\<lambda>u. su_user_id u = uid) (subscriber_usage d') = Some v'"
    by (rule sql_first_key [OF U(1) v'])
  have "su_archived_up v' = rs_up st3" "su_archived_down v' = rs_down st3"
    using rows v' unfolding us usage_rows_def by blast+
  then have "current_subscriber_usage uid (su_archived_up v') (su_archived_down v') d' = current_subscriber_usage uid up down d0"
    using charges_added_nothing [OF app new(2) refl rows rows'] cur by simp
  with first reset row loops(2) ok' rec show ?thesis
    unfolding keys active_def up_def down_def by blast
qed

section \<open>What reconciliation achieves\<close>

text \<open>
  C9. A successful reconciliation of a subscriber brings its clients in line with its plan: it
  has exactly one mapped client per proxy its plan publishes, every such client has the effective
  state the quota, the expiry and the two switches decide (usage counted after a due cycle reset
  and before any client is removed), the usage of removed clients is archived so the total does
  not change, other subscribers' clients and mappings are not touched, and every server on which
  something changed is in the list of servers to synchronise. The table invariant is kept,
  whatever the iteration order of the Go maps.
\<close>

theorem reconcile_outcome:
  assumes "subscribers_ok d" "permutes shuffle"
    and "reconcile_subscriber_tx shuffle credential now uid (aff, d) = Inr (aff', d')"
  shows "\<exists>fired d0 u p plan v v'. reset_subscriber_cycle_if_due now uid d = Inr (fired, d0) \<and>
    subscriber_row uid d0 = Some (u, p, plan, v) \<and>
    reconciled uid (subscriber_active now p plan (current_subscriber_usage uid (su_archived_up v) (su_archived_down v) d0))
      (required_keys p d0) d0 d' (set aff') \<and>
    set aff \<subseteq> set aff' \<and> subscribers_ok d' \<and> sql_first (\<lambda>u. su_user_id u = uid) (subscriber_usage d') = Some v' \<and>
    current_subscriber_usage uid (su_archived_up v') (su_archived_down v') d' =
      current_subscriber_usage uid (su_archived_up v) (su_archived_down v) d0"
  by (rule reconcile_tx_effect [OF assms])

text \<open>
  Subscriber 5, with 100 bytes in its plan, has client 9 on proxy 7 of server 1 and client 10 on
  proxy 8 of server 2, whose decommissioning has the given status.
\<close>

definition quota_db :: "string \<Rightarrow> panel_db" where
  "quota_db status = empty_db\<lparr>
     servers := [plain_server 1, (plain_server 2)\<lparr>srv_decom_status := status\<rparr>],
     proxies := [\<lparr>prx_id = 7, prx_server_id = 1, prx_listen_port = 443, prx_enabled = True, prx_name = ''a'',
         prx_protocol = ''vless'', prx_created_at = 0, prx_family = ''ipv4'', prx_entry_mode = ''auto'',
         prx_entry_host = [], prx_config = [], prx_role = ''direct''\<rparr>,
       \<lparr>prx_id = 8, prx_server_id = 2, prx_listen_port = 443, prx_enabled = True, prx_name = ''b'',
         prx_protocol = ''vless'', prx_created_at = 0, prx_family = ''ipv4'', prx_entry_mode = ''auto'',
         prx_entry_host = [], prx_config = [], prx_role = ''direct''\<rparr>],
     clients_seq := 10,
     clients := map (\<lambda>(cid, pid). \<lparr>cli_id = cid, cli_proxy_id = pid, cli_assigned_user = Some 5, cli_enabled = True,
         cli_expires_at = None, cli_limit = None, cli_reset_mode = ''never'', cli_reset_weekday = 1,
         cli_reset_day = 1, cli_reset_time = ''00:00'', cli_effective = True, cli_updated_at = 0,
         cli_name = ''c'', cli_credential = ''k'', cli_udp443 = False, cli_billing = None, cli_created_at = 0\<rparr>) [(9, 7), (10, 8)],
     client_metrics := [\<lparr>cm_client_id = 9, cm_xray_up = 0, cm_xray_down = 0, cm_cycle_up = 0, cm_cycle_down = 0,
       cm_cycle_started = 0, cm_last_activity = None, cm_updated_at = 0\<rparr>],
     subscriber_clients := map (\<lambda>(cid, pid). \<lparr>sc_user_id = 5, sc_proxy_id = pid, sc_client_id = cid, sc_charged_up = 0,
       sc_charged_down = 0, sc_rem_up = 0, sc_rem_down = 0\<rparr>) [(9, 7), (10, 8)],
     subscriber_usage := [\<lparr>su_user_id = 5, su_archived_up = 0, su_archived_down = 0, su_cycle_started = 0, su_updated_at = 0\<rparr>],
     subscriber_profiles := [\<lparr>sp_user_id = 5, sp_plan_id = Some 3, sp_enabled = True, sp_expires_at = None,
       sp_reset_mode = ''never'', sp_reset_day = 1, sp_reset_time = ''00:00'', sp_billing = None, sp_token = ''t''\<rparr>],
     accounts := empty_accounts\<lparr>users := [\<lparr>usr_id = 5, usr_username = ''bob'', usr_password_hash = ''h'',
       usr_role = ''subscriber'', usr_email = None, usr_verified_at = None, usr_created_at = 0, usr_updated_at = 0\<rparr>]\<rparr>,
     plans := [\<lparr>pln_id = 3, pln_enabled = True, pln_limit = Some 100\<rparr>],
     plan_nodes := [\<lparr>pn_plan_id = 3, pn_node_id = 4\<rparr>, \<lparr>pn_plan_id = 3, pn_node_id = 6\<rparr>],
     published_nodes := map (\<lambda>(nid, pid). \<lparr>pub_id = nid, pub_target_proxy = pid, pub_multiplier = 100,
       pub_mode = ''direct'', pub_source_server = None, pub_enabled = True, pub_created_at = 0, pub_relay = None\<rparr>) [(4, 7), (6, 8)]\<rparr>"


lemma quota_db_ok: "subscribers_ok (quota_db status)"
  by (simp add: subscribers_ok_def quota_db_def charges_ok_def reading_def max_int64_def empty_db_def)

lemma permutes_id: "permutes (\<lambda>ks. ks)"
  by (simp add: permutes_def)

theorem reconcile_outcome_witness:
  "\<exists>d'. reconcile_subscriber_tx (\<lambda>ks. ks) (\<lambda>_. Inr ''k'') 50 5 ([], quota_db []) = Inr ([], d') \<and> subscribers_ok d'"
proof -
  have "case reconcile_subscriber_tx (\<lambda>ks. ks) (\<lambda>_. Inr ''k'') 50 5 ([], quota_db []) of Inl _ \<Rightarrow> False | Inr (ids, _) \<Rightarrow> ids = []"
    by code_simp
  then obtain d' where r: "reconcile_subscriber_tx (\<lambda>ks. ks) (\<lambda>_. Inr ''k'') 50 5 ([], quota_db []) = Inr ([], d')"
    by (auto dest!: run_returns)
  show ?thesis
    using reconcile_outcome [OF quota_db_ok permutes_id r] r by blast
qed







end
