(* ===== verification/LoginLimiter.thy ===== *)
theory LoginLimiter
  imports GoStrings "HOL-Library.AList"
begin

text \<open>
  The limiter of failed logins and password resets (\<open>panel/internal/api/login_limiter.go\<close>).
  Its two maps are association lists without duplicate keys; instants and durations are
  nanoseconds. The mutex makes every operation one step. \<open>strings.ToLower\<close>, a table of the
  whole of Unicode, is the argument \<open>lower\<close>.
\<close>

section \<open>The code\<close>






record login_failure =
  lf_count :: int
  lf_started :: int

type_synonym attempt_key = "string \<times> string"

record login_limiter =
  pair_failures :: "(attempt_key \<times> login_failure) list"
  ip_failures :: "(string \<times> login_failure) list"
  pair_limit :: int











definition reset_attempts :: "(string \<Rightarrow> string) \<Rightarrow> string \<Rightarrow> string \<Rightarrow> login_limiter \<Rightarrow> login_limiter" where
  "reset_attempts lower ip username l =
     l\<lparr>pair_failures := AList.delete (ip, normalize_login_identifier lower username) (pair_failures l)\<rparr>"

section \<open>Counting in fixed windows\<close>










section \<open>One key of a map\<close>







section \<open>One map\<close>









section \<open>Runs of attempts\<close>




















end
