(* ===== verification/ListOrder.thy ===== *)
theory ListOrder
  imports Operations "HOL-Library.Multiset" "HOL-Library.Option_ord" "HOL-Library.Char_ord" "HOL-Library.List_Lexorder"
begin

text \<open>
  The personal order of the lists (\<open>panel/internal/listorder/order.go\<close>). A row of an order
  table gives a resource its position in one user's list; \<open>Sort\<close> puts resources without
  a row first, \<open>Move\<close> exchanges two neighbours of the visible list. Usernames are compared
  as byte strings, SQLite's default collation.
\<close>

section \<open>The code\<close>

datatype order_error = ErrOrderNotFound | ErrInvalidDirection | ErrOrderConstraint

definition order_rows :: "id64 \<Rightarrow> list_kind \<Rightarrow> panel_db \<Rightarrow> order_row list" where
  "order_rows uid kind d = sort_key ord_position (sort_key ord_resource_id
     (filter (\<lambda>r. ord_user_id r = uid) (list_orders d kind)))"

text \<open>The map and the list \<open>readPositions\<close> returns; a later row overwrites an earlier one.\<close>

definition row_position :: "order_row \<Rightarrow> id64 \<times> int" where
  "row_position r = (ord_resource_id r, ord_position r)"

definition read_positions :: "order_row list \<Rightarrow> (id64 \<rightharpoonup> int) \<times> id64 list" where
  "read_positions rows = (map_of (rev (map row_position rows)), map ord_resource_id rows)"

text \<open>\<open>sort.SliceStable\<close> with the comparison \<open>less\<close>; \<open>None\<close> is below every position.\<close>

definition sort_less :: "(id64 \<rightharpoonup> int) \<Rightarrow> id64 \<Rightarrow> id64 \<Rightarrow> bool" where
  "sort_less positions i j =
     (let l = positions i; r = positions j
      in if (l \<noteq> None) \<noteq> (r \<noteq> None) then l = None else l \<noteq> None \<and> the l < the r)"

definition sort_visible :: "id64 list \<Rightarrow> (id64 \<rightharpoonup> int) \<Rightarrow> id64 list" where
  "sort_visible ids positions = sort_key positions ids"

lemma sort_less_key: "sort_less positions i j \<longleftrightarrow> positions i < positions j"
  by (cases "positions i"; cases "positions j") (simp_all add: sort_less_def)

definition sort_list :: "id64 \<Rightarrow> list_kind \<Rightarrow> id64 list \<Rightarrow> panel_db \<Rightarrow> id64 list" where
  "sort_list uid kind ids d = sort_visible ids (fst (read_positions (order_rows uid kind d)))"

definition newest_first :: "('r \<Rightarrow> unix_time) \<Rightarrow> ('r \<Rightarrow> id64) \<Rightarrow> 'r list \<Rightarrow> 'r list" where
  "newest_first created key rows = sort_key (\<lambda>r. - created r) (sort_key (\<lambda>r. - key r) rows)"

definition server_seen :: "id64 \<Rightarrow> panel_db \<Rightarrow> id64 \<Rightarrow> bool" where
  "server_seen uid d sid = sql_exists (\<lambda>s. srv_id s = sid \<and> visible_server uid d s) (servers d)"

definition target_seen :: "id64 \<Rightarrow> panel_db \<Rightarrow> relay_row \<Rightarrow> bool" where
  "target_seen uid d r = (rel_target_type r \<noteq> ''proxy'' \<or>
     sql_exists (\<lambda>p. rel_target_proxy r = Some (prx_id p) \<and> server_seen uid d (prx_server_id p)) (proxies d))"

definition access_or_public :: "id64 \<Rightarrow> panel_db \<Rightarrow> server_row \<Rightarrow> bool" where
  "access_or_public uid d s \<longleftrightarrow> srv_visibility s = ''public'' \<or>
     sql_exists (\<lambda>a. acc_server_id a = srv_id s \<and> acc_user_id a = uid) (server_access d)"

definition visible_query :: "list_kind \<Rightarrow> bool \<Rightarrow> id64 \<Rightarrow> panel_db \<Rightarrow> id64 list" where
  "visible_query kind archived uid d = (case kind of
     Users \<Rightarrow> map usr_id (sort_key usr_username (sort_key usr_id (users (accounts d))))
   | PersonalSubscriptions \<Rightarrow> map grp_id (newest_first grp_created_at grp_id (filter (\<lambda>g. grp_owner g = uid) (personal_groups d)))
   | PublishedNodes \<Rightarrow> map pub_id (newest_first pub_created_at pub_id (published_nodes d))
   | Landings \<Rightarrow> map lan_id (newest_first lan_created_at lan_id
       (filter (\<lambda>l. lan_owner l = uid \<or> lan_visibility l = ''public'') (landings d)))
   | Servers \<Rightarrow> map srv_id (newest_first srv_created_at srv_id
       (filter (\<lambda>s. (srv_archived_at s \<noteq> None) = archived \<and> access_or_public uid d s) (servers d)))
   | Proxies \<Rightarrow> map prx_id (newest_first prx_created_at prx_id
       (filter (\<lambda>p. server_seen uid d (prx_server_id p)) (proxies d)))
   | Relays \<Rightarrow> map rel_id (newest_first rel_created_at rel_id
       (filter (\<lambda>r. server_seen uid d (rel_server_id r) \<and> target_seen uid d r) (relays d))))"

fun index_of :: "id64 \<Rightarrow> id64 list \<Rightarrow> nat option" where
  "index_of x [] = None"
| "index_of x (y # ys) = (if y = x then Some 0 else map_option Suc (index_of x ys))"

text \<open>The inserts of the new rows, with the two keys of the table.\<close>

fun insert_positions :: "id64 \<Rightarrow> int \<Rightarrow> id64 list \<Rightarrow> order_row list \<Rightarrow> order_error + order_row list" where
  "insert_positions uid pos [] rows = Inr rows"
| "insert_positions uid pos (x # xs) rows =
     (if sql_exists (\<lambda>r. ord_user_id r = uid \<and> (ord_resource_id r = x \<or> ord_position r = pos)) rows then Inl ErrOrderConstraint
      else insert_positions uid (pos + 1) xs (rows @ [\<lparr>ord_user_id = uid, ord_resource_id = x, ord_position = pos\<rparr>]))"

definition swap_at :: "nat \<Rightarrow> nat \<Rightarrow> 'a list \<Rightarrow> 'a list" where
  "swap_at i j xs = xs[i := xs ! j, j := xs ! i]"

definition move :: "id64 \<Rightarrow> list_kind \<Rightarrow> bool \<Rightarrow> id64 \<Rightarrow> string \<Rightarrow> panel_db \<Rightarrow> order_error + panel_db" where
  "move uid kind archived rid direction d =
     (if direction \<noteq> ''up'' \<and> direction \<noteq> ''down'' then Inl ErrInvalidDirection
      else if kind \<noteq> Servers \<and> archived then Inl ErrOrderNotFound
      else let (positions, stored) = read_positions (order_rows uid kind d);
               visible = sort_visible (visible_query kind archived uid d) positions
           in case index_of rid visible of
             None \<Rightarrow> Inl ErrOrderNotFound
           | Some index \<Rightarrow>
               let neighbor = (if direction = ''down'' then int index + 1 else int index - 1)
               in if neighbor < 0 \<or> neighbor \<ge> int (length visible) then Inr d
                  else let swapped = swap_at index (nat neighbor) visible;
                           full = swapped @ filter (\<lambda>x. x \<notin> set swapped) stored;
                           cleared = sql_delete (\<lambda>r. ord_user_id r = uid) (list_orders d kind)
                       in case insert_positions uid 1 full cleared of
                            Inl e \<Rightarrow> Inl e
                          | Inr rows \<Rightarrow> Inr (d\<lparr>list_orders := (list_orders d)(kind := rows)\<rparr>))"

section \<open>Sorting\<close>

lemma index_of_None: "index_of x xs = None \<longleftrightarrow> x \<notin> set xs"
  by (induction xs) auto

lemma index_of_Some: "index_of x xs = Some i \<Longrightarrow> i < length xs \<and> xs ! i = x"
  by (induction xs arbitrary: i) (auto split: if_splits)

lemma insort_key_order:
  "(\<And>y. y \<in> set xs \<Longrightarrow> f x \<le> f y \<longleftrightarrow> g x \<le> g y) \<Longrightarrow> insort_key f x xs = insort_key g x xs"
  by (induction xs) auto

text \<open>The result of a stable sort depends on the order of the keys only.\<close>

lemma sort_key_order:
  "(\<And>x y. x \<in> set xs \<Longrightarrow> y \<in> set xs \<Longrightarrow> f x \<le> f y \<longleftrightarrow> g x \<le> g y) \<Longrightarrow> sort_key f xs = sort_key g xs"
proof (induction xs)
  case (Cons x xs)
  then have eq: "sort_key f xs = sort_key g xs"
    by (intro Cons.IH) simp
  have "insort_key f x (sort_key g xs) = insort_key g x (sort_key g xs)"
    by (rule insort_key_order, rule Cons.prems) simp_all
  then show ?case
    by (simp add: eq)
qed simp

lemma set_swap_at [simp]: "i < length xs \<Longrightarrow> j < length xs \<Longrightarrow> set (swap_at i j xs) = set xs"
  by (simp add: swap_at_def set_swap)

lemma mset_swap_at [simp]: "i < length xs \<Longrightarrow> j < length xs \<Longrightarrow> mset (swap_at i j xs) = mset xs"
  by (simp add: swap_at_def mset_swap)

lemma length_swap_at [simp]: "length (swap_at i j xs) = length xs"
  by (simp add: swap_at_def)

lemma distinct_swap_at [simp]: "i < length xs \<Longrightarrow> j < length xs \<Longrightarrow> distinct (swap_at i j xs) = distinct xs"
  by (simp add: swap_at_def distinct_swap)

lemma swap_at_twice: "i < length xs \<Longrightarrow> j < length xs \<Longrightarrow> swap_at j i (swap_at i j xs) = xs"
  by (rule nth_equalityI) (auto simp: swap_at_def nth_list_update)

section \<open>The rows written by a move\<close>

primrec numbered :: "id64 \<Rightarrow> int \<Rightarrow> id64 list \<Rightarrow> order_row list" where
  "numbered uid pos [] = []"
| "numbered uid pos (x # xs) = \<lparr>ord_user_id = uid, ord_resource_id = x, ord_position = pos\<rparr> # numbered uid (pos + 1) xs"

lemma numbered_resources [simp]: "map ord_resource_id (numbered uid pos xs) = xs"
  by (induction xs arbitrary: pos) auto

lemma numbered_row: "r \<in> set (numbered uid pos xs) \<Longrightarrow>
    ord_user_id r = uid \<and> pos \<le> ord_position r \<and> ord_resource_id r \<in> set xs"
  by (induction xs arbitrary: pos) force+

lemma numbered_sorted: "sorted (map ord_position (numbered uid pos xs))"
  by (induction xs arbitrary: pos) (force dest: numbered_row)+

lemma insert_positions_ok:
  assumes "distinct xs" "\<And>r. r \<in> set rows \<Longrightarrow> ord_user_id r = uid \<Longrightarrow> ord_resource_id r \<notin> set xs \<and> ord_position r < pos"
  shows "insert_positions uid pos xs rows = Inr (rows @ numbered uid pos xs)"
  using assms
proof (induction xs arbitrary: pos rows)
  case (Cons x xs)
  have "\<not> sql_exists (\<lambda>r. ord_user_id r = uid \<and> (ord_resource_id r = x \<or> ord_position r = pos)) rows"
    using Cons.prems(2) by (force simp: sql_exists_iff)
  moreover have "insert_positions uid (pos + 1) xs (rows @ [\<lparr>ord_user_id = uid, ord_resource_id = x, ord_position = pos\<rparr>]) =
      Inr ((rows @ [\<lparr>ord_user_id = uid, ord_resource_id = x, ord_position = pos\<rparr>]) @ numbered uid (pos + 1) xs)"
  proof (rule Cons.IH)
    show "distinct xs"
      using Cons.prems(1) by simp
    fix r
    assume "r \<in> set (rows @ [\<lparr>ord_user_id = uid, ord_resource_id = x, ord_position = pos\<rparr>])" "ord_user_id r = uid"
    then have "r \<in> set rows \<or> r = \<lparr>ord_user_id = uid, ord_resource_id = x, ord_position = pos\<rparr>"
      by auto
    then show "ord_resource_id r \<notin> set xs \<and> ord_position r < pos + 1"
      using Cons.prems(1) Cons.prems(2) [of r] \<open>ord_user_id r = uid\<close> by (elim disjE) auto
  qed
  ultimately show ?case by simp
qed simp

text \<open>The two keys of an order table.\<close>

definition order_keys :: "order_row list \<Rightarrow> bool" where
  "order_keys rows \<longleftrightarrow> distinct (map (\<lambda>r. (ord_user_id r, ord_resource_id r)) rows) \<and>
     distinct (map (\<lambda>r. (ord_user_id r, ord_position r)) rows)"

definition resource_keys :: "panel_db \<Rightarrow> bool" where
  "resource_keys d \<longleftrightarrow> distinct (map usr_id (users (accounts d))) \<and> distinct (map grp_id (personal_groups d)) \<and>
     distinct (map pub_id (published_nodes d)) \<and> distinct (map lan_id (landings d)) \<and>
     distinct (map srv_id (servers d)) \<and> distinct (map prx_id (proxies d)) \<and> distinct (map rel_id (relays d))"

lemma distinct_map_sort_key: "distinct (map g (sort_key f xs)) = distinct (map g xs)"
  by (metis mset_map mset_sort mset_eq_imp_distinct_iff)

lemma visible_distinct: "resource_keys d \<Longrightarrow> distinct (visible_query kind archived uid d)"
  by (cases kind) (simp_all add: visible_query_def resource_keys_def newest_first_def distinct_map_sort_key distinct_map_filter)

section \<open>Positions\<close>

lemma map_of_rev: "distinct (map fst xs) \<Longrightarrow> map_of (rev xs) = map_of xs"
  by (simp add: map_of_inject_set rev_map [symmetric])

lemma strict_index:
  fixes f :: "'a \<Rightarrow> 'b :: linorder"
  assumes "sorted_wrt (<) (map f xs)" "i < length xs" "j < length xs"
  shows "f (xs ! i) \<le> f (xs ! j) \<longleftrightarrow> i \<le> j"
proof (cases "i = j")
  case False
  have lt: "f (xs ! a) < f (xs ! b)" if "a < b" "b < length xs" for a b
    using assms(1) that by (simp add: sorted_wrt_iff_nth_less)
  show ?thesis
  proof (cases "i < j")
    case True
    then show ?thesis using lt [of i j] assms by simp
  next
    case False
    with \<open>i \<noteq> j\<close> have "j < i" by simp
    then show ?thesis using lt [of j i] assms by simp
  qed
qed simp

text \<open>Two strict numberings of the same list order its elements alike.\<close>

lemma strict_same_order:
  fixes f :: "'a \<Rightarrow> 'b :: linorder" and g :: "'a \<Rightarrow> 'c :: linorder"
  assumes "sorted_wrt (<) (map f xs)" "sorted_wrt (<) (map g xs)" "x \<in> set xs" "y \<in> set xs"
  shows "f x \<le> f y \<longleftrightarrow> g x \<le> g y"
proof -
  obtain i j where "i < length xs" "xs ! i = x" "j < length xs" "xs ! j = y"
    using assms(3,4) by (auto simp: in_set_conv_nth)
  then show ?thesis
    using strict_index [OF assms(1), of i j] strict_index [OF assms(2), of i j] by simp
qed

lemma sort_key_strict:
  fixes f :: "'a \<Rightarrow> 'b :: linorder"
  assumes "sorted_wrt (<) (map f ys)" "mset xs = mset ys"
  shows "sort_key f xs = ys"
proof (rule sort_key_inj_key_eq [OF assms(2)])
  have "distinct (map f ys)"
    using assms(1) by (simp add: strict_sorted_iff)
  then show "inj_on f (set xs)"
    using assms(2) by (metis distinct_map mset_eq_setD)
  show "sorted (map f ys)"
    using assms(1) by (simp add: strict_sorted_iff)
qed

lemma numbered_positions: "map fst (map row_position (numbered uid pos xs)) = xs"
  by (induction xs arbitrary: pos) (auto simp: row_position_def)

lemma numbered_position:
  "distinct xs \<Longrightarrow> i < length xs \<Longrightarrow> map_of (map row_position (numbered uid pos xs)) (xs ! i) = Some (pos + int i)"
proof (induction xs arbitrary: pos i)
  case (Cons x xs)
  then show ?case
    by (cases i) (auto simp: row_position_def nth_mem)
qed simp

lemma numbered_strict:
  "distinct xs \<Longrightarrow> sorted_wrt (<) (map (map_of (map row_position (numbered uid pos xs))) xs)"
  by (simp add: sorted_wrt_iff_nth_less numbered_position)

lemma read_numbered:
  assumes "distinct xs"
  shows "read_positions (sort_key ord_position (sort_key ord_resource_id (numbered uid pos xs))) =
    (map_of (map row_position (numbered uid pos xs)), xs)"
proof -
  have "sorted_wrt (<) (map ord_position (numbered uid pos xs))"
    by (induction xs arbitrary: pos) (force dest: numbered_row)+
  then have "sort_key ord_position (sort_key ord_resource_id (numbered uid pos xs)) = numbered uid pos xs"
    by (rule sort_key_strict) simp
  moreover have "map_of (rev (map row_position (numbered uid pos xs))) = map_of (map row_position (numbered uid pos xs))"
    by (rule map_of_rev) (simp only: numbered_positions assms)
  ultimately show ?thesis
    by (simp add: read_positions_def)
qed

text \<open>The rows of a user before a move: a strict numbering too.\<close>

lemma read_stored:
  assumes "order_keys (list_orders d kind)" "read_positions (order_rows uid kind d) = (positions, stored)"
  shows "distinct stored" "sorted_wrt (<) (map positions stored)" "positions x = None \<longleftrightarrow> x \<notin> set stored"
proof -
  let ?mine = "filter (\<lambda>r. ord_user_id r = uid) (list_orders d kind)"
  have own: "distinct (map ord_resource_id ?mine)" "distinct (map ord_position ?mine)"
    using assms(1) by (auto simp: order_keys_def distinct_map inj_on_def)
  have res: "distinct (map ord_resource_id (order_rows uid kind d))" "distinct (map ord_position (order_rows uid kind d))"
    using own by (simp_all add: order_rows_def distinct_map_sort_key)
  have keys: "map fst (map row_position (order_rows uid kind d)) = map ord_resource_id (order_rows uid kind d)"
    by (simp add: row_position_def)
  have eq: "positions = map_of (map row_position (order_rows uid kind d))" "stored = map ord_resource_id (order_rows uid kind d)"
    using assms(2) map_of_rev [of "map row_position (order_rows uid kind d)"] res(1) unfolding keys
    by (simp_all add: read_positions_def)
  show "distinct stored"
    using res(1) by (simp add: eq)
  show "positions x = None \<longleftrightarrow> x \<notin> set stored"
    unfolding eq map_of_eq_None_iff set_map [symmetric] keys ..
  have "positions (ord_resource_id r) = Some (ord_position r)" if "r \<in> set (order_rows uid kind d)" for r
    unfolding eq(1)
  proof (rule map_of_is_SomeI)
    show "distinct (map fst (map row_position (order_rows uid kind d)))"
      unfolding keys by (rule res(1))
    show "(ord_resource_id r, ord_position r) \<in> set (map row_position (order_rows uid kind d))"
      using that by (force simp: row_position_def)
  qed
  then have "map positions stored = map (\<lambda>r. Some (ord_position r)) (order_rows uid kind d)"
    by (simp add: eq(2))
  moreover have "sorted_wrt (<) (map ord_position (order_rows uid kind d))"
    using res(2) by (simp add: strict_sorted_iff order_rows_def)
  ultimately show "sorted_wrt (<) (map positions stored)"
    by (simp add: sorted_wrt_map)
qed

section \<open>A move exchanges two neighbours\<close>

definition my_list :: "id64 \<Rightarrow> list_kind \<Rightarrow> bool \<Rightarrow> panel_db \<Rightarrow> id64 list" where
  "my_list uid kind archived d = sort_list uid kind (visible_query kind archived uid d) d"

lemma visible_query_orders [simp]: "visible_query kind archived uid (d\<lparr>list_orders := x\<rparr>) = visible_query kind archived uid d"
  by (cases kind) (simp_all add: visible_query_def server_seen_def visible_server_def target_seen_def access_or_public_def
      cong: filter_cong)

lemma resource_keys_orders: "d1 = d\<lparr>list_orders := x\<rparr> \<Longrightarrow> resource_keys d1 = resource_keys d"
  by (simp add: resource_keys_def)

lemma set_my_list: "set (my_list uid kind archived d) = set (visible_query kind archived uid d)"
  by (simp add: my_list_def sort_list_def sort_visible_def)

definition save_order :: "id64 \<Rightarrow> list_kind \<Rightarrow> id64 list \<Rightarrow> panel_db \<Rightarrow> panel_db" where
  "save_order uid kind full d = d\<lparr>list_orders := (list_orders d)(kind :=
     sql_delete (\<lambda>r. ord_user_id r = uid) (list_orders d kind) @ numbered uid 1 full)\<rparr>"

lemma read_saved:
  assumes "distinct full"
  shows "read_positions (order_rows uid kind (save_order uid kind full d)) = (map_of (map row_position (numbered uid 1 full)), full)"
proof -
  have "filter (\<lambda>r. ord_user_id r = uid) (numbered uid 1 full) = numbered uid 1 full"
    by (auto simp: filter_id_conv dest: numbered_row)
  then have "order_rows uid kind (save_order uid kind full d) =
      sort_key ord_position (sort_key ord_resource_id (numbered uid 1 full))"
    by (simp add: order_rows_def save_order_def sql_delete_def)
  then show ?thesis
    by (simp add: read_numbered assms)
qed

lemma save_order_keys:
  assumes "order_keys (list_orders d kind)" "distinct full"
  shows "order_keys (list_orders (save_order uid kind full d) kind)"
proof -
  let ?old = "sql_delete (\<lambda>r. ord_user_id r = uid) (list_orders d kind)"
  have new: "map (\<lambda>r. (ord_user_id r, ord_resource_id r)) (numbered uid pos full) = map (Pair uid) full" for pos
    by (induction full arbitrary: pos) auto
  have pos: "distinct (map (\<lambda>r. (ord_user_id r, ord_position r)) (numbered uid p xs))" for p xs
    by (induction xs arbitrary: p) (force dest: numbered_row)+
  have "(\<lambda>r. (ord_user_id r, g r)) ` set ?old \<inter> (\<lambda>r. (ord_user_id r, g r)) ` set (numbered uid 1 full) = {}" for g :: "order_row \<Rightarrow> int"
    by (auto simp: sql_delete_def dest!: numbered_row)
  moreover have "distinct (map (\<lambda>r. (ord_user_id r, ord_resource_id r)) (numbered uid 1 full))"
    unfolding new using assms(2) by (simp add: distinct_map inj_on_def)
  ultimately show ?thesis
    using assms(1) pos by (simp add: order_keys_def save_order_def sql_delete_def distinct_map_filter)
qed

lemma move_saves:
  assumes keys: "resource_keys d" "order_keys (list_orders d kind)" and dir: "direction = ''up'' \<or> direction = ''down''"
    and arch: "kind = Servers \<or> \<not> archived"
    and read: "read_positions (order_rows uid kind d) = (positions, stored)"
  shows "move uid kind archived rid direction d =
    (case index_of rid (my_list uid kind archived d) of
       None \<Rightarrow> Inl ErrOrderNotFound
     | Some i \<Rightarrow>
         let j = (if direction = ''down'' then int i + 1 else int i - 1);
             swapped = swap_at i (nat j) (my_list uid kind archived d)
         in if j < 0 \<or> j \<ge> int (length (my_list uid kind archived d)) then Inr d
            else Inr (save_order uid kind (swapped @ filter (\<lambda>x. x \<notin> set swapped) stored) d))"
proof (cases "index_of rid (my_list uid kind archived d)")
  case None
  then show ?thesis
    using dir arch by (auto simp: move_def my_list_def sort_list_def read)
next
  case (Some i)
  let ?L = "my_list uid kind archived d"
  define j where "j = (if direction = ''down'' then int i + 1 else int i - 1)"
  let ?full = "swap_at i (nat j) ?L @ filter (\<lambda>x. x \<notin> set (swap_at i (nat j) ?L)) stored"
  have L: "sort_visible (visible_query kind archived uid d) positions = ?L"
    by (simp add: my_list_def sort_list_def read)
  have d: "distinct ?L"
    using visible_distinct [OF keys(1)] by (simp add: my_list_def sort_list_def sort_visible_def)
  have i: "i < length ?L"
    using index_of_Some [OF Some] by simp
  have ins: "insert_positions uid 1 ?full (sql_delete (\<lambda>r. ord_user_id r = uid) (list_orders d kind)) =
      Inr (sql_delete (\<lambda>r. ord_user_id r = uid) (list_orders d kind) @ numbered uid 1 ?full)"
    if "0 \<le> j" "j < int (length ?L)"
    using d i that read_stored(1) [OF keys(2) read] by (intro insert_positions_ok) (auto simp: sql_delete_def)
  have pre: "\<not> (direction \<noteq> ''up'' \<and> direction \<noteq> ''down'')" "\<not> (kind \<noteq> Servers \<and> archived)"
    using dir arch by auto
  show ?thesis
    unfolding move_def read Let_def prod.case L Some option.case j_def [symmetric] save_order_def
    using ins pre by (cases "j < 0 \<or> j \<ge> int (length ?L)") auto
qed

lemma save_order_views:
  assumes keys: "resource_keys d" "order_keys (list_orders d kind)"
    and read: "read_positions (order_rows uid kind d) = (positions, stored)"
    and sw: "mset swapped = mset (my_list uid kind archived d)"
    and d': "d' = save_order uid kind (swapped @ filter (\<lambda>x. x \<notin> set swapped) stored) d"
  shows "my_list uid kind archived d' = swapped"
    "set ids \<inter> set swapped = {} \<Longrightarrow> sort_list uid kind ids d' = sort_list uid kind ids d"
proof -
  let ?hidden = "filter (\<lambda>x. x \<notin> set swapped) stored"
  define f where "f = map_of (map row_position (numbered uid 1 (swapped @ ?hidden)))"
  note stored = read_stored [OF keys(2) read]
  have mv: "mset swapped = mset (visible_query kind archived uid d)"
    using sw by (simp add: my_list_def sort_list_def sort_visible_def)
  have ds: "distinct swapped"
    using mset_eq_imp_distinct_iff [OF mv] visible_distinct [OF keys(1)] by simp
  then have df: "distinct (swapped @ ?hidden)"
    using stored(1) by auto
  have read': "read_positions (order_rows uid kind d') = (f, swapped @ ?hidden)"
    unfolding d' f_def by (rule read_saved [OF df])
  have strict: "sorted_wrt (<) (map f (swapped @ ?hidden))"
    unfolding f_def by (rule numbered_strict [OF df])
  have q: "visible_query kind archived uid d' = visible_query kind archived uid d"
    by (simp add: d' save_order_def)
  have "sorted_wrt (<) (map f swapped)"
    using strict by (simp add: sorted_wrt_append)
  then have "sort_key f (visible_query kind archived uid d) = swapped"
    by (rule sort_key_strict) (simp add: mv)
  then show "my_list uid kind archived d' = swapped"
    unfolding my_list_def sort_list_def sort_visible_def read' q by simp
  have fh: "sorted_wrt (<) (map f ?hidden)" "sorted_wrt (<) (map positions ?hidden)"
    using strict stored(2) by (simp_all add: sorted_wrt_append sorted_wrt_map sorted_wrt_filter)
  have fnone: "f x = None \<longleftrightarrow> x \<notin> set (swapped @ ?hidden)" for x
    unfolding f_def map_of_eq_None_iff set_map [symmetric] numbered_positions ..
  show "sort_list uid kind ids d' = sort_list uid kind ids d" if dis: "set ids \<inter> set swapped = {}"
  proof -
    have "f x \<le> f y \<longleftrightarrow> positions x \<le> positions y" if "x \<in> set ids" "y \<in> set ids" for x y
    proof -
      have x: "f z = None \<longleftrightarrow> positions z = None" "positions z \<noteq> None \<longleftrightarrow> z \<in> set ?hidden" if "z \<in> set ids" for z
        using dis that fnone [of z] stored(3) [of z] by auto
      show ?thesis
      proof (cases "positions x = None \<or> positions y = None")
        case True
        then show ?thesis
          using x(1) [OF \<open>x \<in> set ids\<close>] x(1) [OF \<open>y \<in> set ids\<close>]
          by (metis less_eq_option_None less_eq_option_None_is_None)
      next
        case False
        then show ?thesis
          using x(2) that by (intro strict_same_order [OF fh]) blast+
      qed
    qed
    then have "sort_key f ids = sort_key positions ids"
      by (rule sort_key_order)
    then show ?thesis
      by (simp add: sort_list_def sort_visible_def read' read)
  qed
qed

lemma move_effect:
  assumes keys: "resource_keys d" "order_keys (list_orders d kind)" and dir: "direction = ''up'' \<or> direction = ''down''"
    and arch: "kind = Servers \<or> \<not> archived" and m: "move uid kind archived rid direction d = Inr d'"
    and L: "L = my_list uid kind archived d"
  shows "\<exists>i j. i < length L \<and> L ! i = rid \<and> j = (if direction = ''down'' then int i + 1 else int i - 1) \<and>
      (if 0 \<le> j \<and> j < int (length L) then my_list uid kind archived d' = swap_at i (nat j) L else d' = d)"
    "d' = d\<lparr>list_orders := (list_orders d)(kind := list_orders d' kind)\<rparr> \<and> order_keys (list_orders d' kind)"
    "filter (\<lambda>r. ord_user_id r \<noteq> uid) (list_orders d' kind) = filter (\<lambda>r. ord_user_id r \<noteq> uid) (list_orders d kind)"
    "set ids \<inter> set L = {} \<Longrightarrow> sort_list uid kind ids d' = sort_list uid kind ids d"
proof -
  obtain positions stored where read: "read_positions (order_rows uid kind d) = (positions, stored)"
    by (metis prod.exhaust)
  note ms = move_saves [OF keys dir arch read, of rid, folded L]
  obtain i where i: "index_of rid L = Some i"
    using ms m by (cases "index_of rid L") auto
  define j where "j = (if direction = ''down'' then int i + 1 else int i - 1)"
  let ?sw = "swap_at i (nat j) L"
  let ?full = "?sw @ filter (\<lambda>x. x \<notin> set ?sw) stored"
  have d': "d' = (if j < 0 \<or> j \<ge> int (length L) then d else save_order uid kind ?full d)"
    using ms m i by (auto simp: j_def Let_def split: if_splits)
  have i': "i < length L" "L ! i = rid"
    using index_of_Some [OF i] by simp_all
  consider "d' = d" "j < 0 \<or> j \<ge> int (length L)" | "d' = save_order uid kind ?full d" "0 \<le> j" "j < int (length L)"
    by (cases "j < 0 \<or> int (length L) \<le> j") (use d' in auto)
  then have "(if 0 \<le> j \<and> j < int (length L) then my_list uid kind archived d' = ?sw else d' = d) \<and>
      (d' = d\<lparr>list_orders := (list_orders d)(kind := list_orders d' kind)\<rparr> \<and> order_keys (list_orders d' kind)) \<and>
      filter (\<lambda>r. ord_user_id r \<noteq> uid) (list_orders d' kind) = filter (\<lambda>r. ord_user_id r \<noteq> uid) (list_orders d kind) \<and>
      (\<forall>ids. set ids \<inter> set L = {} \<longrightarrow> sort_list uid kind ids d' = sort_list uid kind ids d)"
  proof cases
    case 1
    then show ?thesis using keys(2) by auto
  next
    case 2
    have len: "i < length L" "nat j < length L"
      using i' 2 by auto
    have sw: "mset ?sw = mset (my_list uid kind archived d)"
      using len by (simp add: L)
    have ds: "distinct ?sw"
      using len visible_distinct [OF keys(1)] by (simp add: L my_list_def sort_list_def sort_visible_def)
    then have df: "distinct ?full"
      using read_stored(1) [OF keys(2) read] by auto
    have "filter (\<lambda>r. ord_user_id r \<noteq> uid) (numbered uid 1 ?full) = []"
      by (auto simp: filter_empty_conv dest: numbered_row)
    then have others: "filter (\<lambda>r. ord_user_id r \<noteq> uid) (list_orders d' kind) = filter (\<lambda>r. ord_user_id r \<noteq> uid) (list_orders d kind)"
      by (simp add: 2 save_order_def sql_delete_def)
    have only: "d' = d\<lparr>list_orders := (list_orders d)(kind := list_orders d' kind)\<rparr>"
      by (simp add: 2 save_order_def)
    have keys': "order_keys (list_orders d' kind)"
      unfolding 2(1) by (rule save_order_keys [OF keys(2) df])
    have "set ?sw = set L"
      using len by simp
    then show ?thesis
      using save_order_views [OF keys read sw 2(1)] others only keys' 2(2,3) by simp
  qed
  then show "\<exists>i j. i < length L \<and> L ! i = rid \<and> j = (if direction = ''down'' then int i + 1 else int i - 1) \<and>
      (if 0 \<le> j \<and> j < int (length L) then my_list uid kind archived d' = swap_at i (nat j) L else d' = d)"
    "d' = d\<lparr>list_orders := (list_orders d)(kind := list_orders d' kind)\<rparr> \<and> order_keys (list_orders d' kind)"
    "filter (\<lambda>r. ord_user_id r \<noteq> uid) (list_orders d' kind) = filter (\<lambda>r. ord_user_id r \<noteq> uid) (list_orders d kind)"
    "set ids \<inter> set L = {} \<Longrightarrow> sort_list uid kind ids d' = sort_list uid kind ids d"
    using i' j_def by blast+
qed

lemma move_error:
  assumes "resource_keys d" "order_keys (list_orders d kind)" "direction = ''up'' \<or> direction = ''down''"
    "kind = Servers \<or> \<not> archived" "move uid kind archived rid direction d = Inl e" "L = my_list uid kind archived d"
  shows "e = ErrOrderNotFound \<and> rid \<notin> set L"
proof -
  obtain positions stored where "read_positions (order_rows uid kind d) = (positions, stored)"
    by (metis prod.exhaust)
  note ms = move_saves [OF assms(1-4) this, of rid, folded assms(6)]
  have none: "index_of rid L = None"
  proof (cases "index_of rid L")
    case (Some i)
    then show ?thesis using ms assms(5) by (simp add: Let_def split: if_splits)
  qed
  then have "e = ErrOrderNotFound"
    using ms assms(5) by simp
  then show ?thesis
    using none unfolding index_of_None by blast
qed

lemma move_visible_ok:
  assumes "resource_keys d" "order_keys (list_orders d kind)" "direction = ''up'' \<or> direction = ''down''"
    "kind = Servers \<or> \<not> archived" "rid \<in> set (my_list uid kind archived d)"
  obtains d' where "move uid kind archived rid direction d = Inr d'"
  using move_error [OF assms(1-4) _ refl] assms(5) that by (cases "move uid kind archived rid direction d") blast+

text \<open>
  C37. \<open>Move\<close> of a visible resource exchanges it with its neighbour in the list the user
  sees and changes nothing else: at the end of the list it is a no-op, no other user's row and
  no other list is touched, any other selection of resources (the archived servers, resources
  the user lost access to) is still shown in the same order, and the keys of the table hold.
  The only error is for a resource the user does not see.
\<close>

theorem move_swaps:
  assumes "resource_keys d" "order_keys (list_orders d kind)" "direction = ''up'' \<or> direction = ''down''"
    "kind = Servers \<or> \<not> archived" "L = my_list uid kind archived d"
  shows "case move uid kind archived rid direction d of
      Inl e \<Rightarrow> e = ErrOrderNotFound \<and> rid \<notin> set L
    | Inr d' \<Rightarrow>
        (\<exists>i j. i < length L \<and> L ! i = rid \<and> j = (if direction = ''down'' then int i + 1 else int i - 1) \<and>
          (if 0 \<le> j \<and> j < int (length L) then my_list uid kind archived d' = swap_at i (nat j) L else d' = d)) \<and>
        d' = d\<lparr>list_orders := (list_orders d)(kind := list_orders d' kind)\<rparr> \<and>
        order_keys (list_orders d' kind) \<and>
        filter (\<lambda>r. ord_user_id r \<noteq> uid) (list_orders d' kind) = filter (\<lambda>r. ord_user_id r \<noteq> uid) (list_orders d kind) \<and>
        (\<forall>ids. set ids \<inter> set L = {} \<longrightarrow> sort_list uid kind ids d' = sort_list uid kind ids d)"
proof (cases "move uid kind archived rid direction d")
  case (Inl e)
  then show ?thesis
    using move_error [OF assms(1-4) Inl assms(5)] by simp
next
  case (Inr d')
  show ?thesis
    unfolding Inr sum.case using move_effect [OF assms(1-4) Inr assms(5)] by blast
qed

text \<open>Three landing nodes of one user, the oldest moved by hand before.\<close>

definition three_landings :: panel_db where
  "three_landings = empty_db\<lparr>
     landings := map (\<lambda>k. \<lparr>lan_id = k, lan_owner = 5, lan_visibility = ''private'', lan_created_at = k,
       lan_name = ''l'', lan_protocol = ''vless'', lan_host = ''h'', lan_port = 1, lan_uri = [], lan_role = ''direct''\<rparr>) [1, 2, 3],
     list_orders := (\<lambda>k. if k = Landings then [\<lparr>ord_user_id = 5, ord_resource_id = 1, ord_position = 1\<rparr>] else [])\<rparr>"

lemma three_landings_list: "my_list 5 Landings False three_landings = [3, 2, 1]"
  by (simp add: my_list_def sort_list_def sort_visible_def visible_query_def newest_first_def three_landings_def empty_db_def
      read_positions_def row_position_def order_rows_def)

lemma three_landings_keys: "resource_keys three_landings" "order_keys (list_orders three_landings Landings)"
  by (simp_all add: resource_keys_def order_keys_def three_landings_def empty_db_def empty_accounts_def)

theorem move_swaps_witness:
  "\<exists>d'. move 5 Landings False 1 ''up'' three_landings = Inr d' \<and> my_list 5 Landings False d' = [3, 1, 2]"
proof (cases "move 5 Landings False 1 ''up'' three_landings")
  case (Inl e)
  then show ?thesis
    using move_swaps [OF three_landings_keys, of "''up''" False "[3, 2, 1]" 5 1] by (simp add: three_landings_list)
next
  case (Inr d')
  have "\<exists>i j. i < length [3, 2, 1 :: int] \<and> [3, 2, 1] ! i = (1 :: int) \<and> j = int i - 1 \<and>
      (if 0 \<le> j \<and> j < int (length [3, 2, 1 :: int]) then my_list 5 Landings False d' = swap_at i (nat j) [3, 2, 1] else d' = three_landings)"
    using move_swaps [OF three_landings_keys, of "''up''" False "[3, 2, 1]" 5 1] by (simp add: Inr three_landings_list)
  then obtain i j where i: "i < length [3, 2, 1 :: int]" "[3, 2, 1] ! i = (1 :: int)" "j = int i - 1"
    "(if 0 \<le> j \<and> j < int (length [3, 2, 1 :: int]) then my_list 5 Landings False d' = swap_at i (nat j) [3, 2, 1] else d' = three_landings)"
    by blast
  then have "i = 2"
    by (cases "i = 0"; cases "i = 1") auto
  with i(3,4) have "my_list 5 Landings False d' = [3, 1, 2]"
    by (simp add: swap_at_def)
  with Inr show ?thesis by blast
qed

text \<open>
  Moving a resource and moving it back restores the list the user saw, unless the first
  move met the end of the list.
\<close>

theorem move_there_and_back:
  assumes "resource_keys d" "order_keys (list_orders d kind)" "kind = Servers \<or> \<not> archived"
    "(there, back) = (''up'', ''down'') \<or> (there, back) = (''down'', ''up'')"
    "move uid kind archived rid there d = Inr d1" "my_list uid kind archived d1 \<noteq> my_list uid kind archived d"
  shows "\<exists>d2. move uid kind archived rid back d1 = Inr d2 \<and> my_list uid kind archived d2 = my_list uid kind archived d"
proof -
  let ?L = "my_list uid kind archived d"
  have dirs: "there = ''up'' \<or> there = ''down''" "back = ''up'' \<or> back = ''down''"
    using assms(4) by auto
  note there = move_effect [OF assms(1,2) dirs(1) assms(3,5) refl]
  from there(1) obtain i j where ij: "i < length ?L" "?L ! i = rid" "j = (if there = ''down'' then int i + 1 else int i - 1)"
    "if 0 \<le> j \<and> j < int (length ?L) then my_list uid kind archived d1 = swap_at i (nat j) ?L else d1 = d"
    by blast
  let ?L1 = "swap_at i (nat j) ?L"
  have j: "0 \<le> j" "j < int (length ?L)" and L1: "my_list uid kind archived d1 = ?L1"
    using ij(4) assms(6) by (auto split: if_splits)
  have k: "resource_keys d1"
    by (rule iffD2 [OF resource_keys_orders assms(1)]) (rule conjunct1 [OF there(2)])
  have ord: "order_keys (list_orders d1 kind)"
    by (rule conjunct2 [OF there(2)])
  have at: "?L1 ! nat j = rid" "nat j < length ?L1"
    using ij(1,2) j by (auto simp: swap_at_def nth_list_update)
  have "distinct (my_list uid kind archived d1)"
    using visible_distinct [OF k] by (simp add: my_list_def sort_list_def sort_visible_def)
  then have dist: "distinct ?L1"
    by (simp add: L1)
  have rid: "rid \<in> set ?L1"
    using at by (metis nth_mem)
  then have "rid \<in> set (my_list uid kind archived d1)"
    by (simp add: L1)
  from move_visible_ok [OF k ord dirs(2) assms(3) this]
  obtain d2 where d2: "move uid kind archived rid back d1 = Inr d2" .
  from move_effect(1) [OF k ord dirs(2) assms(3) d2 L1 [symmetric]] obtain i' j' where
    ij': "i' < length ?L1" "?L1 ! i' = rid" "j' = (if back = ''down'' then int i' + 1 else int i' - 1)"
    "if 0 \<le> j' \<and> j' < int (length ?L1) then my_list uid kind archived d2 = swap_at i' (nat j') ?L1 else d2 = d1"
    by blast
  have "i' = nat j"
    using dist at ij'(1,2) by (metis nth_eq_iff_index_eq)
  moreover from this have "j' = int i"
    using ij(3) ij'(3) assms(4) j(1) by auto
  ultimately have "my_list uid kind archived d2 = swap_at (nat j) i ?L1"
    using ij'(4) ij(1) by simp
  then show ?thesis
    using d2 ij(1) j swap_at_twice [of i ?L "nat j"] by auto
qed

theorem move_there_and_back_witness:
  "\<exists>d1 d2. move 5 Landings False 1 ''up'' three_landings = Inr d1 \<and> move 5 Landings False 1 ''down'' d1 = Inr d2 \<and>
     my_list 5 Landings False d2 = [3, 2, 1]"
proof -
  have pre: "''up'' = ''up'' \<or> ''up'' = ''down''" "Landings = Servers \<or> \<not> False"
    by simp_all
  have "1 \<in> set (my_list 5 Landings False three_landings)"
    by (simp add: three_landings_list)
  from move_visible_ok [OF three_landings_keys pre this]
  obtain d1 where d1: "move 5 Landings False 1 ''up'' three_landings = Inr d1" .
  have "my_list 5 Landings False d1 \<noteq> [3, 2, 1]"
  proof -
    from move_effect(1) [OF three_landings_keys pre d1 three_landings_list [symmetric]] obtain i j where
      "i < length [3, 2, 1 :: int]" "[3, 2, 1] ! i = (1 :: int)" "j = (if ''up'' = ''down'' then int i + 1 else int i - 1)"
      "if 0 \<le> j \<and> j < int (length [3, 2, 1 :: int]) then my_list 5 Landings False d1 = swap_at i (nat j) [3, 2, 1] else d1 = three_landings"
      by blast
    moreover from this have "i = 2"
      by (cases "i = 0"; cases "i = 1") auto
    ultimately show ?thesis
      by (simp add: swap_at_def)
  qed
  then have ne: "my_list 5 Landings False d1 \<noteq> my_list 5 Landings False three_landings"
    by (simp add: three_landings_list)
  have dirs: "(''up'', ''down'') = (''up'', ''down'') \<or> (''up'', ''down'') = (''down'', ''up'')"
    by simp
  from move_there_and_back [OF three_landings_keys pre(2) dirs d1 ne] d1 show ?thesis
    unfolding three_landings_list by blast
qed

end
