(* ===== verification/Accounts.thy ===== *)
theory Accounts
  imports Tables GoStrings
begin

text \<open>
  Accounts (\<open>panel/internal/auth\<close>): users, sessions, invitations, password requests reviewed
  by an administrator, verified email addresses and password resets by email.

  Randomness and cryptography are arguments: \<open>fresh\<close> is the value \<open>token.New\<close> draws, \<open>hashed\<close>
  the result of \<open>bcrypt.GenerateFromPassword\<close> for the call, and \<open>auth_lib\<close> holds the functions
  the code calls in libraries: bcrypt's comparison, the hash of tokens, \<open>strings.ToLower\<close> and
  \<open>net/mail.ParseAddress\<close> (the display name and the address). All clock readings of one
  operation are one instant. \<open>ErrDatabase\<close> is the wrapped error of a violated constraint.
\<close>

record auth_lib =
  lib_match :: "string \<Rightarrow> string \<Rightarrow> bool"
  lib_digest :: "string \<Rightarrow> string"
  lib_lower :: "string \<Rightarrow> string"
  lib_parse :: "string \<Rightarrow> (string \<times> string) option"

datatype auth_error = ErrAlreadyInitialized | ErrInvalidCredentials | ErrInvalidInvitation | ErrInvitationNotFound
  | ErrInvalidInvitationRole | ErrInvalidUsername | ErrInvalidPassword | ErrUsernameTaken | ErrUserNotFound
  | ErrUnauthenticated | ErrPasswordUnchanged | ErrPasswordRequestPending | ErrPasswordRequestNotFound
  | ErrPasswordRequestSelfReview | ErrInvalidEmail | ErrEmailTaken | ErrEmailUnchanged | ErrEmailVerificationInvalid
  | ErrPasswordResetTokenInvalid | EmailRateLimit int | ErrDatabase

section \<open>Access to the tables\<close>

abbreviation on_accounts :: "(accounts_db \<Rightarrow> accounts_db) \<Rightarrow> panel_db \<Rightarrow> panel_db" where
  "on_accounts f d \<equiv> d\<lparr>accounts := f (accounts d)\<rparr>"

definition user_by :: "(user_row \<Rightarrow> bool) \<Rightarrow> panel_db \<Rightarrow> user_row option" where
  "user_by P d = sql_first P (users (accounts d))"

abbreviation user_at :: "id64 \<Rightarrow> panel_db \<Rightarrow> user_row option" where
  "user_at uid \<equiv> user_by (\<lambda>u. usr_id u = uid)"

definition update_users :: "(user_row \<Rightarrow> bool) \<Rightarrow> (user_row \<Rightarrow> user_row) \<Rightarrow> panel_db \<Rightarrow> panel_db" where
  "update_users P f = on_accounts (\<lambda>a. a\<lparr>users := sql_update P f (users a)\<rparr>)"

definition delete_sessions :: "id64 \<Rightarrow> panel_db \<Rightarrow> panel_db" where
  "delete_sessions uid = on_accounts (\<lambda>a. a\<lparr>sessions := sql_delete (\<lambda>s. ses_user_id s = uid) (sessions a)\<rparr>)"

definition use_tokens :: "unix_time \<Rightarrow> (account_token_row \<Rightarrow> bool) \<Rightarrow> panel_db \<Rightarrow> panel_db" where
  "use_tokens now P = on_accounts (\<lambda>a. a\<lparr>account_tokens :=
     sql_update (\<lambda>t. P t \<and> tok_used_at t = None) (\<lambda>t. t\<lparr>tok_used_at := Some now\<rparr>) (account_tokens a)\<rparr>)"

text \<open>\<open>lower\<close> of SQLite: ASCII only.\<close>

definition ascii_lower :: "char \<Rightarrow> char" where
  "ascii_lower c = (if 65 \<le> (of_char c :: nat) \<and> (of_char c :: nat) \<le> 90 then char_of ((of_char c :: nat) + 32) else c)"

definition sql_lower :: "string \<Rightarrow> string" where
  "sql_lower s = map ascii_lower s"

text \<open>\<open>ORDER BY created_at DESC, id DESC LIMIT 1\<close>.\<close>

definition sql_latest :: "('r \<Rightarrow> unix_time) \<Rightarrow> ('r \<Rightarrow> id64) \<Rightarrow> 'r list \<Rightarrow> 'r option" where
  "sql_latest created ident t = (case t of [] \<Rightarrow> None | r # rs \<Rightarrow> Some
     (foldl (\<lambda>x y. if created y > created x \<or> created y = created x \<and> ident y > ident x then y else x) r rs))"

section \<open>Credentials (\<open>user.go\<close>)\<close>

definition username_char :: "char \<Rightarrow> bool" where
  "username_char c \<longleftrightarrow> (let n = (of_char c :: nat) in
     65 \<le> n \<and> n \<le> 90 \<or> 97 \<le> n \<and> n \<le> 122 \<or> 48 \<le> n \<and> n \<le> 57 \<or> c = CHR ''_'' \<or> c = CHR ''.'' \<or> c = CHR ''-'')"

definition username_ok :: "string \<Rightarrow> bool" where
  "username_ok s \<longleftrightarrow> 3 \<le> length s \<and> length s \<le> 64 \<and> list_all username_char s"

definition validate_password :: "string \<Rightarrow> auth_error option" where
  "validate_password pw = (if length pw < 6 \<or> length pw > 72 then Some ErrInvalidPassword else None)"

text \<open>\<open>prepareCredentials\<close>: the trimmed name; the hash is the argument \<open>hashed\<close> of the caller.\<close>

definition prepare_credentials :: "string \<Rightarrow> string \<Rightarrow> auth_error + string" where
  "prepare_credentials username password =
     (let name = trim_space username in
      if \<not> username_ok name then Inl ErrInvalidUsername
      else case validate_password password of Some e \<Rightarrow> Inl e | None \<Rightarrow> Inr name)"

definition has_at :: "string \<Rightarrow> bool" where
  "has_at s \<longleftrightarrow> CHR ''@'' \<in> set s"

definition valid_mailbox :: "auth_lib \<Rightarrow> string \<Rightarrow> bool" where
  "valid_mailbox lib value \<longleftrightarrow>
     \<not> (value = [] \<or> length value > 320 \<or> CHR 0x0D \<in> set value \<or> CHR 0x0A \<in> set value) \<and> lib_parse lib value = Some ([], value)"

definition normalize_mailbox :: "auth_lib \<Rightarrow> string \<Rightarrow> string option" where
  "normalize_mailbox lib value = (let v = lib_lower lib (trim_space value) in if \<not> valid_mailbox lib v then None else Some v)"

definition login_identifier_lookup :: "auth_lib \<Rightarrow> string \<Rightarrow> (user_row \<Rightarrow> bool) option" where
  "login_identifier_lookup lib identifier =
     (let s = normalize_login_identifier (lib_lower lib) identifier in
      if has_at s then (case normalize_mailbox lib s of
          None \<Rightarrow> None
        | Some address \<Rightarrow> Some (\<lambda>u. map_option sql_lower (usr_email u) = Some address \<and> usr_verified_at u \<noteq> None))
      else Some (\<lambda>u. usr_username u = s))"

definition needs_initialization :: "panel_db \<Rightarrow> bool" where
  "needs_initialization d \<longleftrightarrow> length (users (accounts d)) = 0"

definition new_user :: "id64 \<Rightarrow> string \<Rightarrow> string \<Rightarrow> string \<Rightarrow> unix_time \<Rightarrow> user_row" where
  "new_user uid name hashed role now = \<lparr>usr_id = uid, usr_username = name, usr_password_hash = hashed, usr_role = role,
     usr_email = None, usr_verified_at = None, usr_created_at = now, usr_updated_at = now\<rparr>"

definition insert_user :: "string \<Rightarrow> string \<Rightarrow> string \<Rightarrow> unix_time \<Rightarrow> panel_db \<Rightarrow> panel_db" where
  "insert_user name hashed role now = on_accounts (\<lambda>a. a\<lparr>
     users := users a @ [new_user (users_seq a + 1) name hashed role now], users_seq := users_seq a + 1\<rparr>)"

definition initialize_panel :: "string \<Rightarrow> unix_time \<Rightarrow> string \<Rightarrow> string \<Rightarrow> panel_db \<Rightarrow> auth_error + panel_db" where
  "initialize_panel hashed now username password d =
     (case prepare_credentials username password of
        Inl e \<Rightarrow> Inl e
      | Inr name \<Rightarrow> if length (users (accounts d)) \<noteq> 0 then Inl ErrAlreadyInitialized
                    else Inr (insert_user name hashed ''admin'' now d))"

definition login :: "auth_lib \<Rightarrow> string \<Rightarrow> string \<Rightarrow> panel_db \<Rightarrow> auth_error + user_row" where
  "login lib identifier password d =
     (case login_identifier_lookup lib identifier of
        None \<Rightarrow> Inl ErrInvalidCredentials
      | Some condition \<Rightarrow>
        (case user_by condition d of
           None \<Rightarrow> Inl ErrInvalidCredentials
         | Some u \<Rightarrow> if \<not> lib_match lib (usr_password_hash u) password then Inl ErrInvalidCredentials else Inr u))"

definition get_user :: "id64 \<Rightarrow> panel_db \<Rightarrow> auth_error + user_row" where
  "get_user uid d = (case user_at uid d of None \<Rightarrow> Inl ErrUserNotFound | Some u \<Rightarrow> Inr u)"

definition rename_user :: "auth_lib \<Rightarrow> unix_time \<Rightarrow> id64 \<Rightarrow> string \<Rightarrow> string \<Rightarrow> panel_db \<Rightarrow> auth_error + panel_db" where
  "rename_user lib now uid current username d =
     (let name = trim_space username in
      if \<not> username_ok name then Inl ErrInvalidUsername
      else case user_at uid d of
        None \<Rightarrow> Inl ErrUserNotFound
      | Some u \<Rightarrow>
        if \<not> lib_match lib (usr_password_hash u) current then Inl ErrInvalidCredentials
        else if user_by (\<lambda>v. usr_username v = name \<and> usr_id v \<noteq> uid) d \<noteq> None then Inl ErrUsernameTaken
        else Inr (update_users (\<lambda>u. usr_id u = uid) (\<lambda>u. u\<lparr>usr_username := name, usr_updated_at := now\<rparr>) d))"

section \<open>Password reset tokens (\<open>password\_email.go\<close>)\<close>

definition reset_token :: "id64 \<Rightarrow> account_token_row \<Rightarrow> bool" where
  "reset_token uid t \<longleftrightarrow> tok_user_id t = uid \<and> tok_purpose t = ''reset_password''"

definition email_token :: "id64 \<Rightarrow> account_token_row \<Rightarrow> bool" where
  "email_token uid t \<longleftrightarrow> tok_user_id t = uid \<and> (tok_purpose t = ''verify_email'' \<or> tok_purpose t = ''change_email'')"

definition invalidate_reset_tokens :: "unix_time \<Rightarrow> id64 \<Rightarrow> panel_db \<Rightarrow> panel_db" where
  "invalidate_reset_tokens now uid = use_tokens now (reset_token uid)"

definition change_password :: "auth_lib \<Rightarrow> string \<Rightarrow> unix_time \<Rightarrow> id64 \<Rightarrow> string \<Rightarrow> string \<Rightarrow> panel_db \<Rightarrow> auth_error + panel_db" where
  "change_password lib hashed now uid current password d =
     (case validate_password password of
        Some e \<Rightarrow> Inl e
      | None \<Rightarrow>
        (case user_at uid d of
           None \<Rightarrow> Inl ErrUserNotFound
         | Some u \<Rightarrow>
           if \<not> lib_match lib (usr_password_hash u) current then Inl ErrInvalidCredentials
           else if lib_match lib (usr_password_hash u) password then Inl ErrPasswordUnchanged
           else if sql_count (\<lambda>u. usr_id u = uid) (users (accounts d)) \<noteq> 1 then Inl ErrUserNotFound
           else Inr (invalidate_reset_tokens now uid (delete_sessions uid (update_users (\<lambda>u. usr_id u = uid)
             (\<lambda>u. u\<lparr>usr_password_hash := hashed, usr_updated_at := now\<rparr>) d)))))"

definition email_interval :: int where
  "email_interval = 60"

definition token_lifetime :: int where
  "token_lifetime = 1800"

text \<open>
  The insertion of an account token. The unique index on the hash is checked; the two indexes that
  allow one unused token per user and kind hold because the callers invalidate the previous ones.
\<close>

definition insert_token :: "id64 \<Rightarrow> string \<Rightarrow> string \<Rightarrow> string \<Rightarrow> unix_time \<Rightarrow> panel_db \<Rightarrow> auth_error + (id64 \<times> panel_db)" where
  "insert_token uid purpose target digest now d =
     (let a = accounts d; tid = account_tokens_seq a + 1 in
      if sql_exists (\<lambda>t. tok_hash t = digest) (account_tokens a) then Inl ErrDatabase
      else Inr (tid, d\<lparr>accounts := a\<lparr>account_tokens_seq := tid, account_tokens := account_tokens a @
        [\<lparr>tok_id = tid, tok_user_id = uid, tok_purpose = purpose, tok_target = target, tok_hash = digest,
          tok_expires_at = now + token_lifetime, tok_used_at = None, tok_created_at = now\<rparr>]\<rparr>\<rparr>))"

record token_request =
  trq_id :: id64
  trq_user_id :: id64
  trq_purpose :: string
  trq_target :: string
  trq_token :: string

definition latest_token :: "(account_token_row \<Rightarrow> bool) \<Rightarrow> panel_db \<Rightarrow> account_token_row option" where
  "latest_token P d = sql_latest tok_created_at tok_id (filter P (account_tokens (accounts d)))"

definition prepare_password_reset_email ::
  "auth_lib \<Rightarrow> string \<Rightarrow> unix_time \<Rightarrow> string \<Rightarrow> panel_db \<Rightarrow> auth_error + (token_request option \<times> panel_db)" where
  "prepare_password_reset_email lib fresh now identifier d =
     (case login_identifier_lookup lib identifier of
        None \<Rightarrow> Inr (None, d)
      | Some condition \<Rightarrow>
        (case user_by (\<lambda>u. condition u \<and> usr_email u \<noteq> None \<and> usr_verified_at u \<noteq> None) d of
           None \<Rightarrow> Inr (None, d)
         | Some u \<Rightarrow>
           let uid = usr_id u; target = (case usr_email u of None \<Rightarrow> [] | Some e \<Rightarrow> e) in
           if (case latest_token (reset_token uid) d of None \<Rightarrow> False | Some t \<Rightarrow> now - tok_created_at t < email_interval)
           then Inr (None, d)
           else (case insert_token uid ''reset_password'' target (lib_digest lib fresh) now (invalidate_reset_tokens now uid d) of
               Inl e \<Rightarrow> Inl e
             | Inr (tid, d') \<Rightarrow> Inr (Some \<lparr>trq_id = tid, trq_user_id = uid, trq_purpose = ''reset_password'',
                 trq_target = target, trq_token = fresh\<rparr>, d'))))"

definition cancel_password_reset_email :: "unix_time \<Rightarrow> id64 \<Rightarrow> id64 \<Rightarrow> panel_db \<Rightarrow> panel_db" where
  "cancel_password_reset_email now rid uid = use_tokens now (\<lambda>t. tok_id t = rid \<and> reset_token uid t)"

text \<open>The rows of the token lookup: the unused token joined with its user.\<close>

definition reset_hits :: "auth_lib \<Rightarrow> unix_time \<Rightarrow> string \<Rightarrow> panel_db \<Rightarrow> (account_token_row \<times> user_row) list" where
  "reset_hits lib now raw d = [(t, u). t \<leftarrow> account_tokens (accounts d), u \<leftarrow> users (accounts d), usr_id u = tok_user_id t \<and>
                 tok_hash t = lib_digest lib raw \<and> tok_purpose t = ''reset_password'' \<and> tok_used_at t = None \<and>
                 tok_expires_at t > now \<and> usr_verified_at u \<noteq> None \<and> usr_email u = Some (tok_target t)]"

definition reset_password_by_email ::
  "auth_lib \<Rightarrow> string \<Rightarrow> unix_time \<Rightarrow> string \<Rightarrow> string \<Rightarrow> panel_db \<Rightarrow> auth_error + (user_row \<times> panel_db)" where
  "reset_password_by_email lib hashed now raw password d =
     (case validate_password password of
        Some e \<Rightarrow> Inl e
      | None \<Rightarrow>
        if raw = [] then Inl ErrPasswordResetTokenInvalid
        else (case reset_hits lib now raw d of
            [] \<Rightarrow> Inl ErrPasswordResetTokenInvalid
          | (t, u) # _ \<Rightarrow>
            let uid = usr_id u;
                d1 = update_users (\<lambda>u. usr_id u = uid) (\<lambda>u. u\<lparr>usr_password_hash := hashed, usr_updated_at := now\<rparr>) d;
                hit = (\<lambda>x. tok_id x = tok_id t)
            in if sql_count (\<lambda>x. hit x \<and> tok_used_at x = None) (account_tokens (accounts d1)) \<noteq> 1 then Inl ErrPasswordResetTokenInvalid
               else Inr (u, on_accounts (\<lambda>a. a\<lparr>password_requests :=
                   sql_delete (\<lambda>r. pwr_user_id r = uid \<and> pwr_status r = ''pending'') (password_requests a)\<rparr>)
                 (delete_sessions uid (invalidate_reset_tokens now uid (use_tokens now hit d1))))))"

section \<open>Sessions (\<open>session.go\<close>)\<close>

definition session_lifetime :: int where
  "session_lifetime = 604800"

definition create_session :: "auth_lib \<Rightarrow> string \<Rightarrow> unix_time \<Rightarrow> id64 \<Rightarrow> panel_db \<Rightarrow> auth_error + (unix_time \<times> panel_db)" where
  "create_session lib fresh now uid d =
     (let live = sql_delete (\<lambda>s. ses_expires_at s \<le> now) (sessions (accounts d)); ends = now + session_lifetime in
      if user_at uid d = None \<or> sql_exists (\<lambda>s. ses_token_hash s = lib_digest lib fresh) live then Inl ErrDatabase
      else Inr (ends, on_accounts (\<lambda>a. a\<lparr>sessions := live @
        [\<lparr>ses_user_id = uid, ses_token_hash = lib_digest lib fresh, ses_expires_at = ends, ses_created_at = now\<rparr>]\<rparr>) d))"

definition authenticate :: "auth_lib \<Rightarrow> unix_time \<Rightarrow> string \<Rightarrow> panel_db \<Rightarrow> auth_error + user_row" where
  "authenticate lib now tok d =
     (if tok = [] then Inl ErrUnauthenticated
      else case [u. s \<leftarrow> sessions (accounts d), u \<leftarrow> users (accounts d),
          usr_id u = ses_user_id s \<and> ses_token_hash s = lib_digest lib tok \<and> ses_expires_at s > now] of
        [] \<Rightarrow> Inl ErrUnauthenticated
      | u # _ \<Rightarrow> Inr u)"

definition logout :: "auth_lib \<Rightarrow> string \<Rightarrow> panel_db \<Rightarrow> panel_db" where
  "logout lib tok d = (if tok = [] then d else on_accounts (\<lambda>a. a\<lparr>sessions :=
     sql_delete (\<lambda>s. ses_token_hash s = lib_digest lib tok) (sessions a)\<rparr>) d)"

section \<open>Invitations (\<open>invite.go\<close>)\<close>

definition invitation_lifetime :: int where
  "invitation_lifetime = 86400"

definition valid_invitation_role :: "string \<Rightarrow> bool" where
  "valid_invitation_role role \<longleftrightarrow> role = ''vip'' \<or> role = ''carpool'' \<or> role = ''subscriber''"

definition usable_invitation :: "unix_time \<Rightarrow> invitation_row \<Rightarrow> bool" where
  "usable_invitation now i \<longleftrightarrow> inv_used_at i = None \<and> inv_expires_at i > now"

definition create_invitation ::
  "auth_lib \<Rightarrow> string \<Rightarrow> unix_time \<Rightarrow> id64 \<Rightarrow> string list \<Rightarrow> panel_db \<Rightarrow> auth_error + (invitation_row \<times> panel_db)" where
  "create_invitation lib fresh now by roles d =
     (let role = (if length roles = 1 then roles ! 0 else ''vip'');
          a = accounts d; iid = invitations_seq a + 1;
          i = \<lparr>inv_id = iid, inv_token_hash = lib_digest lib fresh, inv_created_by = by,
            inv_expires_at = now + invitation_lifetime, inv_used_at = None, inv_role = role, inv_created_at = now\<rparr>
      in if length roles > 1 \<or> \<not> valid_invitation_role role then Inl ErrInvalidInvitationRole
         else if user_at by d = None \<or> sql_exists (\<lambda>x. inv_token_hash x = lib_digest lib fresh) (invitations a) then Inl ErrDatabase
         else Inr (i, d\<lparr>accounts := a\<lparr>invitations := invitations a @ [i], invitations_seq := iid\<rparr>\<rparr>))"

definition get_invitation :: "auth_lib \<Rightarrow> unix_time \<Rightarrow> string \<Rightarrow> panel_db \<Rightarrow> auth_error + (invitation_row \<times> string)" where
  "get_invitation lib now tok d =
     (if tok = [] then Inl ErrInvalidInvitation
      else case [(i, usr_username u). i \<leftarrow> invitations (accounts d), u \<leftarrow> users (accounts d),
          usr_id u = inv_created_by i \<and> inv_token_hash i = lib_digest lib tok \<and> usable_invitation now i] of
        [] \<Rightarrow> Inl ErrInvalidInvitation
      | (i, name) # _ \<Rightarrow> if \<not> valid_invitation_role (inv_role i) then Inl ErrInvalidInvitation else Inr (i, name))"

definition revoke_invitation :: "unix_time \<Rightarrow> id64 \<Rightarrow> panel_db \<Rightarrow> auth_error + panel_db" where
  "revoke_invitation now iid d =
     (let hit = (\<lambda>i. inv_id i = iid \<and> usable_invitation now i) in
      if sql_count hit (invitations (accounts d)) = 0 then Inl ErrInvitationNotFound
      else Inr (on_accounts (\<lambda>a. a\<lparr>invitations := sql_delete hit (invitations a)\<rparr>) d))"

definition create_subscriber_profile :: "string \<Rightarrow> unix_time \<Rightarrow> id64 \<Rightarrow> panel_db \<Rightarrow> auth_error + panel_db" where
  "create_subscriber_profile token now uid d =
     (if sql_exists (\<lambda>p. sp_user_id p = uid \<or> sp_token p = token) (subscriber_profiles d)
         \<or> sql_exists (\<lambda>v. su_user_id v = uid) (subscriber_usage d) then Inl ErrDatabase
      else Inr (d\<lparr>
        subscriber_profiles := subscriber_profiles d @ [\<lparr>sp_user_id = uid, sp_plan_id = None, sp_enabled = True,
          sp_expires_at = None, sp_reset_mode = ''never'', sp_reset_day = 1, sp_reset_time = ''00:00'',
          sp_billing = None, sp_token = token\<rparr>],
        subscriber_usage := subscriber_usage d @ [\<lparr>su_user_id = uid, su_archived_up = 0, su_archived_down = 0,
          su_cycle_started = now, su_updated_at = now\<rparr>]\<rparr>))"

definition register_with_invitation ::
  "auth_lib \<Rightarrow> string \<Rightarrow> string \<Rightarrow> unix_time \<Rightarrow> string \<Rightarrow> string \<Rightarrow> string \<Rightarrow> panel_db \<Rightarrow> auth_error + (user_row \<times> panel_db)" where
  "register_with_invitation lib hashed fresh now tok username password d =
     (if tok = [] then Inl ErrInvalidInvitation
      else case prepare_credentials username password of
        Inl e \<Rightarrow> Inl e
      | Inr name \<Rightarrow>
        (case sql_first (\<lambda>i. inv_token_hash i = lib_digest lib tok \<and> usable_invitation now i) (invitations (accounts d)) of
           None \<Rightarrow> Inl ErrInvalidInvitation
         | Some i \<Rightarrow>
           if \<not> valid_invitation_role (inv_role i) then Inl ErrInvalidInvitation
           else if user_by (\<lambda>u. usr_username u = name) d \<noteq> None then Inl ErrUsernameTaken
           else
             let uid = users_seq (accounts d) + 1;
                 d1 = insert_user name hashed (inv_role i) now d;
                 hit = (\<lambda>x. inv_id x = inv_id i \<and> usable_invitation now x)
             in case (if inv_role i = ''subscriber'' then create_subscriber_profile fresh now uid d1 else Inr d1) of
                  Inl e \<Rightarrow> Inl e
                | Inr d2 \<Rightarrow>
                  if sql_count hit (invitations (accounts d2)) \<noteq> 1 then Inl ErrInvalidInvitation
                  else Inr (new_user uid name hashed (inv_role i) now, on_accounts (\<lambda>a. a\<lparr>invitations :=
                    sql_update hit (\<lambda>x. x\<lparr>inv_used_at := Some now\<rparr>) (invitations a)\<rparr>) d2)))"

section \<open>Password requests (\<open>password.go\<close>)\<close>

definition create_password_reset_request :: "unix_time \<Rightarrow> id64 \<Rightarrow> string \<Rightarrow> panel_db \<Rightarrow> auth_error + (id64 \<times> panel_db)" where
  "create_password_reset_request now uid proposed d =
     (if user_at uid d = None then Inl ErrUserNotFound
      else if sql_count (\<lambda>r. pwr_user_id r = uid \<and> pwr_status r = ''pending'') (password_requests (accounts d)) \<noteq> 0
        then Inl ErrPasswordRequestPending
      else let rid = password_requests_seq (accounts d) + 1 in
        Inr (rid, on_accounts (\<lambda>a. a\<lparr>password_requests_seq := rid, password_requests := password_requests a @
          [\<lparr>pwr_id = rid, pwr_user_id = uid, pwr_proposed = Some proposed, pwr_status = ''pending'', pwr_reviewed_by = None,
            pwr_created_at = now, pwr_reviewed_at = None\<rparr>]\<rparr>) d))"

definition request_password_reset_for_user :: "string \<Rightarrow> unix_time \<Rightarrow> id64 \<Rightarrow> string \<Rightarrow> panel_db \<Rightarrow> auth_error + (id64 \<times> panel_db)" where
  "request_password_reset_for_user hashed now uid password d =
     (case validate_password password of Some e \<Rightarrow> Inl e | None \<Rightarrow> create_password_reset_request now uid hashed d)"

definition request_password_reset_by_username :: "string \<Rightarrow> unix_time \<Rightarrow> string \<Rightarrow> string \<Rightarrow> panel_db \<Rightarrow> auth_error + panel_db" where
  "request_password_reset_by_username hashed now username password d =
     (case validate_password password of
        Some e \<Rightarrow> Inl e
      | None \<Rightarrow>
        (case user_by (\<lambda>u. usr_username u = trim_space username) d of
           None \<Rightarrow> Inr d
         | Some u \<Rightarrow>
           (case create_password_reset_request now (usr_id u) hashed d of
              Inl e \<Rightarrow> if e = ErrPasswordRequestPending \<or> e = ErrUserNotFound then Inr d else Inl e
            | Inr (_, d') \<Rightarrow> Inr d')))"

definition latest_password_change_request :: "id64 \<Rightarrow> panel_db \<Rightarrow> password_request_row option" where
  "latest_password_change_request uid d = sql_latest pwr_created_at pwr_id
     [r. r \<leftarrow> password_requests (accounts d), u \<leftarrow> users (accounts d), usr_id u = pwr_user_id r \<and> pwr_user_id r = uid]"

definition review_password_change_request ::
  "unix_time \<Rightarrow> id64 \<Rightarrow> id64 \<Rightarrow> bool \<Rightarrow> panel_db \<Rightarrow> auth_error + panel_db" where
  "review_password_change_request now rid admin approve d =
     (let open_request = (\<lambda>r. pwr_id r = rid \<and> pwr_status r = ''pending'');
          finish = (\<lambda>status d1.
            if sql_count open_request (password_requests (accounts d1)) \<noteq> 1 then Inl ErrPasswordRequestNotFound
            else if user_at admin d1 = None then Inl ErrDatabase
            else Inr (on_accounts (\<lambda>a. a\<lparr>password_requests := sql_update open_request (\<lambda>r. r\<lparr>pwr_status := status,
              pwr_proposed := None, pwr_reviewed_by := Some admin, pwr_reviewed_at := Some now\<rparr>) (password_requests a)\<rparr>) d1))
      in case sql_first open_request (password_requests (accounts d)) of
           None \<Rightarrow> Inl ErrPasswordRequestNotFound
         | Some r \<Rightarrow>
           let uid = pwr_user_id r in
           if uid = admin then Inl ErrPasswordRequestSelfReview
           else if \<not> approve then finish ''rejected'' d
           else (case pwr_proposed r of
               None \<Rightarrow> Inl ErrPasswordRequestNotFound
             | Some proposed \<Rightarrow>
               if proposed = [] then Inl ErrPasswordRequestNotFound
               else if sql_count (\<lambda>u. usr_id u = uid) (users (accounts d)) \<noteq> 1 then Inl ErrPasswordRequestNotFound
               else finish ''approved'' (invalidate_reset_tokens now uid (delete_sessions uid (update_users (\<lambda>u. usr_id u = uid)
                 (\<lambda>u. u\<lparr>usr_password_hash := proposed, usr_updated_at := now\<rparr>) d)))))"

section \<open>Verified email addresses (\<open>email.go\<close>)\<close>

record email_status =
  est_email :: string
  est_verified :: bool
  est_pending :: string

definition get_email_status :: "unix_time \<Rightarrow> id64 \<Rightarrow> panel_db \<Rightarrow> auth_error + email_status" where
  "get_email_status now uid d =
     (case user_at uid d of
        None \<Rightarrow> Inl ErrUserNotFound
      | Some u \<Rightarrow> Inr \<lparr>est_email = (case usr_email u of None \<Rightarrow> [] | Some e \<Rightarrow> e),
          est_verified = (usr_email u \<noteq> None \<and> usr_verified_at u \<noteq> None),
          est_pending = (case latest_token (\<lambda>t. email_token uid t \<and> tok_used_at t = None \<and> tok_expires_at t > now) d of
            None \<Rightarrow> [] | Some t \<Rightarrow> tok_target t)\<rparr>)"

definition email_taken :: "string \<Rightarrow> id64 \<Rightarrow> panel_db \<Rightarrow> bool" where
  "email_taken target uid d \<longleftrightarrow>
     user_by (\<lambda>u. map_option sql_lower (usr_email u) = Some (sql_lower target) \<and> usr_id u \<noteq> uid) d \<noteq> None"

definition prepare_email_verification ::
  "auth_lib \<Rightarrow> string \<Rightarrow> unix_time \<Rightarrow> id64 \<Rightarrow> string \<Rightarrow> string \<Rightarrow> panel_db \<Rightarrow> auth_error + (token_request \<times> panel_db)" where
  "prepare_email_verification lib fresh now uid requested current d =
     (case normalize_mailbox lib requested of
        None \<Rightarrow> Inl ErrInvalidEmail
      | Some target \<Rightarrow>
        (case user_at uid d of
           None \<Rightarrow> Inl ErrUserNotFound
         | Some u \<Rightarrow>
           if \<not> lib_match lib (usr_password_hash u) current then Inl ErrInvalidCredentials
           else if usr_email u = Some target then Inl ErrEmailUnchanged
           else if email_taken target uid d then Inl ErrEmailTaken
           else
             let remaining = (case latest_token (email_token uid) d of
                 None \<Rightarrow> 0 | Some t \<Rightarrow> email_interval - (now - tok_created_at t))
             in if remaining > 0 then Inl (EmailRateLimit remaining)
                else
                  let purpose = (if usr_email u \<noteq> None then ''change_email'' else ''verify_email'')
                  in case insert_token uid purpose target (lib_digest lib fresh) now (use_tokens now (email_token uid) d) of
                       Inl e \<Rightarrow> Inl e
                     | Inr (tid, d') \<Rightarrow> Inr (\<lparr>trq_id = tid, trq_user_id = uid, trq_purpose = purpose,
                         trq_target = target, trq_token = fresh\<rparr>, d')))"

definition cancel_email_verification :: "unix_time \<Rightarrow> id64 \<Rightarrow> id64 \<Rightarrow> panel_db \<Rightarrow> panel_db" where
  "cancel_email_verification now rid uid = use_tokens now (\<lambda>t. tok_id t = rid \<and> tok_user_id t = uid)"

record email_result =
  emr_user_id :: id64
  emr_username :: string
  emr_email :: string
  emr_changed :: bool

definition email_hits :: "auth_lib \<Rightarrow> unix_time \<Rightarrow> string \<Rightarrow> panel_db \<Rightarrow> (account_token_row \<times> user_row) list" where
  "email_hits lib now raw d = [(t, u). t \<leftarrow> account_tokens (accounts d), u \<leftarrow> users (accounts d), usr_id u = tok_user_id t \<and>
          tok_hash t = lib_digest lib raw \<and> email_token (tok_user_id t) t \<and> tok_used_at t = None \<and> tok_expires_at t > now]"

definition verify_email :: "auth_lib \<Rightarrow> unix_time \<Rightarrow> string \<Rightarrow> panel_db \<Rightarrow> auth_error + (email_result \<times> panel_db)" where
  "verify_email lib now raw d =
     (if raw = [] then Inl ErrEmailVerificationInvalid
      else case email_hits lib now raw d of
        [] \<Rightarrow> Inl ErrEmailVerificationInvalid
      | (t, u) # _ \<Rightarrow>
        let uid = usr_id u; target = tok_target t;
            bindable = (\<lambda>u. usr_id u = uid \<and> \<not> email_taken target uid d);
            hit = (\<lambda>x. tok_id x = tok_id t \<and> tok_user_id x = uid)
        in if email_taken target uid d then Inl ErrEmailTaken
           else if sql_count bindable (users (accounts d)) \<noteq> 1 then Inl ErrEmailTaken
           else
             let d1 = update_users bindable (\<lambda>u. u\<lparr>usr_email := Some target, usr_verified_at := Some now, usr_updated_at := now\<rparr>) d
             in if sql_count (\<lambda>x. hit x \<and> tok_used_at x = None) (account_tokens (accounts d1)) \<noteq> 1 then Inl ErrEmailVerificationInvalid
                else
                  let d2 = use_tokens now (email_token uid) (use_tokens now hit d1);
                      changed = (usr_email u \<noteq> None \<and> usr_email u \<noteq> Some target)
                  in Inr (\<lparr>emr_user_id = uid, emr_username = usr_username u, emr_email = target, emr_changed = changed\<rparr>,
                       if changed then invalidate_reset_tokens now uid d2 else d2))"


section \<open>The statements the operations are made of\<close>

text \<open>
  A row-level relation: every change an operation commits is a sequence of these, each with the
  condition the code has checked when it issues the statement.
\<close>

definition user_role :: "string \<Rightarrow> bool" where
  "user_role role \<longleftrightarrow> role = ''admin'' \<or> valid_invitation_role role"

definition same_kind :: "account_token_row \<Rightarrow> account_token_row \<Rightarrow> bool" where
  "same_kind t t' \<longleftrightarrow> tok_user_id t = tok_user_id t' \<and> (\<exists>uid. email_token uid t \<and> email_token uid t' \<or> reset_token uid t \<and> reset_token uid t')"

abbreviation pending_of :: "id64 \<Rightarrow> password_request_row \<Rightarrow> bool" where
  "pending_of uid r \<equiv> pwr_user_id r = uid \<and> pwr_status r = ''pending''"

inductive account_change :: "accounts_db \<Rightarrow> accounts_db \<Rightarrow> bool" where
  add_user: "username_ok (usr_username u) \<Longrightarrow> usr_username u \<notin> usr_username ` set (users a) \<Longrightarrow>
      valid_invitation_role (usr_role u) \<or> usr_role u = ''admin'' \<and> users a = [] \<Longrightarrow>
      usr_id u = users_seq a + 1 \<Longrightarrow> usr_email u = None \<Longrightarrow> usr_verified_at u = None \<Longrightarrow>
      account_change a (a\<lparr>users := users a @ [u], users_seq := users_seq a + 1\<rparr>)"
| set_name: "username_ok name \<Longrightarrow> \<forall>v \<in> set (users a). usr_username v = name \<longrightarrow> usr_id v = uid \<Longrightarrow>
      account_change a (a\<lparr>users := sql_update (\<lambda>u. usr_id u = uid)
        (\<lambda>u. u\<lparr>usr_username := name, usr_updated_at := now\<rparr>) (users a)\<rparr>)"
| set_hash: "account_change a (a\<lparr>users := sql_update (\<lambda>u. usr_id u = uid)
        (\<lambda>u. u\<lparr>usr_password_hash := hashed, usr_updated_at := now\<rparr>) (users a)\<rparr>)"
| set_email: "\<forall>v \<in> set (users a). map_option sql_lower (usr_email v) = Some (sql_lower target) \<longrightarrow> usr_id v = uid \<Longrightarrow>
      account_change a (a\<lparr>users := sql_update (\<lambda>u. usr_id u = uid)
        (\<lambda>u. u\<lparr>usr_email := Some target, usr_verified_at := Some now, usr_updated_at := now\<rparr>) (users a)\<rparr>)"
| drop_sessions: "account_change a (a\<lparr>sessions := sql_delete P (sessions a)\<rparr>)"
| add_session: "ses_user_id s \<in> usr_id ` set (users a) \<Longrightarrow> ses_token_hash s \<notin> ses_token_hash ` set (sessions a) \<Longrightarrow>
      account_change a (a\<lparr>sessions := sessions a @ [s]\<rparr>)"
| spend_tokens: "account_change a (a\<lparr>account_tokens := sql_update (\<lambda>t. P t \<and> tok_used_at t = None)
        (\<lambda>t. t\<lparr>tok_used_at := Some now\<rparr>) (account_tokens a)\<rparr>)"
| add_token: "tok_id t = account_tokens_seq a + 1 \<Longrightarrow> tok_hash t \<notin> tok_hash ` set (account_tokens a) \<Longrightarrow>
      \<forall>x \<in> set (account_tokens a). tok_used_at x = None \<longrightarrow> \<not> same_kind x t \<Longrightarrow> tok_user_id t \<in> usr_id ` set (users a) \<Longrightarrow>
      account_change a (a\<lparr>account_tokens_seq := account_tokens_seq a + 1, account_tokens := account_tokens a @ [t]\<rparr>)"
| add_invitation: "inv_id i = invitations_seq a + 1 \<Longrightarrow> inv_token_hash i \<notin> inv_token_hash ` set (invitations a) \<Longrightarrow>
      valid_invitation_role (inv_role i) \<Longrightarrow>
      account_change a (a\<lparr>invitations := invitations a @ [i], invitations_seq := invitations_seq a + 1\<rparr>)"
| drop_invitations: "(\<And>i. P i \<Longrightarrow> inv_used_at i = None) \<Longrightarrow> account_change a (a\<lparr>invitations := sql_delete P (invitations a)\<rparr>)"
| spend_invitations: "account_change a (a\<lparr>invitations := sql_update P (\<lambda>i. i\<lparr>inv_used_at := Some now\<rparr>) (invitations a)\<rparr>)"
| add_request: "pwr_id r = password_requests_seq a + 1 \<Longrightarrow> pwr_user_id r \<in> usr_id ` set (users a) \<Longrightarrow>
      \<forall>x \<in> set (password_requests a). \<not> pending_of (pwr_user_id r) x \<Longrightarrow>
      account_change a (a\<lparr>password_requests_seq := password_requests_seq a + 1, password_requests := password_requests a @ [r]\<rparr>)"
| drop_requests: "account_change a (a\<lparr>password_requests := sql_delete P (password_requests a)\<rparr>)"
| close_requests: "status \<noteq> ''pending'' \<Longrightarrow> account_change a (a\<lparr>password_requests := sql_update P (\<lambda>r. r\<lparr>pwr_status := status,
        pwr_proposed := None, pwr_reviewed_by := Some admin, pwr_reviewed_at := Some now\<rparr>) (password_requests a)\<rparr>)"

section \<open>The invariant of the account tables\<close>

definition unique_emails :: "user_row list \<Rightarrow> bool" where
  "unique_emails us \<longleftrightarrow> (\<forall>u \<in> set us. \<forall>v \<in> set us. usr_email u \<noteq> None \<longrightarrow>
     map_option sql_lower (usr_email u) = map_option sql_lower (usr_email v) \<longrightarrow> usr_id u = usr_id v)"

definition one_pending :: "password_request_row list \<Rightarrow> bool" where
  "one_pending rs \<longleftrightarrow> (\<forall>r \<in> set rs. \<forall>r' \<in> set rs. pending_of (pwr_user_id r') r \<longrightarrow> pwr_status r' = ''pending'' \<longrightarrow> pwr_id r = pwr_id r')"

definition one_active :: "account_token_row list \<Rightarrow> bool" where
  "one_active ts \<longleftrightarrow> (\<forall>t \<in> set ts. \<forall>t' \<in> set ts. tok_used_at t = None \<longrightarrow> tok_used_at t' = None \<longrightarrow> same_kind t t' \<longrightarrow> tok_id t = tok_id t')"

definition user_ok :: "id64 \<Rightarrow> user_row \<Rightarrow> bool" where
  "user_ok seq u \<longleftrightarrow> usr_id u \<le> seq \<and> username_ok (usr_username u) \<and> user_role (usr_role u) \<and>
     (usr_verified_at u \<noteq> None \<longrightarrow> usr_email u \<noteq> None)"

definition users_ok :: "id64 \<Rightarrow> user_row list \<Rightarrow> bool" where
  "users_ok seq us \<longleftrightarrow> distinct (map usr_id us) \<and> distinct (map usr_username us) \<and> (\<forall>u \<in> set us. user_ok seq u) \<and> unique_emails us"

definition invitations_ok :: "id64 \<Rightarrow> invitation_row list \<Rightarrow> bool" where
  "invitations_ok seq is \<longleftrightarrow> distinct (map inv_id is) \<and> distinct (map inv_token_hash is) \<and>
     (\<forall>i \<in> set is. inv_id i \<le> seq \<and> valid_invitation_role (inv_role i))"

definition sessions_ok :: "id64 set \<Rightarrow> session_row list \<Rightarrow> bool" where
  "sessions_ok ids ss \<longleftrightarrow> distinct (map ses_token_hash ss) \<and> (\<forall>s \<in> set ss. ses_user_id s \<in> ids)"

definition requests_ok :: "id64 \<Rightarrow> id64 set \<Rightarrow> password_request_row list \<Rightarrow> bool" where
  "requests_ok seq ids rs \<longleftrightarrow> distinct (map pwr_id rs) \<and> (\<forall>r \<in> set rs. pwr_id r \<le> seq \<and> pwr_user_id r \<in> ids) \<and> one_pending rs"

definition tokens_ok :: "id64 \<Rightarrow> id64 set \<Rightarrow> account_token_row list \<Rightarrow> bool" where
  "tokens_ok seq ids ts \<longleftrightarrow> distinct (map tok_id ts) \<and> distinct (map tok_hash ts) \<and>
     (\<forall>t \<in> set ts. tok_id t \<le> seq \<and> tok_user_id t \<in> ids) \<and> one_active ts"

definition accounts_ok :: "accounts_db \<Rightarrow> bool" where
  "accounts_ok a \<longleftrightarrow> users_ok (users_seq a) (users a) \<and> invitations_ok (invitations_seq a) (invitations a) \<and>
     sessions_ok (usr_id ` set (users a)) (sessions a) \<and>
     requests_ok (password_requests_seq a) (usr_id ` set (users a)) (password_requests a) \<and>
     tokens_ok (account_tokens_seq a) (usr_id ` set (users a)) (account_tokens a)"

lemma fresh_id: "\<forall>r \<in> set t. key r \<le> seq \<Longrightarrow> distinct (map key t) \<Longrightarrow> key r = seq + (1 :: int) \<Longrightarrow> distinct (map key (t @ [r]))"
  by force

lemma users_ok_add:
  assumes "users_ok seq us" "username_ok (usr_username u)" "usr_username u \<notin> usr_username ` set us"
    "user_role (usr_role u)" "usr_id u = seq + 1" "usr_email u = None" "usr_verified_at u = None"
  shows "users_ok (seq + 1) (us @ [u])"
  unfolding users_ok_def
proof (intro conjI)
  have ok: "distinct (map usr_id us)" "distinct (map usr_username us)" "\<forall>u \<in> set us. user_ok seq u" "unique_emails us"
    using assms(1) by (simp_all add: users_ok_def)
  show "distinct (map usr_id (us @ [u]))"
    by (rule fresh_id [where key = usr_id, OF _ ok(1) assms(5)]) (use ok(3) in \<open>simp add: user_ok_def\<close>)
  show "distinct (map usr_username (us @ [u]))"
    using ok(2) assms(3) by simp
  have "user_ok (seq + 1) u"
    by (simp add: user_ok_def assms(2,4-7))
  moreover have "user_ok (seq + 1) v" if "user_ok seq v" for v
    using that by (simp add: user_ok_def)
  ultimately show "\<forall>v \<in> set (us @ [u]). user_ok (seq + 1) v"
    using ok(3) by simp
  show "unique_emails (us @ [u])"
    using ok(4) assms(6) unfolding unique_emails_def set_append by fastforce
qed

text \<open>An update of one user that keeps ids, checked against the other rows.\<close>

lemma users_ok_update:
  assumes ok: "users_ok seq us" and id: "\<And>u. usr_id (f u) = usr_id u"
    and row: "\<And>u. u \<in> set us \<Longrightarrow> usr_id u = uid \<Longrightarrow> user_ok seq (f u)"
    and name: "\<And>u v. u \<in> set us \<Longrightarrow> v \<in> set us \<Longrightarrow> usr_id u = uid \<Longrightarrow> usr_id v \<noteq> uid \<Longrightarrow> usr_username v \<noteq> usr_username (f u)"
    and email: "\<And>u v. u \<in> set us \<Longrightarrow> v \<in> set us \<Longrightarrow> usr_id u = uid \<Longrightarrow> usr_id v \<noteq> uid \<Longrightarrow> usr_email v \<noteq> None \<Longrightarrow>
         map_option sql_lower (usr_email v) \<noteq> map_option sql_lower (usr_email (f u))"
  shows "users_ok seq (sql_update (\<lambda>u. usr_id u = uid) f us)"
proof -
  let ?g = "\<lambda>u. if usr_id u = uid then f u else u"
  have upd: "sql_update (\<lambda>u. usr_id u = uid) f us = map ?g us"
    by (simp add: sql_update_def)
  have parts: "distinct (map usr_id us)" "distinct (map usr_username us)" "\<forall>u \<in> set us. user_ok seq u" "unique_emails us"
    using ok by (simp_all add: users_ok_def)
  have gid: "usr_id (?g u) = usr_id u" for u
    by (simp add: id)
  have ids: "map usr_id (map ?g us) = map usr_id us"
    by (simp add: id)
  have same: "u = v" if "u \<in> set us" "v \<in> set us" "usr_id u = usr_id v" for u v
    using distinct_key_unique [OF parts(1)] that by blast
  have "u = v" if uv: "u \<in> set us" "v \<in> set us" "usr_username (?g u) = usr_username (?g v)" for u v
  proof (rule same [OF uv(1,2)], rule ccontr)
    assume ne: "usr_id u \<noteq> usr_id v"
    then consider "usr_id u \<noteq> uid" "usr_id v \<noteq> uid" | "usr_id u = uid" "usr_id v \<noteq> uid" | "usr_id v = uid" "usr_id u \<noteq> uid"
      by metis
    then show False
    proof cases
      case 1
      then have "u = v"
        using distinct_key_unique [OF parts(2) uv(1,2)] uv(3) by simp
      with ne show False by simp
    qed (use uv(3) name [OF uv(1,2)] name [OF uv(2,1)] in simp_all)
  qed
  then have names: "distinct (map usr_username (map ?g us))"
    using parts(1) unfolding map_map distinct_map by (auto simp: inj_on_def)
  have each: "\<forall>u \<in> set (map ?g us). user_ok seq u"
    using parts(3) row by auto
  have "unique_emails (map ?g us)"
    unfolding unique_emails_def set_map
  proof (intro ballI impI)
    fix x y assume "x \<in> ?g ` set us" "y \<in> ?g ` set us" and e: "usr_email x \<noteq> None" "map_option sql_lower (usr_email x) = map_option sql_lower (usr_email y)"
    then obtain u v where uv: "u \<in> set us" "v \<in> set us" "x = ?g u" "y = ?g v" by blast
    have y: "usr_email y \<noteq> None"
      using e by (metis option.map_disc_iff)
    consider "usr_id u = usr_id v" | "usr_id u \<noteq> uid" "usr_id v \<noteq> uid" | "usr_id u = uid" "usr_id v \<noteq> uid" | "usr_id v = uid" "usr_id u \<noteq> uid"
      by fastforce
    then have "usr_id u = usr_id v"
    proof cases
      case 2
      then have "x = u" "y = v" using uv(3,4) by simp_all
      then show ?thesis
        using parts(4) uv(1,2) e unfolding unique_emails_def by blast
    next
      case 3
      then have "x = f u" "y = v" using uv(3,4) by simp_all
      then show ?thesis
        using email [OF uv(1,2) 3] e(2) y by metis
    next
      case 4
      then have "x = u" "y = f v" using uv(3,4) by simp_all
      then show ?thesis
        using email [OF uv(2,1) 4] e by metis
    qed
    then show "usr_id x = usr_id y"
      unfolding uv(3,4) gid .
  qed
  then show ?thesis
    unfolding users_ok_def upd ids using parts(1) names each by blast
qed

lemma tokens_ok_spend:
  assumes "tokens_ok seq ids ts"
  shows "tokens_ok seq ids (sql_update (\<lambda>t. P t \<and> tok_used_at t = None) (\<lambda>t. t\<lparr>tok_used_at := Some now\<rparr>) ts)"
proof -
  let ?ts = "sql_update (\<lambda>t. P t \<and> tok_used_at t = None) (\<lambda>t. t\<lparr>tok_used_at := Some now\<rparr>) ts"
  have "\<forall>t \<in> set ?ts. tok_id t \<le> seq \<and> tok_user_id t \<in> ids"
    by (rule sql_update_all) (use assms in \<open>simp_all add: tokens_ok_def\<close>)
  moreover have "t \<in> set ts" if "t \<in> set ?ts" "tok_used_at t = None" for t
    using that by (auto simp: sql_update_def split: if_splits)
  then have "one_active ?ts"
    using assms unfolding tokens_ok_def one_active_def by blast
  ultimately show ?thesis
    using assms by (simp add: tokens_ok_def map_sql_update_key)
qed

lemma same_kind_sym: "same_kind t t' \<longleftrightarrow> same_kind t' t"
  by (auto simp: same_kind_def)

lemma tokens_ok_add:
  assumes "tokens_ok seq ids ts" "tok_id t = seq + 1" "tok_hash t \<notin> tok_hash ` set ts" "tok_user_id t \<in> ids"
    "\<forall>x \<in> set ts. tok_used_at x = None \<longrightarrow> \<not> same_kind x t"
  shows "tokens_ok (seq + 1) ids (ts @ [t])"
  unfolding tokens_ok_def
proof (intro conjI)
  have ok: "distinct (map tok_id ts)" "distinct (map tok_hash ts)" "\<forall>t \<in> set ts. tok_id t \<le> seq \<and> tok_user_id t \<in> ids" "one_active ts"
    using assms(1) by (simp_all add: tokens_ok_def)
  show "distinct (map tok_id (ts @ [t]))"
    by (rule fresh_id [where key = tok_id, OF _ ok(1) assms(2)]) (use ok(3) in simp)
  show "distinct (map tok_hash (ts @ [t]))"
    using ok(2) assms(3) by simp
  show "\<forall>x \<in> set (ts @ [t]). tok_id x \<le> seq + 1 \<and> tok_user_id x \<in> ids"
    using ok(3) assms(2,4) by fastforce
  show "one_active (ts @ [t])"
    using ok(4) assms(5) same_kind_sym unfolding one_active_def set_append by fastforce
qed

lemma invitations_ok_change:
  assumes "invitations_ok seq is"
  shows "invitations_ok seq (sql_delete P is)"
    "invitations_ok seq (sql_update P (\<lambda>i. i\<lparr>inv_used_at := Some now\<rparr>) is)"
proof -
  have "\<forall>i \<in> set (sql_update P (\<lambda>i. i\<lparr>inv_used_at := Some now\<rparr>) is). inv_id i \<le> seq \<and> valid_invitation_role (inv_role i)"
    by (rule sql_update_all) (use assms in \<open>simp_all add: invitations_ok_def\<close>)
  then show "invitations_ok seq (sql_update P (\<lambda>i. i\<lparr>inv_used_at := Some now\<rparr>) is)"
    using assms by (simp add: invitations_ok_def map_sql_update_key)
  show "invitations_ok seq (sql_delete P is)"
    using assms by (simp add: invitations_ok_def distinct_sql_delete) (simp add: sql_delete_def)
qed

lemma invitations_ok_add:
  assumes "invitations_ok seq is" "inv_id i = seq + 1" "inv_token_hash i \<notin> inv_token_hash ` set is" "valid_invitation_role (inv_role i)"
  shows "invitations_ok (seq + 1) (is @ [i])"
proof -
  have "distinct (map inv_id (is @ [i]))"
    by (rule fresh_id [where key = inv_id, OF _ _ assms(2)]) (use assms(1) in \<open>simp_all add: invitations_ok_def\<close>)
  with assms show ?thesis
    by (fastforce simp: invitations_ok_def)
qed

lemma requests_ok_change:
  assumes "requests_ok seq ids rs"
  shows "requests_ok seq ids (sql_delete P rs)"
    "status \<noteq> ''pending'' \<Longrightarrow> requests_ok seq ids (sql_update P (\<lambda>r. r\<lparr>pwr_status := status,
        pwr_proposed := None, pwr_reviewed_by := Some admin, pwr_reviewed_at := Some now\<rparr>) rs)"
proof -
  have "one_pending (sql_delete P rs)"
    using assms unfolding requests_ok_def one_pending_def sql_delete_def by fastforce
  then show "requests_ok seq ids (sql_delete P rs)"
    using assms by (simp add: requests_ok_def distinct_sql_delete) (simp add: sql_delete_def)
next
  let ?f = "\<lambda>r. r\<lparr>pwr_status := status, pwr_proposed := None, pwr_reviewed_by := Some admin, pwr_reviewed_at := Some now\<rparr>"
  assume s: "status \<noteq> ''pending''"
  have "r \<in> set rs" if "r \<in> set (sql_update P ?f rs)" "pwr_status r = ''pending''" for r
    using that s by (auto simp: sql_update_def split: if_splits)
  then have "one_pending (sql_update P ?f rs)"
    using assms unfolding requests_ok_def one_pending_def by blast
  moreover have "\<forall>r \<in> set (sql_update P ?f rs). pwr_id r \<le> seq \<and> pwr_user_id r \<in> ids"
    by (rule sql_update_all) (use assms in \<open>simp_all add: requests_ok_def\<close>)
  ultimately show "requests_ok seq ids (sql_update P ?f rs)"
    using assms by (simp add: requests_ok_def map_sql_update_key)
qed

lemma requests_ok_add:
  assumes "requests_ok seq ids rs" "pwr_id r = seq + 1" "pwr_user_id r \<in> ids" "\<forall>x \<in> set rs. \<not> pending_of (pwr_user_id r) x"
  shows "requests_ok (seq + 1) ids (rs @ [r])"
proof -
  have "distinct (map pwr_id (rs @ [r]))"
    by (rule fresh_id [where key = pwr_id, OF _ _ assms(2)]) (use assms(1) in \<open>simp_all add: requests_ok_def\<close>)
  moreover have "one_pending (rs @ [r])"
    using assms(1,4) unfolding requests_ok_def one_pending_def set_append by fastforce
  moreover have "\<forall>x \<in> set (rs @ [r]). pwr_id x \<le> seq + 1 \<and> pwr_user_id x \<in> ids"
    using assms(1-3) by (fastforce simp: requests_ok_def)
  ultimately show ?thesis
    by (simp add: requests_ok_def)
qed

lemma ids_ok_mono:
  "sessions_ok ids ss \<Longrightarrow> ids \<subseteq> ids' \<Longrightarrow> sessions_ok ids' ss"
  "requests_ok seq ids rs \<Longrightarrow> ids \<subseteq> ids' \<Longrightarrow> requests_ok seq ids' rs"
  "tokens_ok seq ids ts \<Longrightarrow> ids \<subseteq> ids' \<Longrightarrow> tokens_ok seq ids' ts"
  by (auto simp: sessions_ok_def requests_ok_def tokens_ok_def)

lemma user_ids_update: "(\<And>u. usr_id (f u) = usr_id u) \<Longrightarrow> usr_id ` set (sql_update P f us) = usr_id ` set us"
  by (metis list.set_map map_sql_update_key)

lemma users_ok_keep:
  assumes "users_ok seq us" "\<And>u. usr_id (f u) = usr_id u" "\<And>u. usr_username (f u) = usr_username u"
    "\<And>u. usr_email (f u) = usr_email u" "\<And>u. usr_verified_at (f u) = usr_verified_at u" "\<And>u. usr_role (f u) = usr_role u"
  shows "users_ok seq (sql_update (\<lambda>u. usr_id u = uid) f us)"
proof (rule users_ok_update [OF assms(1,2)])
  have parts: "distinct (map usr_username us)" "\<forall>u \<in> set us. user_ok seq u" "unique_emails us"
    using assms(1) by (simp_all add: users_ok_def)
  fix u assume u: "u \<in> set us" "usr_id u = uid"
  show "user_ok seq (f u)"
    using parts(2) u(1) by (simp add: user_ok_def assms)
  fix v assume v: "v \<in> set us" "usr_id v \<noteq> uid"
  show "usr_username v \<noteq> usr_username (f u)"
    using distinct_key_unique [OF parts(1) v(1) u(1)] u(2) v(2) unfolding assms(3) by blast
  show "map_option sql_lower (usr_email v) \<noteq> map_option sql_lower (usr_email (f u))" if "usr_email v \<noteq> None"
    using parts(3) u v that unfolding unique_emails_def assms(4) by blast
qed

lemma account_change_ok: "account_change a a' \<Longrightarrow> accounts_ok a \<Longrightarrow> accounts_ok a'"
proof (induction rule: account_change.induct)
  case (add_user u a)
  have "users_ok (users_seq a + 1) (users a @ [u])"
    by (rule users_ok_add) (use add_user in \<open>auto simp: accounts_ok_def user_role_def\<close>)
  moreover have "usr_id ` set (users a) \<subseteq> usr_id ` set (users a @ [u])"
    by auto
  ultimately show ?case
    using add_user.prems ids_ok_mono [where ids = "usr_id ` set (users a)"] by (simp add: accounts_ok_def)
next
  case (set_name name a uid now)
  have U: "users_ok (users_seq a) (users a)"
    using set_name.prems by (simp add: accounts_ok_def)
  have "users_ok (users_seq a) (sql_update (\<lambda>u. usr_id u = uid) (\<lambda>u. u\<lparr>usr_username := name, usr_updated_at := now\<rparr>) (users a))"
  proof (rule users_ok_update [OF U])
    fix u assume u: "u \<in> set (users a)" "usr_id u = uid"
    show "user_ok (users_seq a) (u\<lparr>usr_username := name, usr_updated_at := now\<rparr>)"
      using U u(1) set_name.hyps(1) by (simp add: users_ok_def user_ok_def)
    fix v assume v: "v \<in> set (users a)" "usr_id v \<noteq> uid"
    show "usr_username v \<noteq> usr_username (u\<lparr>usr_username := name, usr_updated_at := now\<rparr>)"
      using set_name.hyps(2) v by auto
    show "map_option sql_lower (usr_email v) \<noteq> map_option sql_lower (usr_email (u\<lparr>usr_username := name, usr_updated_at := now\<rparr>))"
      if "usr_email v \<noteq> None"
    proof -
      have same: "usr_email (u\<lparr>usr_username := name, usr_updated_at := now\<rparr>) = usr_email u" by simp
      show ?thesis
        using U u v that unfolding users_ok_def unique_emails_def same by blast
    qed
  qed simp
  then show ?case
    using set_name.prems by (simp add: accounts_ok_def user_ids_update)
next
  case (set_hash a uid now hashed)
  have "users_ok (users_seq a) (sql_update (\<lambda>u. usr_id u = uid) (\<lambda>u. u\<lparr>usr_password_hash := hashed, usr_updated_at := now\<rparr>) (users a))"
    by (rule users_ok_keep) (use set_hash.prems in \<open>simp_all add: accounts_ok_def\<close>)
  then show ?case
    using set_hash.prems by (simp add: accounts_ok_def user_ids_update)
next
  case (set_email a target uid now)
  have U: "users_ok (users_seq a) (users a)"
    using set_email.prems by (simp add: accounts_ok_def)
  have "users_ok (users_seq a) (sql_update (\<lambda>u. usr_id u = uid)
      (\<lambda>u. u\<lparr>usr_email := Some target, usr_verified_at := Some now, usr_updated_at := now\<rparr>) (users a))"
  proof (rule users_ok_update [OF U])
    fix u assume u: "u \<in> set (users a)" "usr_id u = uid"
    show "user_ok (users_seq a) (u\<lparr>usr_email := Some target, usr_verified_at := Some now, usr_updated_at := now\<rparr>)"
      using U u(1) by (simp add: users_ok_def user_ok_def)
    fix v assume v: "v \<in> set (users a)" "usr_id v \<noteq> uid"
    show "usr_username v \<noteq> usr_username (u\<lparr>usr_email := Some target, usr_verified_at := Some now, usr_updated_at := now\<rparr>)"
      using distinct_key_unique [of usr_username "users a" v u] U u v by (auto simp: users_ok_def)
    show "map_option sql_lower (usr_email v) \<noteq>
        map_option sql_lower (usr_email (u\<lparr>usr_email := Some target, usr_verified_at := Some now, usr_updated_at := now\<rparr>))"
      using set_email.hyps v by auto
  qed simp
  then show ?case
    using set_email.prems by (simp add: accounts_ok_def user_ids_update)
next
  case (drop_sessions a P)
  then show ?case
    by (simp add: accounts_ok_def sessions_ok_def distinct_sql_delete) (simp add: sql_delete_def)
next
  case (add_session s a)
  then show ?case
    by (simp add: accounts_ok_def sessions_ok_def)
qed (simp_all add: accounts_ok_def tokens_ok_spend tokens_ok_add invitations_ok_change invitations_ok_add
    requests_ok_change requests_ok_add)


section \<open>The operations as a step relation\<close>

text \<open>One step is one successful operation at any instant, with any fresh token and password hash.\<close>

inductive account_step :: "auth_lib \<Rightarrow> panel_db \<Rightarrow> panel_db \<Rightarrow> bool" for lib where
  step_initialize: "initialize_panel hashed now username password d = Inr d' \<Longrightarrow> account_step lib d d'"
| step_rename: "rename_user lib now uid current username d = Inr d' \<Longrightarrow> account_step lib d d'"
| step_change: "change_password lib hashed now uid current password d = Inr d' \<Longrightarrow> account_step lib d d'"
| step_session: "create_session lib fresh now uid d = Inr (ends, d') \<Longrightarrow> account_step lib d d'"
| step_logout: "account_step lib d (logout lib tok d)"
| step_invite: "create_invitation lib fresh now by roles d = Inr (i, d') \<Longrightarrow> account_step lib d d'"
| step_revoke: "revoke_invitation now iid d = Inr d' \<Longrightarrow> account_step lib d d'"
| step_register: "register_with_invitation lib hashed fresh now tok username password d = Inr (u, d') \<Longrightarrow> account_step lib d d'"
| step_request: "request_password_reset_for_user hashed now uid password d = Inr (rid, d') \<Longrightarrow> account_step lib d d'"
| step_request_by_name: "request_password_reset_by_username hashed now username password d = Inr d' \<Longrightarrow> account_step lib d d'"
| step_review: "review_password_change_request now rid admin approve d = Inr d' \<Longrightarrow> account_step lib d d'"
| step_prepare_reset: "prepare_password_reset_email lib fresh now identifier d = Inr (r, d') \<Longrightarrow> account_step lib d d'"
| step_cancel_reset: "account_step lib d (cancel_password_reset_email now rid uid d)"
| step_reset: "reset_password_by_email lib hashed now raw password d = Inr (u, d') \<Longrightarrow> account_step lib d d'"
| step_prepare_email: "prepare_email_verification lib fresh now uid requested current d = Inr (r, d') \<Longrightarrow> account_step lib d d'"
| step_cancel_email: "account_step lib d (cancel_email_verification now rid uid d)"
| step_verify: "verify_email lib now raw d = Inr (r, d') \<Longrightarrow> account_step lib d d'"

abbreviation changes :: "accounts_db \<Rightarrow> panel_db \<Rightarrow> bool" where
  "changes a d \<equiv> account_change\<^sup>*\<^sup>* a (accounts d)"

lemma changes_by: "changes a d \<Longrightarrow> account_change (accounts d) (accounts d') \<Longrightarrow> changes a d'"
  by (rule rtranclp.rtrancl_into_rtrancl)

lemma changes_use_tokens: "changes a d \<Longrightarrow> changes a (use_tokens now P d)"
  by (erule changes_by) (simp add: use_tokens_def spend_tokens)

lemma changes_delete_sessions: "changes a d \<Longrightarrow> changes a (delete_sessions uid d)"
  by (erule changes_by) (simp add: delete_sessions_def drop_sessions)

lemma changes_set_hash: "changes a d \<Longrightarrow> changes a
    (update_users (\<lambda>u. usr_id u = uid) (\<lambda>u. u\<lparr>usr_password_hash := hashed, usr_updated_at := now\<rparr>) d)"
  by (erule changes_by) (simp add: update_users_def set_hash)

lemma changes_insert_user:
  "changes a d \<Longrightarrow> username_ok name \<Longrightarrow> user_by (\<lambda>u. usr_username u = name) d = None \<Longrightarrow>
    valid_invitation_role role \<or> role = ''admin'' \<and> users (accounts d) = [] \<Longrightarrow> changes a (insert_user name hashed role now d)"
  by (erule changes_by)
    (auto simp: insert_user_def new_user_def user_by_def sql_first_None_iff intro!: add_user)

lemmas changes_intros = changes_use_tokens changes_delete_sessions changes_set_hash

lemma user_at_id: "user_at uid d \<noteq> None \<longleftrightarrow> uid \<in> usr_id ` set (users (accounts d))"
  by (force simp: user_by_def sql_first_None_iff)

lemma insert_token_changes:
  assumes "insert_token uid purpose target digest now (use_tokens now P d) = Inr (tid, d')" "changes a d"
    "uid \<in> usr_id ` set (users (accounts d))"
    "P = email_token uid \<and> (purpose = ''verify_email'' \<or> purpose = ''change_email'') \<or> P = reset_token uid \<and> purpose = ''reset_password''"
  shows "changes a d'"
proof -
  let ?d = "use_tokens now P d"
  let ?t = "\<lparr>tok_id = account_tokens_seq (accounts ?d) + 1, tok_user_id = uid, tok_purpose = purpose, tok_target = target,
    tok_hash = digest, tok_expires_at = now + token_lifetime, tok_used_at = None, tok_created_at = now\<rparr>"
  have "\<not> same_kind x ?t" if x: "x \<in> set (account_tokens (accounts ?d))" "tok_used_at x = None" for x
  proof
    assume "same_kind x ?t"
    then have "P x"
      using assms(4) by (auto simp: same_kind_def email_token_def reset_token_def)
    with x show False
      by (auto simp: use_tokens_def sql_update_def split: if_splits)
  qed
  moreover have "digest \<notin> tok_hash ` set (account_tokens (accounts ?d))"
    using assms(1) by (auto simp: insert_token_def Let_def sql_exists_iff split: if_splits)
  moreover have "uid \<in> usr_id ` set (users (accounts ?d))"
    using assms(3) by (simp add: use_tokens_def)
  ultimately have "account_change (accounts ?d) ((accounts ?d)\<lparr>account_tokens_seq := account_tokens_seq (accounts ?d) + 1,
      account_tokens := account_tokens (accounts ?d) @ [?t]\<rparr>)"
    by (intro add_token) auto
  moreover have "accounts d' = (accounts ?d)\<lparr>account_tokens_seq := account_tokens_seq (accounts ?d) + 1,
      account_tokens := account_tokens (accounts ?d) @ [?t]\<rparr>"
    using assms(1) by (auto simp: insert_token_def Let_def split: if_splits)
  ultimately show ?thesis
    using changes_by [OF changes_use_tokens [OF assms(2)]] by metis
qed

lemma prepare_credentials_ok: "prepare_credentials username password = Inr name \<Longrightarrow> username_ok name"
  by (auto simp: prepare_credentials_def Let_def split: if_splits option.splits)

lemma initialize_changes: "initialize_panel hashed now username password d = Inr d' \<Longrightarrow> changes (accounts d) d'"
  by (auto simp: initialize_panel_def user_by_def sql_first_None_iff dest: prepare_credentials_ok
      intro!: changes_insert_user split: sum.splits if_splits)

lemma rename_changes:
  assumes "rename_user lib now uid current username d = Inr d'" shows "changes (accounts d) d'"
proof -
  have "username_ok (trim_space username)" "user_by (\<lambda>v. usr_username v = trim_space username \<and> usr_id v \<noteq> uid) d = None"
    "d' = update_users (\<lambda>u. usr_id u = uid) (\<lambda>u. u\<lparr>usr_username := trim_space username, usr_updated_at := now\<rparr>) d"
    using assms by (auto simp: rename_user_def Let_def split: if_splits option.splits)
  then show ?thesis
    by (intro changes_by [OF rtranclp.rtrancl_refl])
      (auto simp: update_users_def user_by_def sql_first_None_iff intro!: set_name)
qed

lemma change_password_effect:
  assumes "change_password lib hashed now uid current password d = Inr d'"
  shows "d' = invalidate_reset_tokens now uid (delete_sessions uid (update_users (\<lambda>u. usr_id u = uid)
    (\<lambda>u. u\<lparr>usr_password_hash := hashed, usr_updated_at := now\<rparr>) d))"
  using assms by (auto simp: change_password_def split: if_splits option.splits)

lemma change_password_changes: "change_password lib hashed now uid current password d = Inr d' \<Longrightarrow> changes (accounts d) d'"
  by (drule change_password_effect) (simp add: invalidate_reset_tokens_def changes_intros)

lemma create_session_changes:
  assumes "create_session lib fresh now uid d = Inr (ends, d')" shows "changes (accounts d) d'"
proof -
  let ?live = "sql_delete (\<lambda>s. ses_expires_at s \<le> now) (sessions (accounts d))"
  let ?s = "\<lparr>ses_user_id = uid, ses_token_hash = lib_digest lib fresh, ses_expires_at = ends, ses_created_at = now\<rparr>"
  have c: "user_at uid d \<noteq> None" "\<not> sql_exists (\<lambda>s. ses_token_hash s = lib_digest lib fresh) ?live"
    "accounts d' = (accounts d)\<lparr>sessions := ?live @ [?s]\<rparr>"
    using assms by (auto simp: create_session_def Let_def split: if_splits)
  have new: "uid \<in> usr_id ` set (users (accounts d))" "lib_digest lib fresh \<notin> ses_token_hash ` set ?live"
    using c(1,2) unfolding user_at_id sql_exists_iff by auto
  have "account_change (accounts d) ((accounts d)\<lparr>sessions := ?live\<rparr>)"
    by (rule drop_sessions)
  moreover have "account_change ((accounts d)\<lparr>sessions := ?live\<rparr>) ((accounts d)\<lparr>sessions := ?live @ [?s]\<rparr>)"
    using add_session [of ?s "(accounts d)\<lparr>sessions := ?live\<rparr>"] new by simp
  ultimately show ?thesis
    unfolding c(3) by (meson converse_rtranclp_into_rtranclp r_into_rtranclp)
qed

lemma logout_changes: "changes (accounts d) (logout lib tok d)"
  by (auto simp: logout_def intro: changes_by [OF rtranclp.rtrancl_refl] drop_sessions)

lemma create_invitation_changes:
  assumes "create_invitation lib fresh now by roles d = Inr (i, d')" shows "changes (accounts d) d'"
proof -
  have "valid_invitation_role (inv_role i)" "inv_id i = invitations_seq (accounts d) + 1"
    "inv_token_hash i \<notin> inv_token_hash ` set (invitations (accounts d))"
    "accounts d' = (accounts d)\<lparr>invitations := invitations (accounts d) @ [i], invitations_seq := invitations_seq (accounts d) + 1\<rparr>"
    using assms by (auto simp: create_invitation_def Let_def sql_exists_iff split: if_splits)
  then show ?thesis
    using add_invitation [of i "accounts d"] by (metis r_into_rtranclp)
qed

lemma revoke_changes: "revoke_invitation now iid d = Inr d' \<Longrightarrow> changes (accounts d) d'"
  by (auto simp: revoke_invitation_def Let_def usable_invitation_def split: if_splits
      intro!: changes_by [OF rtranclp.rtrancl_refl] drop_invitations)


lemma register_effect:
  assumes "register_with_invitation lib hashed fresh now tok username password d = Inr (u, d')"
  obtains name i d2 where "prepare_credentials username password = Inr name"
    "i \<in> set (invitations (accounts d))" "inv_token_hash i = lib_digest lib tok" "usable_invitation now i"
    "valid_invitation_role (inv_role i)" "user_by (\<lambda>u. usr_username u = name) d = None"
    "u = new_user (users_seq (accounts d) + 1) name hashed (inv_role i) now"
    "accounts d2 = accounts (insert_user name hashed (inv_role i) now d)"
    "d' = on_accounts (\<lambda>a. a\<lparr>invitations := sql_update (\<lambda>x. inv_id x = inv_id i \<and> usable_invitation now x)
      (\<lambda>x. x\<lparr>inv_used_at := Some now\<rparr>) (invitations a)\<rparr>) d2"
proof -
  obtain name where name: "tok \<noteq> []" "prepare_credentials username password = Inr name"
    using assms by (auto simp: register_with_invitation_def split: if_splits sum.splits)
  obtain i where i: "sql_first (\<lambda>i. inv_token_hash i = lib_digest lib tok \<and> usable_invitation now i) (invitations (accounts d)) = Some i"
    using assms by (auto simp: register_with_invitation_def name split: option.splits)
  have ok: "valid_invitation_role (inv_role i)" "user_by (\<lambda>u. usr_username u = name) d = None"
    using assms by (auto simp: register_with_invitation_def name i split: if_splits)
  obtain d2 where d2: "(if inv_role i = ''subscriber'' then create_subscriber_profile fresh now (users_seq (accounts d) + 1)
      (insert_user name hashed (inv_role i) now d) else Inr (insert_user name hashed (inv_role i) now d)) = Inr d2"
    "u = new_user (users_seq (accounts d) + 1) name hashed (inv_role i) now"
    "d' = on_accounts (\<lambda>a. a\<lparr>invitations := sql_update (\<lambda>x. inv_id x = inv_id i \<and> usable_invitation now x)
      (\<lambda>x. x\<lparr>inv_used_at := Some now\<rparr>) (invitations a)\<rparr>) d2"
    using assms by (auto simp: register_with_invitation_def name i ok Let_def simp del: valid_invitation_role_def
        split: sum.splits if_split_asm)
  then have "accounts d2 = accounts (insert_user name hashed (inv_role i) now d)"
    by (auto simp: create_subscriber_profile_def split: if_splits)
  then show thesis
    using sql_first_SomeD [OF i] by (intro that [OF name(2) _ _ _ ok d2(2) _ d2(3)]) blast+
qed

lemma register_changes:
  assumes "register_with_invitation lib hashed fresh now tok username password d = Inr (u, d')" shows "changes (accounts d) d'"
proof (rule register_effect [OF assms])
  fix name i d2
  assume e: "prepare_credentials username password = Inr name"
    "valid_invitation_role (inv_role i)" "user_by (\<lambda>u. usr_username u = name) d = None"
    "accounts d2 = accounts (insert_user name hashed (inv_role i) now d)"
    "d' = on_accounts (\<lambda>a. a\<lparr>invitations := sql_update (\<lambda>x. inv_id x = inv_id i \<and> usable_invitation now x)
      (\<lambda>x. x\<lparr>inv_used_at := Some now\<rparr>) (invitations a)\<rparr>) d2"
  have "changes (accounts d) d2"
    using changes_insert_user [OF rtranclp.rtrancl_refl prepare_credentials_ok [OF e(1)] e(3), of "inv_role i" hashed now] e(2)
    by (simp add: e(4))
  then show ?thesis
    by (rule changes_by) (simp add: e(5) spend_invitations)
qed

lemma create_request_changes:
  assumes "create_password_reset_request now uid proposed d = Inr (rid, d')" shows "changes (accounts d) d'"
proof -
  let ?r = "\<lparr>pwr_id = password_requests_seq (accounts d) + 1, pwr_user_id = uid, pwr_proposed = Some proposed,
    pwr_status = ''pending'', pwr_reviewed_by = None, pwr_created_at = now, pwr_reviewed_at = None\<rparr>"
  have "user_at uid d \<noteq> None" "sql_count (pending_of uid) (password_requests (accounts d)) = 0"
    "accounts d' = (accounts d)\<lparr>password_requests_seq := password_requests_seq (accounts d) + 1,
      password_requests := password_requests (accounts d) @ [?r]\<rparr>"
    using assms by (auto simp: create_password_reset_request_def Let_def split: if_splits)
  then show ?thesis
    using add_request [of ?r "accounts d"] unfolding user_at_id sql_count_zero_iff
    by (intro changes_by [OF rtranclp.rtrancl_refl]) simp
qed

lemma request_changes:
  "request_password_reset_for_user hashed now uid password d = Inr (rid, d') \<Longrightarrow> changes (accounts d) d'"
  "request_password_reset_by_username hashed now username password d = Inr d' \<Longrightarrow> changes (accounts d) d'"
  by (auto simp: request_password_reset_for_user_def request_password_reset_by_username_def create_request_changes
      split: option.splits sum.splits if_splits)

definition close_request :: "unix_time \<Rightarrow> id64 \<Rightarrow> id64 \<Rightarrow> string \<Rightarrow> panel_db \<Rightarrow> panel_db" where
  "close_request now rid admin status = on_accounts (\<lambda>a. a\<lparr>password_requests := sql_update (\<lambda>r. pwr_id r = rid \<and> pwr_status r = ''pending'')
     (\<lambda>r. r\<lparr>pwr_status := status, pwr_proposed := None, pwr_reviewed_by := Some admin, pwr_reviewed_at := Some now\<rparr>) (password_requests a)\<rparr>)"

lemma review_effect:
  assumes "review_password_change_request now rid admin approve d = Inr d'"
  shows "\<exists>r. r \<in> set (password_requests (accounts d)) \<and> pwr_id r = rid \<and> pwr_status r = ''pending'' \<and> pwr_user_id r \<noteq> admin \<and>
    (if approve then \<exists>proposed. pwr_proposed r = Some proposed \<and> d' = close_request now rid admin ''approved''
        (invalidate_reset_tokens now (pwr_user_id r) (delete_sessions (pwr_user_id r) (update_users (\<lambda>u. usr_id u = pwr_user_id r)
          (\<lambda>u. u\<lparr>usr_password_hash := proposed, usr_updated_at := now\<rparr>) d)))
     else d' = close_request now rid admin ''rejected'' d)"
proof -
  obtain r where r: "sql_first (\<lambda>r. pwr_id r = rid \<and> pwr_status r = ''pending'') (password_requests (accounts d)) = Some r"
    using assms by (auto simp: review_password_change_request_def Let_def split: option.splits)
  have "pwr_user_id r \<noteq> admin"
    using assms by (auto simp: review_password_change_request_def Let_def r split: if_splits)
  moreover have "if approve then \<exists>proposed. pwr_proposed r = Some proposed \<and> d' = close_request now rid admin ''approved''
        (invalidate_reset_tokens now (pwr_user_id r) (delete_sessions (pwr_user_id r) (update_users (\<lambda>u. usr_id u = pwr_user_id r)
          (\<lambda>u. u\<lparr>usr_password_hash := proposed, usr_updated_at := now\<rparr>) d)))
     else d' = close_request now rid admin ''rejected'' d"
    using assms by (auto simp: review_password_change_request_def Let_def r close_request_def split: if_splits option.splits)
  ultimately show ?thesis
    using sql_first_SomeD [OF r] by blast
qed

lemma changes_close: "changes a d \<Longrightarrow> status \<noteq> ''pending'' \<Longrightarrow> changes a (close_request now rid admin status d)"
  by (erule changes_by) (simp add: close_request_def close_requests)

lemma review_changes:
  assumes "review_password_change_request now rid admin approve d = Inr d'" shows "changes (accounts d) d'"
  using review_effect [OF assms]
  by (cases approve) (auto simp: invalidate_reset_tokens_def intro!: changes_close changes_intros)

lemma prepare_reset_changes:
  assumes "prepare_password_reset_email lib fresh now identifier d = Inr (r, d')" shows "changes (accounts d) d'"
proof (cases r)
  case None
  then have "d' = d"
    using assms by (auto simp: prepare_password_reset_email_def Let_def split: option.splits sum.splits if_splits)
  then show ?thesis by simp
next
  case (Some q)
  then obtain condition u where u: "login_identifier_lookup lib identifier = Some condition"
    "user_by (\<lambda>u. condition u \<and> usr_email u \<noteq> None \<and> usr_verified_at u \<noteq> None) d = Some u"
    using assms by (auto simp: prepare_password_reset_email_def split: option.splits)
  then have "usr_id u \<in> usr_id ` set (users (accounts d))"
    by (auto simp: user_by_def dest: sql_first_SomeD)
  moreover obtain tid target where "insert_token (usr_id u) ''reset_password'' target (lib_digest lib fresh) now
      (use_tokens now (reset_token (usr_id u)) d) = Inr (tid, d')"
    using assms Some by (auto simp: prepare_password_reset_email_def u(1) u(2) [simplified] Let_def invalidate_reset_tokens_def
        split: sum.splits if_split_asm)
  ultimately show ?thesis
    using insert_token_changes [OF _ rtranclp.rtrancl_refl] by blast
qed

lemma prepare_email_changes:
  assumes "prepare_email_verification lib fresh now uid requested current d = Inr (r, d')" shows "changes (accounts d) d'"
proof -
  obtain target u where u: "normalize_mailbox lib requested = Some target" "user_at uid d = Some u"
    using assms by (auto simp: prepare_email_verification_def split: option.splits)
  let ?p = "if usr_email u \<noteq> None then ''change_email'' else ''verify_email''"
  have "uid \<in> usr_id ` set (users (accounts d))"
    using u(2) user_at_id [of uid d] by simp
  moreover obtain tid where "insert_token uid ?p target (lib_digest lib fresh) now (use_tokens now (email_token uid) d) = Inr (tid, d')"
    using assms unfolding prepare_email_verification_def u option.case Let_def
    by (cases "insert_token uid ?p target (lib_digest lib fresh) now (use_tokens now (email_token uid) d)")
      (auto split: if_split_asm simp del: not_None_eq)
  moreover have "?p = ''verify_email'' \<or> ?p = ''change_email''" by simp
  ultimately show ?thesis
    using insert_token_changes [OF _ rtranclp.rtrancl_refl] by blast
qed

lemma reset_effect:
  assumes "reset_password_by_email lib hashed now raw password d = Inr (u, d')"
  obtains t where "t \<in> set (account_tokens (accounts d))" "u \<in> set (users (accounts d))" "usr_id u = tok_user_id t"
    "tok_hash t = lib_digest lib raw" "reset_token (usr_id u) t" "tok_used_at t = None" "now < tok_expires_at t"
    "usr_email u = Some (tok_target t)"
    "d' = on_accounts (\<lambda>a. a\<lparr>password_requests := sql_delete (pending_of (usr_id u)) (password_requests a)\<rparr>)
      (delete_sessions (usr_id u) (invalidate_reset_tokens now (usr_id u) (use_tokens now (\<lambda>x. tok_id x = tok_id t)
        (update_users (\<lambda>x. usr_id x = usr_id u) (\<lambda>x. x\<lparr>usr_password_hash := hashed, usr_updated_at := now\<rparr>) d))))"
proof -
  obtain t v rest where h: "reset_hits lib now raw d = (t, v) # rest"
    using assms by (cases "reset_hits lib now raw d") (auto simp: reset_password_by_email_def split: option.splits if_splits)
  then have "(t, v) \<in> set (reset_hits lib now raw d)" by simp
  then have t: "t \<in> set (account_tokens (accounts d))" "v \<in> set (users (accounts d))" "usr_id v = tok_user_id t" "reset_token (usr_id v) t"
    "tok_hash t = lib_digest lib raw" "tok_used_at t = None" "now < tok_expires_at t" "usr_email v = Some (tok_target t)"
    by (auto simp: reset_token_def reset_hits_def)
  have r: "u = v" "d' = on_accounts (\<lambda>a. a\<lparr>password_requests := sql_delete (pending_of (usr_id v)) (password_requests a)\<rparr>)
      (delete_sessions (usr_id v) (invalidate_reset_tokens now (usr_id v) (use_tokens now (\<lambda>x. tok_id x = tok_id t)
        (update_users (\<lambda>x. usr_id x = usr_id v) (\<lambda>x. x\<lparr>usr_password_hash := hashed, usr_updated_at := now\<rparr>) d))))"
    using assms unfolding reset_password_by_email_def h by (auto simp: Let_def split: option.splits if_splits)
  show thesis
    by (rule that [of t]) (use t r in simp_all)
qed

lemma reset_changes:
  assumes "reset_password_by_email lib hashed now raw password d = Inr (u, d')" shows "changes (accounts d) d'"
proof (rule reset_effect [OF assms])
  fix t
  let ?d = "delete_sessions (usr_id u) (invalidate_reset_tokens now (usr_id u) (use_tokens now (\<lambda>x. tok_id x = tok_id t)
        (update_users (\<lambda>x. usr_id x = usr_id u) (\<lambda>x. x\<lparr>usr_password_hash := hashed, usr_updated_at := now\<rparr>) d)))"
  assume d': "d' = on_accounts (\<lambda>a. a\<lparr>password_requests := sql_delete (pending_of (usr_id u)) (password_requests a)\<rparr>) ?d"
  have "changes (accounts d) ?d"
    by (simp add: invalidate_reset_tokens_def changes_intros)
  then show ?thesis
    by (rule changes_by) (simp add: d' drop_requests)
qed

lemma verify_effect:
  assumes "verify_email lib now raw d = Inr (r, d')"
  obtains t u d2 where "t \<in> set (account_tokens (accounts d))" "u \<in> set (users (accounts d))" "usr_id u = tok_user_id t"
    "tok_hash t = lib_digest lib raw" "email_token (usr_id u) t" "tok_used_at t = None" "now < tok_expires_at t"
    "\<not> email_taken (tok_target t) (usr_id u) d"
    "d2 = use_tokens now (email_token (usr_id u)) (use_tokens now (\<lambda>x. tok_id x = tok_id t \<and> tok_user_id x = usr_id u)
       (update_users (\<lambda>x. usr_id x = usr_id u) (\<lambda>x. x\<lparr>usr_email := Some (tok_target t), usr_verified_at := Some now, usr_updated_at := now\<rparr>) d))"
    "d' = (if usr_email u \<noteq> None \<and> usr_email u \<noteq> Some (tok_target t) then invalidate_reset_tokens now (usr_id u) d2 else d2)"
proof -
  obtain t u rest where h: "email_hits lib now raw d = (t, u) # rest"
    using assms by (cases "email_hits lib now raw d") (auto simp: verify_email_def split: if_splits)
  then have "(t, u) \<in> set (email_hits lib now raw d)" by simp
  then have t: "t \<in> set (account_tokens (accounts d))" "u \<in> set (users (accounts d))" "usr_id u = tok_user_id t" "email_token (usr_id u) t"
    "tok_hash t = lib_digest lib raw" "tok_used_at t = None" "now < tok_expires_at t"
    by (auto simp: email_hits_def)
  let ?d2 = "use_tokens now (email_token (usr_id u)) (use_tokens now (\<lambda>x. tok_id x = tok_id t \<and> tok_user_id x = usr_id u)
       (update_users (\<lambda>x. usr_id x = usr_id u) (\<lambda>x. x\<lparr>usr_email := Some (tok_target t), usr_verified_at := Some now, usr_updated_at := now\<rparr>) d))"
  have free: "\<not> email_taken (tok_target t) (usr_id u) d"
    using assms unfolding verify_email_def h by (auto simp: Let_def split: if_splits)
  have r: "d' = (if usr_email u \<noteq> None \<and> usr_email u \<noteq> Some (tok_target t) then invalidate_reset_tokens now (usr_id u) ?d2 else ?d2)"
    using assms unfolding verify_email_def h by (auto simp: Let_def free split: if_split_asm)
  show thesis
    by (rule that [OF t(1-3,5,4,6,7) free refl r])
qed

lemma verify_changes:
  assumes "verify_email lib now raw d = Inr (r, d')" shows "changes (accounts d) d'"
proof (rule verify_effect [OF assms])
  fix t u d2
  let ?d1 = "update_users (\<lambda>x. usr_id x = usr_id u) (\<lambda>x. x\<lparr>usr_email := Some (tok_target t), usr_verified_at := Some now, usr_updated_at := now\<rparr>) d"
  assume free: "\<not> email_taken (tok_target t) (usr_id u) d"
    and d2: "d2 = use_tokens now (email_token (usr_id u)) (use_tokens now (\<lambda>x. tok_id x = tok_id t \<and> tok_user_id x = usr_id u) ?d1)"
    and d': "d' = (if usr_email u \<noteq> None \<and> usr_email u \<noteq> Some (tok_target t) then invalidate_reset_tokens now (usr_id u) d2 else d2)"
  have "changes (accounts d) ?d1"
    by (intro changes_by [OF rtranclp.rtrancl_refl])
      (use free in \<open>auto simp: update_users_def email_taken_def user_by_def sql_first_None_iff intro!: set_email\<close>)
  then have "changes (accounts d) d2"
    unfolding d2 by (intro changes_use_tokens)
  then show ?thesis
    unfolding d' invalidate_reset_tokens_def by (simp add: changes_use_tokens)
qed

lemma step_changes: "account_step lib d d' \<Longrightarrow> changes (accounts d) d'"
  by (induction rule: account_step.induct)
    (auto intro: initialize_changes rename_changes change_password_changes create_session_changes logout_changes
      create_invitation_changes revoke_changes register_changes request_changes review_changes prepare_reset_changes
      reset_changes prepare_email_changes verify_changes changes_use_tokens
      simp: cancel_password_reset_email_def cancel_email_verification_def)

end
