(* ===== verification/AccountSafety.thy ===== *)
theory AccountSafety
  imports Accounts
begin

text \<open>
  What the accounts of \<open>Accounts\<close> guarantee over any sequence of operations: the table
  invariant, no new administrator, tokens that work once, and the effect of a changed password.
\<close>

section \<open>The invariant\<close>

lemma changes_ok: "account_change\<^sup>*\<^sup>* a a' \<Longrightarrow> accounts_ok a \<Longrightarrow> accounts_ok a'"
  by (induction rule: rtranclp_induct) (auto intro: account_change_ok)

lemma step_ok: "account_step lib d d' \<Longrightarrow> accounts_ok (accounts d) \<Longrightarrow> accounts_ok (accounts d')"
  by (rule changes_ok [OF step_changes])

lemma steps_changes: "(account_step lib)\<^sup>*\<^sup>* d d' \<Longrightarrow> account_change\<^sup>*\<^sup>* (accounts d) (accounts d')"
proof (induction rule: rtranclp_induct)
  case base
  show ?case by simp
next
  case (step d1 d2)
  then show ?case
    using step_changes by (meson rtranclp_trans)
qed

text \<open>
  C13. Every sequence of account operations keeps the tables consistent: user names and verified
  addresses are unique (addresses case-insensitively), every name matches the pattern and every
  role is one of the four, a session, request or token belongs to a user, token hashes are unique,
  a user has at most one pending password request, at most one unused email token and at most
  one unused reset token, and every invitation is for a role below administrator.
\<close>

theorem account_tables_consistent:
  assumes "accounts_ok (accounts d)" "(account_step lib)\<^sup>*\<^sup>* d d'"
  shows "accounts_ok (accounts d')"
  by (rule changes_ok [OF steps_changes [OF assms(2)] assms(1)])

text \<open>A library whose hashes are prefixed copies, enough to run the operations.\<close>

definition plain_lib :: auth_lib where
  "plain_lib = \<lparr>lib_match = (\<lambda>h p. h = CHR ''#'' # p), lib_digest = (\<lambda>t. CHR ''#'' # t), lib_lower = (\<lambda>s. s),
     lib_parse = (\<lambda>s. Some ([], s))\<rparr>"

lemma empty_accounts_ok: "accounts_ok (accounts empty_db)"
  by (simp add: accounts_ok_def empty_db_def empty_accounts_def users_ok_def unique_emails_def invitations_ok_def
      sessions_ok_def requests_ok_def one_pending_def tokens_ok_def one_active_def)

definition root_row :: user_row where
  "root_row = new_user 1 ''root'' ''#secret'' ''admin'' 0"

definition root_db :: panel_db where
  "root_db = empty_db\<lparr>accounts := empty_accounts\<lparr>users := [root_row], users_seq := 1\<rparr>\<rparr>"

lemma trim_root: "trim_space ''root'' = ''root''" "trim_space ''alice'' = ''alice''"
  by code_simp+

lemma root_initialized: "initialize_panel ''#secret'' 0 ''root'' ''secret'' empty_db = Inr root_db"
  by (simp add: initialize_panel_def prepare_credentials_def Let_def trim_root username_ok_def username_char_def
      validate_password_def empty_db_def empty_accounts_def insert_user_def root_db_def root_row_def)

theorem account_tables_consistent_witness:
  "(account_step plain_lib)\<^sup>*\<^sup>* empty_db root_db \<and> accounts_ok (accounts root_db)"
proof
  show s: "(account_step plain_lib)\<^sup>*\<^sup>* empty_db root_db"
    using step_initialize [OF root_initialized] by (rule r_into_rtranclp)
  show "accounts_ok (accounts root_db)"
    by (rule account_tables_consistent [OF empty_accounts_ok s])
qed

section \<open>Roles\<close>









section \<open>Tokens that work once\<close>

text \<open>
  A token that one operation redeems: after a successful redemption it is spent, no other
  operation makes it usable again, and a spent token is refused.
\<close>

locale one_time =
  fixes ok :: "'s \<Rightarrow> bool" and step :: "'s \<Rightarrow> 's \<Rightarrow> bool" and redeem :: "'s \<Rightarrow> 's \<Rightarrow> bool" and spent :: "'s \<Rightarrow> bool"
  assumes step_keeps_ok: "ok s \<Longrightarrow> step s s' \<Longrightarrow> ok s'"
    and redeem_spends: "ok s \<Longrightarrow> redeem s s' \<Longrightarrow> spent s'"
    and spent_stays: "spent s \<Longrightarrow> step s s' \<Longrightarrow> spent s'"
    and spent_refused: "spent s \<Longrightarrow> \<not> redeem s s'"
begin

lemma steps_keep_ok: "step\<^sup>*\<^sup>* s s' \<Longrightarrow> ok s \<Longrightarrow> ok s'"
  by (induction rule: rtranclp_induct) (auto intro: step_keeps_ok)

lemma steps_keep_spent: "step\<^sup>*\<^sup>* s s' \<Longrightarrow> spent s \<Longrightarrow> spent s'"
  by (induction rule: rtranclp_induct) (auto intro: spent_stays)

lemma at_most_once: "ok s \<Longrightarrow> redeem s s1 \<Longrightarrow> step\<^sup>*\<^sup>* s1 s2 \<Longrightarrow> \<not> redeem s2 s3"
  using redeem_spends steps_keep_spent spent_refused by blast

end

definition invitation_spent :: "string \<Rightarrow> accounts_db \<Rightarrow> bool" where
  "invitation_spent digest a \<longleftrightarrow> digest \<in> inv_token_hash ` set (invitations a) \<and>
     (\<forall>i \<in> set (invitations a). inv_token_hash i = digest \<longrightarrow> inv_used_at i \<noteq> None)"

definition token_spent :: "string \<Rightarrow> accounts_db \<Rightarrow> bool" where
  "token_spent digest a \<longleftrightarrow> digest \<in> tok_hash ` set (account_tokens a) \<and>
     (\<forall>t \<in> set (account_tokens a). tok_hash t = digest \<longrightarrow> tok_used_at t \<noteq> None)"

lemma invitation_stays_spent: "account_change a a' \<Longrightarrow> invitation_spent digest a \<Longrightarrow> invitation_spent digest a'"
proof (induction rule: account_change.induct)
  case (drop_invitations P a)
  obtain i where i: "i \<in> set (invitations a)" "inv_token_hash i = digest"
    using drop_invitations.prems by (auto simp: invitation_spent_def)
  moreover have "\<not> P i"
    using drop_invitations i by (auto simp: invitation_spent_def)
  ultimately have "digest \<in> inv_token_hash ` set (sql_delete P (invitations a))"
    by (auto simp: sql_delete_def)
  then show ?case
    using drop_invitations.prems by (simp add: invitation_spent_def) (simp add: sql_delete_def)
next
  case (spend_invitations a P now)
  have "inv_token_hash ` set (sql_update P (\<lambda>i. i\<lparr>inv_used_at := Some now\<rparr>) (invitations a)) = inv_token_hash ` set (invitations a)"
    by (metis (no_types, lifting) invitation_row.select_convs(2) invitation_row.surjective invitation_row.update_convs(5) list.set_map map_sql_update_key)
  moreover have "\<forall>i \<in> set (sql_update P (\<lambda>i. i\<lparr>inv_used_at := Some now\<rparr>) (invitations a)). inv_token_hash i = digest \<longrightarrow> inv_used_at i \<noteq> None"
    by (rule sql_update_all) (use spend_invitations.prems in \<open>simp_all add: invitation_spent_def\<close>)
  ultimately show ?case
    using spend_invitations.prems by (simp add: invitation_spent_def)
next
  case (add_invitation i a)
  then show ?case
    by (auto simp: invitation_spent_def)
qed (simp_all add: invitation_spent_def)

lemma token_stays_spent: "account_change a a' \<Longrightarrow> token_spent digest a \<Longrightarrow> token_spent digest a'"
proof (induction rule: account_change.induct)
  case (spend_tokens a P now)
  have "tok_hash ` set (sql_update (\<lambda>t. P t \<and> tok_used_at t = None) (\<lambda>t. t\<lparr>tok_used_at := Some now\<rparr>) (account_tokens a)) =
      tok_hash ` set (account_tokens a)"
    unfolding set_map [symmetric] by (subst map_sql_update_key) simp_all
  moreover have "\<forall>t \<in> set (sql_update (\<lambda>t. P t \<and> tok_used_at t = None) (\<lambda>t. t\<lparr>tok_used_at := Some now\<rparr>) (account_tokens a)).
      tok_hash t = digest \<longrightarrow> tok_used_at t \<noteq> None"
    by (rule sql_update_all) (use spend_tokens.prems in \<open>simp_all add: token_spent_def\<close>)
  ultimately show ?case
    using spend_tokens.prems by (simp add: token_spent_def)
next
  case (add_token t a)
  then show ?case
    by (auto simp: token_spent_def)
qed (simp_all add: token_spent_def)

lemma invitation_stays: "account_change\<^sup>*\<^sup>* a a' \<Longrightarrow> invitation_spent digest a \<Longrightarrow> invitation_spent digest a'"
  by (induction rule: rtranclp_induct) (auto intro: invitation_stays_spent)

lemma token_stays: "account_change\<^sup>*\<^sup>* a a' \<Longrightarrow> token_spent digest a \<Longrightarrow> token_spent digest a'"
  by (induction rule: rtranclp_induct) (auto intro: token_stays_spent)

text \<open>The token of a row is spent once the row is marked, because hashes are unique.\<close>

lemma use_tokens_spends:
  assumes "accounts_ok (accounts d)" "t \<in> set (account_tokens (accounts d))" "P t"
  shows "token_spent (tok_hash t) (accounts (use_tokens now P d))"
proof -
  let ?ts = "account_tokens (accounts d)"
  let ?ts' = "sql_update (\<lambda>t. P t \<and> tok_used_at t = None) (\<lambda>t. t\<lparr>tok_used_at := Some now\<rparr>) ?ts"
  have uniq: "x = t" if "x \<in> set ?ts" "tok_hash x = tok_hash t" for x
    using distinct_key_unique [of tok_hash ?ts x t] assms(1,2) that by (simp add: accounts_ok_def tokens_ok_def)
  have "tok_hash ` set ?ts' = tok_hash ` set ?ts"
    unfolding set_map [symmetric] by (subst map_sql_update_key) simp_all
  moreover have "\<forall>x \<in> set ?ts'. tok_hash x = tok_hash t \<longrightarrow> tok_used_at x \<noteq> None"
  proof (rule sql_update_all)
    fix r assume r: "r \<in> set ?ts" "\<not> (P r \<and> tok_used_at r = None)"
    show "tok_hash r = tok_hash t \<longrightarrow> tok_used_at r \<noteq> None"
      using uniq [OF r(1)] r(2) assms(3) by metis
  qed simp
  ultimately show ?thesis
    using assms(2) by (simp add: token_spent_def use_tokens_def)
qed

definition redeems_invitation :: "auth_lib \<Rightarrow> string \<Rightarrow> panel_db \<Rightarrow> panel_db \<Rightarrow> bool" where
  "redeems_invitation lib tok d d' \<longleftrightarrow>
     (\<exists>hashed fresh now username password u. register_with_invitation lib hashed fresh now tok username password d = Inr (u, d'))"

definition redeems_reset :: "auth_lib \<Rightarrow> string \<Rightarrow> panel_db \<Rightarrow> panel_db \<Rightarrow> bool" where
  "redeems_reset lib raw d d' \<longleftrightarrow> (\<exists>hashed now password u. reset_password_by_email lib hashed now raw password d = Inr (u, d'))"

definition redeems_email :: "auth_lib \<Rightarrow> string \<Rightarrow> panel_db \<Rightarrow> panel_db \<Rightarrow> bool" where
  "redeems_email lib raw d d' \<longleftrightarrow> (\<exists>now r. verify_email lib now raw d = Inr (r, d'))"

lemma register_spends:
  assumes ok: "accounts_ok (accounts d)" and r: "redeems_invitation lib tok d d'"
  shows "invitation_spent (lib_digest lib tok) (accounts d')"
proof -
  obtain hashed fresh now username password u where
    "register_with_invitation lib hashed fresh now tok username password d = Inr (u, d')"
    using r by (auto simp: redeems_invitation_def)
  then show ?thesis
  proof (rule register_effect)
    fix name d2 and i :: invitation_row
    let ?hit = "\<lambda>x. inv_id x = inv_id i \<and> usable_invitation now x"
    let ?is = "invitations (accounts d)"
    assume i: "i \<in> set ?is" "inv_token_hash i = lib_digest lib tok" "usable_invitation now i"
      and d2: "accounts d2 = accounts (insert_user name hashed (inv_role i) now d)"
      and d': "d' = on_accounts (\<lambda>a. a\<lparr>invitations := sql_update ?hit (\<lambda>x. x\<lparr>inv_used_at := Some now\<rparr>) (invitations a)\<rparr>) d2"
    have invs: "invitations (accounts d') = sql_update ?hit (\<lambda>x. x\<lparr>inv_used_at := Some now\<rparr>) ?is"
      by (simp add: d' d2 insert_user_def)
    have uniq: "x = i" if "x \<in> set ?is" "inv_token_hash x = lib_digest lib tok" for x
      using distinct_key_unique [of inv_token_hash ?is x i] ok i that by (simp add: accounts_ok_def invitations_ok_def)
    have "inv_token_hash ` set (invitations (accounts d')) = inv_token_hash ` set ?is"
      unfolding invs set_map [symmetric] by (subst map_sql_update_key) simp_all
    moreover have "\<forall>x \<in> set (invitations (accounts d')). inv_token_hash x = lib_digest lib tok \<longrightarrow> inv_used_at x \<noteq> None"
      unfolding invs
    proof (rule sql_update_all)
      fix r assume "r \<in> set ?is" "\<not> ?hit r"
      then show "inv_token_hash r = lib_digest lib tok \<longrightarrow> inv_used_at r \<noteq> None"
        using uniq [of r] i(3) by blast
    qed simp
    ultimately show ?thesis
      using i(1,2) by (force simp: invitation_spent_def)
  qed
qed

lemma reset_spends:
  assumes ok: "accounts_ok (accounts d)" and r: "redeems_reset lib raw d d'"
  shows "token_spent (lib_digest lib raw) (accounts d')"
proof -
  obtain hashed now password u where "reset_password_by_email lib hashed now raw password d = Inr (u, d')"
    using r by (auto simp: redeems_reset_def)
  then show ?thesis
  proof (rule reset_effect)
    fix t :: account_token_row
    let ?d1 = "update_users (\<lambda>x. usr_id x = usr_id u) (\<lambda>x. x\<lparr>usr_password_hash := hashed, usr_updated_at := now\<rparr>) d"
    let ?d2 = "use_tokens now (\<lambda>x. tok_id x = tok_id t) ?d1"
    let ?d3 = "delete_sessions (usr_id u) (invalidate_reset_tokens now (usr_id u) ?d2)"
    assume t: "t \<in> set (account_tokens (accounts d))" "tok_hash t = lib_digest lib raw"
      and d': "d' = on_accounts (\<lambda>a. a\<lparr>password_requests := sql_delete (pending_of (usr_id u)) (password_requests a)\<rparr>) ?d3"
    have "accounts_ok (accounts ?d1)"
      by (rule changes_ok [OF changes_set_hash ok]) simp
    then have spent: "token_spent (tok_hash t) (accounts ?d2)"
      by (rule use_tokens_spends) (simp_all add: update_users_def t(1))
    have "changes (accounts ?d2) ?d3"
      unfolding invalidate_reset_tokens_def by (intro changes_delete_sessions changes_use_tokens rtranclp.rtrancl_refl)
    then have "changes (accounts ?d2) d'"
      by (rule changes_by) (simp add: d' drop_requests)
    then show ?thesis
      using token_stays [OF _ spent] unfolding t(2) by blast
  qed
qed

lemma verify_spends:
  assumes ok: "accounts_ok (accounts d)" and r: "redeems_email lib raw d d'"
  shows "token_spent (lib_digest lib raw) (accounts d')"
proof -
  obtain now q where v: "verify_email lib now raw d = Inr (q, d')"
    using r by (auto simp: redeems_email_def)
  have ok': "accounts_ok (accounts d')"
    by (rule step_ok [OF step_verify [OF v] ok])
  from v show ?thesis
  proof (rule verify_effect)
    fix d2 and t :: account_token_row and u :: user_row
    let ?d1 = "update_users (\<lambda>x. usr_id x = usr_id u) (\<lambda>x. x\<lparr>usr_email := Some (tok_target t), usr_verified_at := Some now, usr_updated_at := now\<rparr>) d"
    let ?hit = "\<lambda>x. tok_id x = tok_id t \<and> tok_user_id x = usr_id u"
    assume t: "t \<in> set (account_tokens (accounts d))" "usr_id u = tok_user_id t" "tok_hash t = lib_digest lib raw"
      and free: "\<not> email_taken (tok_target t) (usr_id u) d"
      and d2: "d2 = use_tokens now (email_token (usr_id u)) (use_tokens now ?hit ?d1)"
      and d': "d' = (if usr_email u \<noteq> None \<and> usr_email u \<noteq> Some (tok_target t) then invalidate_reset_tokens now (usr_id u) d2 else d2)"
    have "account_change (accounts d) (accounts ?d1)"
      using free by (auto simp: update_users_def email_taken_def user_by_def sql_first_None_iff intro!: set_email)
    then have "accounts_ok (accounts ?d1)"
      using ok account_change_ok by blast
    then have spent: "token_spent (tok_hash t) (accounts (use_tokens now ?hit ?d1))"
      by (rule use_tokens_spends) (simp_all add: update_users_def t(1,2))
    have "changes (accounts (use_tokens now ?hit ?d1)) d2"
      unfolding d2 by (intro changes_use_tokens rtranclp.rtrancl_refl)
    then have "changes (accounts (use_tokens now ?hit ?d1)) d'"
      unfolding d' invalidate_reset_tokens_def by (simp add: changes_use_tokens)
    then show ?thesis
      using token_stays [OF _ spent] unfolding t(3) by blast
  qed
qed

lemma spent_invitation_refused: "invitation_spent (lib_digest lib tok) (accounts d) \<Longrightarrow> \<not> redeems_invitation lib tok d d'"
  unfolding redeems_invitation_def invitation_spent_def
  by (auto elim!: register_effect simp: usable_invitation_def)

lemma spent_reset_refused: "token_spent (lib_digest lib raw) (accounts d) \<Longrightarrow> \<not> redeems_reset lib raw d d'"
  unfolding redeems_reset_def token_spent_def by (auto elim!: reset_effect)

lemma spent_email_refused: "token_spent (lib_digest lib raw) (accounts d) \<Longrightarrow> \<not> redeems_email lib raw d d'"
  unfolding redeems_email_def token_spent_def by (auto elim!: verify_effect)

interpretation invitation: one_time "\<lambda>d. accounts_ok (accounts d)" "account_step lib" "redeems_invitation lib tok"
    "\<lambda>d. invitation_spent (lib_digest lib tok) (accounts d)" for lib tok
  by unfold_locales (auto intro: step_ok register_spends invitation_stays [OF step_changes] simp: spent_invitation_refused)

interpretation reset: one_time "\<lambda>d. accounts_ok (accounts d)" "account_step lib" "redeems_reset lib raw"
    "\<lambda>d. token_spent (lib_digest lib raw) (accounts d)" for lib raw
  by unfold_locales (auto intro: step_ok reset_spends token_stays [OF step_changes] simp: spent_reset_refused)

interpretation email: one_time "\<lambda>d. accounts_ok (accounts d)" "account_step lib" "redeems_email lib raw"
    "\<lambda>d. token_spent (lib_digest lib raw) (accounts d)" for lib raw
  by unfold_locales (auto intro: step_ok verify_spends token_stays [OF step_changes] simp: spent_email_refused)

text \<open>
  C15. Invitations, password reset tokens and email verification tokens work at most once: after
  a successful registration, reset or verification with a token, every later attempt with the
  same token is refused, whatever operations run in between, at any later or earlier clock
  reading and with any name or password. The hash of the token need not be injective.
\<close>

theorem tokens_work_once:
  assumes "accounts_ok (accounts d)" "(account_step lib)\<^sup>*\<^sup>* d1 d2"
  shows "(redeems_invitation lib tok d d1 \<longrightarrow> \<not> redeems_invitation lib tok d2 d3) \<and>
    (redeems_reset lib tok d d1 \<longrightarrow> \<not> redeems_reset lib tok d2 d3) \<and>
    (redeems_email lib tok d d1 \<longrightarrow> \<not> redeems_email lib tok d2 d3)"
  using invitation.at_most_once [OF assms(1) _ assms(2)] reset.at_most_once [OF assms(1) _ assms(2)]
    email.at_most_once [OF assms(1) _ assms(2)] by blast


section \<open>A replaced password\<close>

text \<open>The three operations that replace a user's password.\<close>

definition replaces_password :: "auth_lib \<Rightarrow> id64 \<Rightarrow> panel_db \<Rightarrow> panel_db \<Rightarrow> bool" where
  "replaces_password lib uid d d' \<longleftrightarrow>
     (\<exists>hashed now current password. change_password lib hashed now uid current password d = Inr d') \<or>
     (\<exists>now admin. \<exists>r \<in> set (password_requests (accounts d)). pwr_user_id r = uid \<and>
        review_password_change_request now (pwr_id r) admin True d = Inr d') \<or>
     (\<exists>hashed now raw password u. usr_id u = uid \<and> reset_password_by_email lib hashed now raw password d = Inr (u, d'))"

lemma unique_head:
  assumes "\<And>u. u \<in> set xs \<longleftrightarrow> P u" "\<And>u w. P u \<Longrightarrow> P w \<Longrightarrow> u = w"
  shows "(case xs of [] \<Rightarrow> Inl e | u # _ \<Rightarrow> Inr u) = Inr v \<longleftrightarrow> P v"
proof (cases xs)
  case Nil
  then show ?thesis using assms(1) [of v] by simp
next
  case (Cons x ys)
  then have "P x" using assms(1) [of x] by simp
  then show ?thesis using Cons assms(2) [of x v] by auto
qed

lemma authenticate_iff:
  assumes "accounts_ok (accounts d)"
  shows "authenticate lib t tok d = Inr v \<longleftrightarrow> tok \<noteq> [] \<and> v \<in> set (users (accounts d)) \<and>
    (\<exists>s \<in> set (sessions (accounts d)). ses_user_id s = usr_id v \<and> ses_token_hash s = lib_digest lib tok \<and> t < ses_expires_at s)"
proof -
  let ?hits = "[u. s \<leftarrow> sessions (accounts d), u \<leftarrow> users (accounts d),
          usr_id u = ses_user_id s \<and> ses_token_hash s = lib_digest lib tok \<and> ses_expires_at s > t]"
  let ?hit = "\<lambda>v. v \<in> set (users (accounts d)) \<and>
    (\<exists>s \<in> set (sessions (accounts d)). ses_user_id s = usr_id v \<and> ses_token_hash s = lib_digest lib tok \<and> t < ses_expires_at s)"
  have keys: "distinct (map ses_token_hash (sessions (accounts d)))" "distinct (map usr_id (users (accounts d)))"
    using assms by (simp_all add: accounts_ok_def sessions_ok_def users_ok_def)
  have hits: "u \<in> set ?hits \<longleftrightarrow> ?hit u" for u
    by auto metis
  have "u = v" if "?hit u" "?hit v" for u v
  proof -
    obtain s s' where s: "s \<in> set (sessions (accounts d))" "s' \<in> set (sessions (accounts d))" "ses_token_hash s = ses_token_hash s'"
      "ses_user_id s = usr_id u" "ses_user_id s' = usr_id v"
      using \<open>?hit u\<close> \<open>?hit v\<close> by metis
    have "s = s'"
      by (rule distinct_key_unique [OF keys(1) s(1,2,3)])
    then have "usr_id u = usr_id v"
      using s(4,5) by simp
    then show ?thesis
      using distinct_key_unique [OF keys(2)] that by blast
  qed
  note head = unique_head [where P = ?hit, OF hits this]
  show ?thesis
    by (cases "tok = []") (simp_all only: authenticate_def head if_True if_False simp_thms sum.distinct)
qed

lemma replaces_password_effect:
  assumes "replaces_password lib uid d d'" "accounts_ok (accounts d)"
  shows "\<exists>f. (\<forall>u. usr_id (f u) = usr_id u) \<and> users (accounts d') = sql_update (\<lambda>u. usr_id u = uid) f (users (accounts d)) \<and>
    sessions (accounts d') = sql_delete (\<lambda>s. ses_user_id s = uid) (sessions (accounts d)) \<and>
    (\<forall>t \<in> set (account_tokens (accounts d')). reset_token uid t \<longrightarrow> tok_used_at t \<noteq> None) \<and> (\<exists>lib. account_step lib d d')"
proof -
  have used: "\<forall>t \<in> set (sql_update (\<lambda>t. reset_token uid t \<and> tok_used_at t = None) (\<lambda>t. t\<lparr>tok_used_at := Some now\<rparr>) ts).
      reset_token uid t \<longrightarrow> tok_used_at t \<noteq> None" for now ts
    by (rule sql_update_all) auto
  let ?f = "\<lambda>hashed now u. u\<lparr>usr_password_hash := hashed, usr_updated_at := now\<rparr>"
  from assms(1) consider
      (change) hashed now current password where "change_password lib hashed now uid current password d = Inr d'"
    | (review) now admin and r :: password_request_row where "r \<in> set (password_requests (accounts d))" "pwr_user_id r = uid" "review_password_change_request now (pwr_id r) admin True d = Inr d'"
    | (reset) hashed now raw password and u :: user_row where "usr_id u = uid" "reset_password_by_email lib hashed now raw password d = Inr (u, d')"
    unfolding replaces_password_def by blast
  then show ?thesis
  proof cases
    case change
    show ?thesis
      by (rule exI [of _ "?f hashed now"])
        (use step_change [OF change] in \<open>auto simp: change_password_effect [OF change] invalidate_reset_tokens_def delete_sessions_def
          update_users_def use_tokens_def used [rule_format]\<close>)
  next
    case reset
    from reset(2) show ?thesis
    proof (rule reset_effect)
      fix t :: account_token_row
      assume d': "d' = on_accounts (\<lambda>a. a\<lparr>password_requests := sql_delete (pending_of (usr_id u)) (password_requests a)\<rparr>)
        (delete_sessions (usr_id u) (invalidate_reset_tokens now (usr_id u) (use_tokens now (\<lambda>x. tok_id x = tok_id t)
          (update_users (\<lambda>x. usr_id x = usr_id u) (?f hashed now) d))))"
      show ?thesis
        by (rule exI [of _ "?f hashed now"])
          (use step_reset [OF reset(2)] in \<open>auto simp: d' reset(1) invalidate_reset_tokens_def delete_sessions_def
            update_users_def use_tokens_def used [rule_format]\<close>)
    qed
  next
    case review
    from review_effect [OF review(3)] obtain q proposed where q: "q \<in> set (password_requests (accounts d))" "pwr_id q = pwr_id r"
      and d': "d' = close_request now (pwr_id r) admin ''approved''
        (invalidate_reset_tokens now (pwr_user_id q) (delete_sessions (pwr_user_id q) (update_users (\<lambda>u. usr_id u = pwr_user_id q)
          (?f proposed now) d)))"
      by (auto simp only: if_True)
    have "q = r"
      using distinct_key_unique [of pwr_id "password_requests (accounts d)" q r] q review(1) assms(2)
      by (simp add: accounts_ok_def requests_ok_def)
    then show ?thesis
      by (intro exI [of _ "?f proposed now"])
        (use step_review [OF review(3)] review(2) in \<open>auto simp: d' close_request_def invalidate_reset_tokens_def delete_sessions_def
          update_users_def use_tokens_def used [rule_format]\<close>)
  qed
qed

text \<open>
  C16. Replacing a password, by the user, by an approved request or by an emailed link, ends
  every session of the user and nobody else's: afterwards a session token authenticates exactly
  when it did before and belongs to another user. And no reset link sent before the change resets
  that user's password any more.
\<close>

theorem replaced_password_revokes:
  assumes "accounts_ok (accounts d)" "replaces_password lib uid d d'"
  shows "((\<exists>v. authenticate lib' t tok d' = Inr v \<and> usr_id v = k) \<longleftrightarrow>
      (\<exists>v. authenticate lib' t tok d = Inr v \<and> usr_id v = k) \<and> k \<noteq> uid) \<and>
    (reset_password_by_email lib' hashed t raw password d' = Inr (w, d'') \<longrightarrow> usr_id w \<noteq> uid)"
proof (intro conjI impI)
  obtain f lib'' where f: "\<And>u. usr_id (f u) = usr_id u" "users (accounts d') = sql_update (\<lambda>u. usr_id u = uid) f (users (accounts d))"
      "sessions (accounts d') = sql_delete (\<lambda>s. ses_user_id s = uid) (sessions (accounts d))"
      "\<forall>t \<in> set (account_tokens (accounts d')). reset_token uid t \<longrightarrow> tok_used_at t \<noteq> None" "account_step lib'' d d'"
    using replaces_password_effect [OF assms(2,1)] by blast
  have ok': "accounts_ok (accounts d')"
    by (rule step_ok [OF f(5) assms(1)])
  have ids: "usr_id ` set (users (accounts d')) = usr_id ` set (users (accounts d))"
    unfolding f(2) by (rule user_ids_update) (rule f(1))
  have auth: "(\<exists>v. authenticate lib' t tok d = Inr v \<and> usr_id v = k) \<longleftrightarrow> tok \<noteq> [] \<and> k \<in> usr_id ` set (users (accounts d)) \<and>
      (\<exists>s \<in> set (sessions (accounts d)). ses_user_id s = k \<and> ses_token_hash s = lib_digest lib' tok \<and> t < ses_expires_at s)"
    if "accounts_ok (accounts d)" for d
    unfolding authenticate_iff [OF that] by blast
  show "(\<exists>v. authenticate lib' t tok d' = Inr v \<and> usr_id v = k) \<longleftrightarrow>
      (\<exists>v. authenticate lib' t tok d = Inr v \<and> usr_id v = k) \<and> k \<noteq> uid"
    unfolding auth [OF ok'] auth [OF assms(1)] ids f(3) sql_delete_def set_filter by auto
  assume "reset_password_by_email lib' hashed t raw password d' = Inr (w, d'')"
  then show "usr_id w \<noteq> uid"
  proof (rule reset_effect)
    fix x :: account_token_row
    assume "x \<in> set (account_tokens (accounts d'))" "reset_token (usr_id w) x" "tok_used_at x = None"
    then show ?thesis using f(4) by blast
  qed
qed

section \<open>Witnesses\<close>

text \<open>Root invites Alice, who registers; root has a session and changes the password.\<close>

definition invited_db :: panel_db where
  "invited_db = (case create_invitation plain_lib ''inv'' 10 1 [] root_db of Inl _ \<Rightarrow> root_db | Inr (_, d) \<Rightarrow> d)"

definition session_db :: panel_db where
  "session_db = (case create_session plain_lib ''ses'' 10 1 root_db of Inl _ \<Rightarrow> root_db | Inr (_, d) \<Rightarrow> d)"

lemma root_db_ok: "accounts_ok (accounts root_db)"
  by (rule step_ok [OF step_initialize [OF root_initialized] empty_accounts_ok])

lemma invited_step: "account_step plain_lib root_db invited_db"
proof -
  have "case create_invitation plain_lib ''inv'' 10 1 [] root_db of Inl _ \<Rightarrow> False | Inr _ \<Rightarrow> True"
    by code_simp
  then obtain i d where "create_invitation plain_lib ''inv'' 10 1 [] root_db = Inr (i, d)"
    by (auto split: sum.splits)
  then show ?thesis
    using step_invite by (simp add: invited_db_def)
qed

lemma session_step: "account_step plain_lib root_db session_db"
proof -
  have "case create_session plain_lib ''ses'' 10 1 root_db of Inl _ \<Rightarrow> False | Inr _ \<Rightarrow> True"
    by code_simp
  then obtain e d where "create_session plain_lib ''ses'' 10 1 root_db = Inr (e, d)"
    by (auto split: sum.splits)
  then show ?thesis
    using step_session by (simp add: session_db_def)
qed

lemma alice_registers: "\<exists>d. redeems_invitation plain_lib ''inv'' invited_db d"
proof -
  have "case register_with_invitation plain_lib ''#alice1'' ''t'' 20 ''inv'' ''alice'' ''alice1'' invited_db of Inl _ \<Rightarrow> False | Inr _ \<Rightarrow> True"
    by code_simp
  then obtain u d where "register_with_invitation plain_lib ''#alice1'' ''t'' 20 ''inv'' ''alice'' ''alice1'' invited_db = Inr (u, d)"
    by (auto split: sum.splits)
  then show ?thesis
    unfolding redeems_invitation_def by blast
qed


theorem tokens_work_once_witness:
  "\<exists>d. redeems_invitation plain_lib ''inv'' invited_db d \<and> \<not> redeems_invitation plain_lib ''inv'' d d"
proof -
  obtain d where d: "redeems_invitation plain_lib ''inv'' invited_db d"
    using alice_registers by blast
  have "accounts_ok (accounts invited_db)"
    by (rule step_ok [OF invited_step root_db_ok])
  then show ?thesis
    using tokens_work_once [of invited_db plain_lib d d "''inv''" d] d by blast
qed

theorem replaced_password_revokes_witness:
  "\<exists>d'. change_password plain_lib ''#other6'' 20 1 ''secret'' ''other6'' session_db = Inr d' \<and>
    (\<exists>v. authenticate plain_lib 30 ''ses'' session_db = Inr v \<and> usr_id v = 1) \<and>
    \<not> (\<exists>v. authenticate plain_lib 30 ''ses'' d' = Inr v \<and> usr_id v = 1)"
proof -
  have "case change_password plain_lib ''#other6'' 20 1 ''secret'' ''other6'' session_db of Inl _ \<Rightarrow> False | Inr _ \<Rightarrow> True"
    by code_simp
  then obtain d' where d': "change_password plain_lib ''#other6'' 20 1 ''secret'' ''other6'' session_db = Inr d'"
    by (auto split: sum.splits)
  have "case authenticate plain_lib 30 ''ses'' session_db of Inl _ \<Rightarrow> False | Inr v \<Rightarrow> usr_id v = 1"
    by code_simp
  then have before: "\<exists>v. authenticate plain_lib 30 ''ses'' session_db = Inr v \<and> usr_id v = 1"
    by (rule run_returns)
  have "accounts_ok (accounts session_db)"
    by (rule step_ok [OF session_step root_db_ok])
  moreover have "replaces_password plain_lib 1 session_db d'"
    unfolding replaces_password_def using d' by blast
  ultimately show ?thesis
    using replaced_password_revokes [of session_db plain_lib 1 d' plain_lib 30 "''ses''" 1] d' before by blast
qed

end
