(* ===== verification/Notification.thy ===== *)
theory Notification
  imports ServerTraffic GoStrings
begin

text \<open>
  Notifications (\<open>panel/internal/notification\<close>): the watchers that sweep the servers for
  outages and traffic thresholds, the bounded queue and the delivery to Telegram.

  Instants are nanoseconds, stored times Unix seconds. What the outside decides is an argument:
  which Agents are connected at each look (\<open>IsConnected\<close> is called twice in a sweep), and
  the outcome of every HTTP attempt. The mutex makes a sweep and the end of a delivery atomic;
  the attempts of a delivery run between them, on the database of their moment.
\<close>

section \<open>Settings (\<open>model.go\<close>)\<close>

text \<open>The step of the traffic thresholds; \<open>valid\<close> and the table's \<open>CHECK\<close> allow these.\<close>

datatype step_percent = Step5 | Step10 | Step20

fun step_value :: "step_percent \<Rightarrow> int" where
  "step_value Step5 = 5"
| "step_value Step10 = 10"
| "step_value Step20 = 20"

definition step_of :: "int \<Rightarrow> step_percent option" where
  "step_of n = (if n = 5 then Some Step5 else if n = 10 then Some Step10 else if n = 20 then Some Step20 else None)"

record notify_settings =
  bot_token :: string
  chat_id :: string
  online_enabled :: bool
  offline_grace :: int
  recovery_enabled :: bool
  traffic_enabled :: bool
  threshold_percent :: int
  traffic_step_percent :: step_percent
  full_enabled :: bool

record notify_update =
  nup_token :: string
  nup_clear :: bool
  nup_chat :: string
  nup_online :: bool
  nup_grace :: int
  nup_recovery :: bool
  nup_traffic :: bool
  nup_threshold :: int
  nup_step :: int
  nup_full :: bool

datatype notify_error = ErrInvalidSettings | ErrTestBusy | ErrQueueFull | ErrTestNotFound

definition token_char :: "char \<Rightarrow> bool" where
  "token_char c \<longleftrightarrow> (let n = (of_char c :: nat) in
     65 \<le> n \<and> n \<le> 90 \<or> 97 \<le> n \<and> n \<le> 122 \<or> 48 \<le> n \<and> n \<le> 57 \<or> c = CHR ''_'' \<or> c = CHR ''-'')"

definition valid_token :: "string \<Rightarrow> bool" where
  "valid_token v \<longleftrightarrow> length v \<le> 256 \<and>
     (let head = takeWhile is_digit v; tail = dropWhile is_digit v
      in head \<noteq> [] \<and> tail \<noteq> [] \<and> tail ! 0 = CHR '':'' \<and> tl tail \<noteq> [] \<and> list_all token_char (tl tail))"

definition valid_chat :: "string \<Rightarrow> bool" where
  "valid_chat v \<longleftrightarrow> length v \<le> 32 \<and>
     (let digits = (case v of [] \<Rightarrow> [] | c # cs \<Rightarrow> if c = CHR ''-'' then cs else v) in digits \<noteq> [] \<and> list_all is_digit digits)"

definition configured :: "notify_settings \<Rightarrow> bool" where
  "configured st \<longleftrightarrow> bot_token st \<noteq> [] \<and> chat_id st \<noteq> []"

definition update_valid :: "notify_update \<Rightarrow> bool" where
  "update_valid u \<longleftrightarrow> (nup_token u = [] \<or> valid_token (nup_token u)) \<and> (nup_chat u = [] \<or> valid_chat (nup_chat u)) \<and>
     \<not> (nup_clear u \<and> nup_token u \<noteq> []) \<and> nup_grace u \<ge> 1 \<and> nup_grace u \<le> 60 \<and>
     nup_threshold u \<ge> 50 \<and> nup_threshold u \<le> 100 \<and> (nup_step u = 5 \<or> nup_step u = 10 \<or> nup_step u = 20)"

definition save_settings :: "notify_update \<Rightarrow> notify_settings \<Rightarrow> notify_error + notify_settings" where
  "save_settings u st =
     (if \<not> update_valid u then Inl ErrInvalidSettings
      else case step_of (nup_step u) of
        None \<Rightarrow> Inl ErrInvalidSettings
      | Some inc \<Rightarrow> Inr \<lparr>bot_token = (if nup_clear u then [] else if nup_token u \<noteq> [] then nup_token u else bot_token st),
          chat_id = nup_chat u, online_enabled = nup_online u, offline_grace = nup_grace u, recovery_enabled = nup_recovery u,
          traffic_enabled = nup_traffic u, threshold_percent = nup_threshold u, traffic_step_percent = inc,
          full_enabled = nup_full u\<rparr>)"

section \<open>The servers a sweep sees\<close>

text \<open>The columns of \<open>server.Server\<close> the watcher reads, joined as \<open>Service.List\<close> does.\<close>

record server_view =
  sv_row :: server_row
  sv_last_seen :: "unix_time option"
  sv_metrics :: "metrics_row option"

definition server_view_of :: "panel_db \<Rightarrow> server_row \<Rightarrow> server_view" where
  "server_view_of d s = \<lparr>sv_row = s,
     sv_last_seen = (case sql_first (\<lambda>a. agt_server_id a = srv_id s) (agents d) of None \<Rightarrow> None | Some a \<Rightarrow> agt_last_seen_at a),
     sv_metrics = sql_first (\<lambda>m. met_server_id m = srv_id s) (server_metrics d)\<rparr>"

abbreviation sv_id :: "server_view \<Rightarrow> id64" where
  "sv_id v \<equiv> srv_id (sv_row v)"

definition list_servers :: "panel_db \<Rightarrow> server_view list" where
  "list_servers d = map (server_view_of d) (sort_key (\<lambda>s. - srv_created_at s) (sort_key (\<lambda>s. - srv_id s)
     (filter (\<lambda>s. srv_archived_at s = None) (servers d))))"

definition find_server :: "id64 \<Rightarrow> panel_db \<Rightarrow> server_view option" where
  "find_server k d = map_option (server_view_of d) (sql_first (live_server k) (servers d))"

definition sv_limit :: "server_view \<Rightarrow> int option" where
  "sv_limit v = (case srv_limit (sv_row v) of Some l \<Rightarrow> if l > 0 then Some l else None | None \<Rightarrow> None)"

definition sv_used :: "server_view \<Rightarrow> int" where
  "sv_used v = traffic_used_bytes (srv_count_mode (sv_row v)) (sv_metrics v)"

definition sv_cycle :: "server_view \<Rightarrow> unix_time option" where
  "sv_cycle v = (case sv_metrics v of None \<Rightarrow> None | Some m \<Rightarrow> met_cycle_started m)"

definition eligible :: "server_view \<Rightarrow> bool" where
  "eligible v \<longleftrightarrow> srv_status (sv_row v) \<noteq> ''pending'' \<and> sv_last_seen v \<noteq> None \<and> srv_archived_at (sv_row v) = None \<and>
     srv_decom_at (sv_row v) = None \<and> srv_decom_status (sv_row v) = []"

section \<open>The service (\<open>service.go\<close>)\<close>

datatype event_kind = Offline | Recovery | Traffic | Test

record entry =
  ent_server :: id64
  ent_started :: unix_time
  ent_step :: int

record notify_event =
  evt_kind :: event_kind
  evt_entries :: "entry list"
  evt_test :: string

record notify_service =
  nt_db :: panel_db
  nt_settings :: notify_settings
  nt_queue :: "notify_event list"
  nt_sending :: "notify_event option"
  nt_absent :: "id64 \<rightharpoonup> int"
  nt_pending :: "id64 \<rightharpoonup> unix_time"
  nt_test_id :: string
  nt_test_status :: string

definition nanos :: int where
  "nanos = 1000000000"

definition queue_capacity :: nat where
  "queue_capacity = 64"

definition enqueue :: "notify_event \<Rightarrow> notify_service \<Rightarrow> notify_service" where
  "enqueue item s =
     (if evt_entries item = [] then s
      else if length (nt_queue s) < queue_capacity then
        s\<lparr>nt_queue := nt_queue s @ [item],
          nt_pending := (if evt_kind item = Offline
            then fold (\<lambda>e m. m(ent_server e \<mapsto> ent_started e)) (evt_entries item) (nt_pending s) else nt_pending s)\<rparr>
      else s)"

abbreviation state_of :: "id64 \<Rightarrow> notification_state_row \<Rightarrow> bool" where
  "state_of k r \<equiv> ns_server_id r = k"

text \<open>The row of a server, or the zero value without one.\<close>

definition notify_state :: "id64 \<Rightarrow> panel_db \<Rightarrow> notification_state_row" where
  "notify_state k d = (case sql_first (state_of k) (notification_states d) of
     None \<Rightarrow> \<lparr>ns_server_id = k, ns_offline_started = None, ns_offline_notified = None, ns_cycle = None, ns_step = 0\<rparr>
   | Some r \<Rightarrow> r)"

definition clear_outage :: "id64 \<Rightarrow> panel_db \<Rightarrow> panel_db" where
  "clear_outage k d = d\<lparr>notification_states := sql_update (state_of k)
     (\<lambda>r. r\<lparr>ns_offline_started := None, ns_offline_notified := None\<rparr>) (notification_states d)\<rparr>"

definition start_outage :: "id64 \<Rightarrow> unix_time \<Rightarrow> panel_db \<Rightarrow> panel_db" where
  "start_outage k t d = d\<lparr>notification_states := sql_upsert (state_of k)
     \<lparr>ns_server_id = k, ns_offline_started = Some t, ns_offline_notified = None, ns_cycle = None, ns_step = 0\<rparr>
     (\<lambda>r. r\<lparr>ns_offline_started := Some t, ns_offline_notified := None\<rparr>) (notification_states d)\<rparr>"

definition set_traffic_state :: "id64 \<Rightarrow> unix_time \<Rightarrow> int \<Rightarrow> panel_db \<Rightarrow> panel_db" where
  "set_traffic_state k cycle highest d = d\<lparr>notification_states := sql_upsert (state_of k)
     \<lparr>ns_server_id = k, ns_offline_started = None, ns_offline_notified = None, ns_cycle = Some cycle, ns_step = highest\<rparr>
     (\<lambda>r. r\<lparr>ns_cycle := Some cycle, ns_step := highest\<rparr>) (notification_states d)\<rparr>"

section \<open>The outage sweep (\<open>watcher.go\<close>)\<close>

text \<open>One server of the loop; the accumulators are the two batches.\<close>

definition online_row ::
  "(id64 \<Rightarrow> bool) \<Rightarrow> (id64 \<Rightarrow> bool) \<Rightarrow> int \<Rightarrow> server_view \<Rightarrow> notify_service \<times> entry list \<times> entry list \<Rightarrow>
    notify_service \<times> entry list \<times> entry list" where
  "online_row conn conn' now v acc =
     (let (s, offline, recovery) = acc; k = sv_id v; st = nt_settings s;
          forget = s\<lparr>nt_absent := (nt_absent s)(k := None)\<rparr>
      in if \<not> eligible v then (forget\<lparr>nt_db := clear_outage k (nt_db s)\<rparr>, offline, recovery)
         else let previous = notify_state k (nt_db s) in
           if conn k then
             if nt_pending s k \<noteq> None then (forget, offline, recovery)
             else (case ns_offline_started previous of
                 None \<Rightarrow> (forget, offline, recovery)
               | Some t \<Rightarrow> (forget\<lparr>nt_db := clear_outage k (nt_db s)\<rparr>, offline,
                   if ns_offline_notified previous \<noteq> None \<and> configured st \<and> online_enabled st \<and> recovery_enabled st
                   then recovery @ [\<lparr>ent_server = k, ent_started = t, ent_step = 0\<rparr>] else recovery))
           else if \<not> configured st \<or> \<not> online_enabled st then (forget, offline, recovery)
           else if ns_offline_started previous \<noteq> None then (s, offline, recovery)
           else case nt_absent s k of
               None \<Rightarrow> (s\<lparr>nt_absent := (nt_absent s)(k \<mapsto> now)\<rparr>, offline, recovery)
             | Some since \<Rightarrow>
                 if now - since < offline_grace st * 60 * nanos \<or> conn' k then (s, offline, recovery)
                 else (forget\<lparr>nt_db := start_outage k (since div nanos) (nt_db s)\<rparr>,
                   offline @ [\<lparr>ent_server = k, ent_started = since div nanos, ent_step = 0\<rparr>], recovery))"

definition sweep_online :: "(id64 \<Rightarrow> bool) \<Rightarrow> (id64 \<Rightarrow> bool) \<Rightarrow> int \<Rightarrow> notify_service \<Rightarrow>
    notify_service \<times> entry list \<times> entry list" where
  "sweep_online conn conn' now s =
     (let vs = list_servers (nt_db s);
          (s1, offline, recovery) = fold (online_row conn conn' now) vs (s, [], []);
          s2 = s1\<lparr>nt_absent := nt_absent s1 |` set (map sv_id vs)\<rparr>
      in (enqueue \<lparr>evt_kind = Recovery, evt_entries = recovery, evt_test = []\<rparr>
            (enqueue \<lparr>evt_kind = Offline, evt_entries = offline, evt_test = []\<rparr> s2), offline, recovery))"

section \<open>The traffic sweep\<close>

function traffic_scan :: "int \<Rightarrow> int \<Rightarrow> step_percent \<Rightarrow> int \<Rightarrow> int \<Rightarrow> int" where
  "traffic_scan used limit inc percent step =
     (if percent \<ge> 100 then step
      else let minimum = add64 (mul64 (quot64 limit 100) percent) (quot64 (add64 (mul64 (rem64 limit 100) percent) 99) 100)
           in if used < minimum then step else traffic_scan used limit inc (percent + step_value inc) percent)"
  by pat_completeness auto
termination
proof (relation "measure (\<lambda>(_, _, _, percent, _). nat (100 - percent))")
  fix used limit percent step :: int and inc :: step_percent
  assume "\<not> 100 \<le> percent"
  then show "((used, limit, inc, percent + step_value inc, percent), used, limit, inc, percent, step) \<in>
      measure (\<lambda>(_, _, _, percent, _). nat (100 - percent))"
    by (cases inc) simp_all
qed simp

declare traffic_scan.simps [simp del]

definition traffic_step :: "notify_settings \<Rightarrow> int \<Rightarrow> int \<Rightarrow> int" where
  "traffic_step st used limit =
     (if limit \<le> 0 then 0
      else if used \<ge> limit \<and> full_enabled st then 100
      else traffic_scan used limit (traffic_step_percent st) (threshold_percent st) 0)"

definition traffic_row :: "server_view \<Rightarrow> notify_service \<times> entry list \<Rightarrow> notify_service \<times> entry list" where
  "traffic_row v acc =
     (let (s, batch) = acc; k = sv_id v in
      case (sv_limit v, sv_cycle v) of
        (Some limit, Some cycle) \<Rightarrow>
          if \<not> eligible v then (s, batch)
          else
            let previous = notify_state k (nt_db s);
                step = traffic_step (nt_settings s) (sv_used v) limit;
                last1 = (if ns_cycle previous \<noteq> Some cycle then 0 else ns_step previous);
                last2 = (if step = 0 then 0 else last1);
                notify = step > last2;
                last3 = (if notify then step else last2);
                s1 = (if ns_cycle previous \<noteq> Some cycle \<or> last3 \<noteq> ns_step previous
                      then s\<lparr>nt_db := set_traffic_state k cycle last3 (nt_db s)\<rparr> else s)
            in (s1, if notify then batch @ [\<lparr>ent_server = k, ent_started = cycle, ent_step = step\<rparr>] else batch)
      | _ \<Rightarrow> (s, batch))"

definition sweep_traffic :: "notify_service \<Rightarrow> notify_service \<times> entry list" where
  "sweep_traffic s =
     (if \<not> configured (nt_settings s) \<or> \<not> traffic_enabled (nt_settings s) then (s, [])
      else let (s1, batch) = fold traffic_row (list_servers (nt_db s)) (s, [])
           in (enqueue \<lparr>evt_kind = Traffic, evt_entries = batch, evt_test = []\<rparr> s1, batch))"

section \<open>Test messages and delivery\<close>

definition send_test :: "string \<Rightarrow> string \<Rightarrow> string \<Rightarrow> notify_service \<Rightarrow> notify_error + (string \<times> notify_service)" where
  "send_test fresh token chat s =
     (let tok = (if token = [] then bot_token (nt_settings s) else token) in
      if \<not> valid_token tok \<or> \<not> valid_chat chat then Inl ErrInvalidSettings
      else if nt_test_status s = ''pending'' then Inl ErrTestBusy
      else if length (nt_queue s) < queue_capacity then
        Inr (fresh, s\<lparr>nt_queue := nt_queue s @ [\<lparr>evt_kind = Test, evt_entries = [], evt_test = fresh\<rparr>],
          nt_test_id := fresh, nt_test_status := ''pending''\<rparr>)
      else Inl ErrQueueFull)"

definition test_result :: "string \<Rightarrow> notify_service \<Rightarrow> notify_error + string" where
  "test_result ident s = (if ident = [] \<or> nt_test_id s \<noteq> ident then Inl ErrTestNotFound else Inr (nt_test_status s))"

text \<open>
  What one attempt finds: the settings, the database, the connected Agents; and how its request
  ends (\<open>Retry\<close> for a failure that may be retried).
\<close>

datatype send_outcome = Delivered | Retry | Refused

record attempt =
  atm_settings :: notify_settings
  atm_db :: panel_db
  atm_connected :: "id64 \<Rightarrow> bool"
  atm_outcome :: send_outcome

definition current_entry :: "event_kind \<Rightarrow> attempt \<Rightarrow> entry \<Rightarrow> bool" where
  "current_entry kind a e =
     (case find_server (ent_server e) (atm_db a) of
        None \<Rightarrow> False
      | Some v \<Rightarrow>
          eligible v \<and>
          \<not> (kind = Offline \<and> atm_connected a (sv_id v) \<or> kind = Recovery \<and> \<not> atm_connected a (sv_id v)) \<and>
          (kind = Traffic \<longrightarrow> sv_cycle v = Some (ent_started e) \<and>
             (case sv_limit v of None \<Rightarrow> False | Some limit \<Rightarrow> traffic_step (atm_settings a) (sv_used v) limit \<ge> ent_step e)))"

definition current_entries :: "notify_event \<Rightarrow> attempt \<Rightarrow> entry list" where
  "current_entries item a = filter (current_entry (evt_kind item) a) (evt_entries item)"

definition kind_enabled :: "event_kind \<Rightarrow> notify_settings \<Rightarrow> bool" where
  "kind_enabled kind st \<longleftrightarrow> configured st \<and> (case kind of
     Offline \<Rightarrow> online_enabled st | Recovery \<Rightarrow> online_enabled st \<and> recovery_enabled st
   | Traffic \<Rightarrow> traffic_enabled st | Test \<Rightarrow> True)"

text \<open>
  The loop of three attempts from attempt \<open>i\<close>: whether an error is left, and the entries sent.
  The error of an attempt survives a later one that stops before it sends.
\<close>

function deliver_attempts :: "notify_event \<Rightarrow> (nat \<Rightarrow> attempt) \<Rightarrow> bool \<Rightarrow> nat \<Rightarrow> bool \<times> entry list" where
  "deliver_attempts item env failed i =
     (if i \<ge> 3 then (failed, [])
      else
        let a = env i; sent = current_entries item a;
            send = (case atm_outcome a of
                Delivered \<Rightarrow> (False, sent)
              | Refused \<Rightarrow> (True, [])
              | Retry \<Rightarrow> if i = 2 then (True, []) else deliver_attempts item env True (i + 1))
        in if evt_kind item = Test then send
           else if \<not> kind_enabled (evt_kind item) (atm_settings a) then (failed, [])
           else if sent = [] then (False, [])
           else send)"
  by pat_completeness auto
termination
  by (relation "measure (\<lambda>(_, _, _, i). 3 - i)") auto

declare deliver_attempts.simps [simp del]

definition mark_notified :: "unix_time \<Rightarrow> entry \<Rightarrow> panel_db \<Rightarrow> panel_db" where
  "mark_notified now e d = d\<lparr>notification_states := sql_update
     (\<lambda>r. ns_server_id r = ent_server e \<and> ns_offline_started r = Some (ent_started e))
     (\<lambda>r. r\<lparr>ns_offline_notified := Some now\<rparr>) (notification_states d)\<rparr>"

text \<open>The worker takes the next event, and, at the end of its delivery, records it.\<close>

definition take_event :: "notify_service \<Rightarrow> notify_service" where
  "take_event s = (case (nt_sending s, nt_queue s) of
     (None, item # rest) \<Rightarrow> s\<lparr>nt_sending := Some item, nt_queue := rest\<rparr>
   | _ \<Rightarrow> s)"

definition finish_delivery :: "(nat \<Rightarrow> attempt) \<Rightarrow> unix_time \<Rightarrow> notify_service \<Rightarrow> notify_service \<times> entry list" where
  "finish_delivery env now s =
     (case nt_sending s of
        None \<Rightarrow> (s, [])
      | Some item \<Rightarrow>
          let (failed, sent) = deliver_attempts item env False 0;
              marked = (if evt_kind item = Offline \<and> \<not> failed then sent else []);
              s1 = s\<lparr>nt_sending := None, nt_db := fold (mark_notified now) marked (nt_db s),
                nt_pending := (if evt_kind item = Offline
                  then fold (\<lambda>e m. m(ent_server e := None)) (evt_entries item) (nt_pending s) else nt_pending s)\<rparr>
          in (if evt_kind item = Test \<and> nt_test_id s = evt_test item
              then s1\<lparr>nt_test_status := (if failed then ''error'' else ''success'')\<rparr> else s1, marked))"


end
