(* ===== verification/NotificationSafety.thy ===== *)
theory NotificationSafety
  imports Notification
begin

text \<open>
  What the notification service guarantees: the traffic step is exact, traffic sweeps refine the
  rule \<open>due\<close>, an outage is announced once, a recovery only after a confirmed notice.
\<close>

section \<open>The traffic step is exact\<close>

definition reached :: "notify_settings \<Rightarrow> int \<Rightarrow> int \<Rightarrow> int set" where
  "reached st used limit = {p. p < 100 \<and> (\<exists>n. p = threshold_percent st + int n * step_value (traffic_step_percent st)) \<and> limit * p \<le> 100 * used}"

lemma step_value_pos: "0 < step_value inc"
  by (cases inc) simp_all

lemma minimum_exact:
  assumes "0 \<le> percent" "percent < 100" "0 < limit" "limit \<le> max_int64"
  shows "add64 (mul64 (quot64 limit 100) percent) (quot64 (add64 (mul64 (rem64 limit 100) percent) 99) 100) = (limit * percent + 99) div 100"
proof -
  define q r where "q = limit div 100" and "r = limit mod 100"
  have limit: "limit = 100 * q + r" "0 \<le> r" "r < 100" "0 \<le> q"
    using assms(3) by (simp_all add: q_def r_def)
  have rp: "0 \<le> r * percent" "r * percent \<le> 99 * 99"
    using mult_mono [of r 99 percent 99] limit assms(1,2) by simp_all
  have qp: "0 \<le> q * percent" "q * percent \<le> q * 100"
    using limit(4) assms(1,2) by (simp_all add: mult_left_mono)
  have quot: "quot64 limit 100 = q" "rem64 limit 100 = r"
    using assms(3,4) by (simp_all add: quot64_pos rem64_pos q_def r_def)
  have small: "mul64 r percent = r * percent" "add64 (r * percent) 99 = r * percent + 99"
    using rp by (auto intro!: mul64_exact add64_exact simp: int64_bounds)
  have rest: "quot64 (r * percent + 99) 100 = (r * percent + 99) div 100"
    using rp by (intro quot64_pos) (simp_all add: max_int64_def)
  have main: "mul64 q percent = q * percent"
    using qp limit assms(4) by (intro mul64_exact) (simp add: int64_bounds)
  have total: "(limit * percent + 99) div 100 = q * percent + (r * percent + 99) div 100"
    using div_mult_self3 [of 100 "q * percent" "r * percent + 99"] by (simp add: limit(1) algebra_simps)
  have "r * percent + 99 \<le> 100 * r + 99"
    using mult_left_mono [of percent 100 r] limit(2) assms(2) by simp
  then have "(r * percent + 99) div 100 \<le> r"
    using zdiv_mono1 [of "r * percent + 99" "100 * r + 99" 100] by simp
  then have "q * percent + (r * percent + 99) div 100 \<le> limit"
    using limit(1) qp(2) by simp
  moreover have "0 \<le> (r * percent + 99) div 100"
    using rp by (simp add: pos_imp_zdiv_nonneg_iff)
  ultimately have "add64 (q * percent) ((r * percent + 99) div 100) = q * percent + (r * percent + 99) div 100"
    using qp(1) assms(4) by (intro add64_exact) (simp add: int64_bounds)
  then show ?thesis
    by (simp add: quot small rest main total)
qed

lemma below_minimum: "(used :: int) < (x + 99) div 100 \<longleftrightarrow> 100 * used < x"
proof
  show "used < (x + 99) div 100 \<Longrightarrow> 100 * used < x" by linarith
  show "100 * used < x \<Longrightarrow> used < (x + 99) div 100" by linarith
qed

definition later :: "int \<Rightarrow> int \<Rightarrow> step_percent \<Rightarrow> int \<Rightarrow> int set" where
  "later used limit inc percent = {p. p < 100 \<and> (\<exists>n. p = percent + int n * step_value inc) \<and> limit * p \<le> 100 * used}"

lemma later_Cons:
  assumes "percent < 100" "limit * percent \<le> 100 * used"
  shows "later used limit inc percent = insert percent (later used limit inc (percent + step_value inc))"
proof (rule set_eqI)
  fix p
  have "(\<exists>n. p = percent + int n * step_value inc) \<longleftrightarrow> p = percent \<or> (\<exists>n. p = percent + step_value inc + int n * step_value inc)"
  proof
    assume "\<exists>n. p = percent + int n * step_value inc"
    then obtain n where "p = percent + int n * step_value inc" by blast
    then show "p = percent \<or> (\<exists>n. p = percent + step_value inc + int n * step_value inc)"
      by (cases n) (auto simp: algebra_simps)
  next
    assume "p = percent \<or> (\<exists>n. p = percent + step_value inc + int n * step_value inc)"
    then show "\<exists>n. p = percent + int n * step_value inc"
    proof
      assume "p = percent"
      then show ?thesis by (intro exI [of _ 0]) simp
    next
      assume "\<exists>n. p = percent + step_value inc + int n * step_value inc"
      then obtain n where "p = percent + step_value inc + int n * step_value inc" by blast
      then show ?thesis by (intro exI [of _ "Suc n"]) (simp add: algebra_simps)
    qed
  qed
  then show "p \<in> later used limit inc percent \<longleftrightarrow> p \<in> insert percent (later used limit inc (percent + step_value inc))"
    using assms by (auto simp: later_def)
qed

lemma later_range: "p \<in> later used limit inc percent \<Longrightarrow> percent \<le> p \<and> p < 100"
  using step_value_pos [of inc] by (auto simp: later_def)

lemma later_below: "p \<in> later used limit inc percent \<Longrightarrow> limit * p \<le> 100 * used"
  by (simp add: later_def)

lemma finite_later: "finite (later used limit inc percent)"
  by (rule finite_subset [of _ "{percent..<100}"]) (auto dest: later_range)

lemma traffic_scan_exact:
  "0 \<le> percent \<Longrightarrow> 0 < limit \<Longrightarrow> limit \<le> max_int64 \<Longrightarrow> step < percent \<Longrightarrow>
    traffic_scan used limit inc percent step = Max (insert step (later used limit inc percent))"
proof (induction used limit inc percent step rule: traffic_scan.induct)
  case (1 used limit inc percent step)
  show ?case
  proof (cases "percent \<ge> 100")
    case True
    then have "later used limit inc percent = {}"
      by (auto dest: later_range)
    with True show ?thesis
      by (simp add: traffic_scan.simps)
  next
    case False
    have min: "add64 (mul64 (quot64 limit 100) percent) (quot64 (add64 (mul64 (rem64 limit 100) percent) 99) 100) = (limit * percent + 99) div 100"
      using False "1.prems" by (intro minimum_exact) simp_all
    have guard: "used < add64 (mul64 (quot64 limit 100) percent) (quot64 (add64 (mul64 (rem64 limit 100) percent) 99) 100) \<longleftrightarrow> 100 * used < limit * percent"
      unfolding min by (rule below_minimum)
    show ?thesis
    proof (cases "limit * percent \<le> 100 * used")
      case True
      have unfold: "traffic_scan used limit inc percent step = traffic_scan used limit inc (percent + step_value inc) percent"
        using False True by (subst traffic_scan.simps) (simp add: guard)
      have "\<dots> = Max (insert percent (later used limit inc (percent + step_value inc)))"
        by (rule "1.IH" [OF False refl]) (unfold guard, use False True "1.prems" step_value_pos [of inc] in simp_all)
      also have "\<dots> = Max (later used limit inc percent)"
        using False True by (simp add: later_Cons)
      also have "\<dots> = Max (insert step (later used limit inc percent))"
      proof -
        have "percent \<in> later used limit inc percent"
          using False True by (simp add: later_Cons)
        then have "step < Max (later used limit inc percent)"
          using "1.prems"(4) Max_ge [OF finite_later, of percent] by (meson less_le_trans)
        then show ?thesis
          using \<open>percent \<in> later used limit inc percent\<close> by (subst Max_insert) (auto simp: finite_later)
      qed
      finally show ?thesis using unfold by simp
    next
      case stop: False
      have "later used limit inc percent = {}"
      proof -
        have no: "\<not> limit * p \<le> 100 * used" if "percent \<le> p" for p
        proof -
          have "limit * percent \<le> limit * p"
            by (rule mult_left_mono [OF that]) (use "1.prems"(2) in simp)
          then show ?thesis using stop by linarith
        qed
        show ?thesis
        proof (rule equals0I)
          fix p assume "p \<in> later used limit inc percent"
          then show False
            using no later_range later_below by blast
        qed
      qed
      moreover have "traffic_scan used limit inc percent step = step"
        using False stop by (subst traffic_scan.simps) (simp add: guard)
      ultimately show ?thesis by simp
    qed
  qed
qed

lemma traffic_step_reached:
  assumes "limit \<le> max_int64" "0 < threshold_percent st"
  shows "traffic_step st used limit =
    (if limit \<le> 0 then 0 else if used \<ge> limit \<and> full_enabled st then 100 else Max (insert 0 (reached st used limit)))"
  using assms traffic_scan_exact [of "threshold_percent st" limit 0 used "traffic_step_percent st"]
  by (simp add: traffic_step_def reached_def later_def)

lemma traffic_step_nonneg:
  assumes "limit \<le> max_int64" "0 < threshold_percent st"
  shows "0 \<le> traffic_step st used limit"
proof -
  have "finite (reached st used limit)"
    using finite_later [of used limit "traffic_step_percent st" "threshold_percent st"] by (simp add: reached_def later_def)
  then show ?thesis
    by (simp add: traffic_step_reached [OF assms])
qed


section \<open>One server of a sweep\<close>

text \<open>A loop over distinct keys changes what it keeps about one key only at that key's element.\<close>

lemma fold_one:
  assumes "distinct (map key vs)" "v \<in> set vs"
    and other: "\<And>w acc. w \<in> set vs \<Longrightarrow> key w \<noteq> key v \<Longrightarrow> P (f w acc) = P acc"
    and own: "\<And>acc. P (f v acc) = g (P acc)"
  shows "P (fold f vs acc) = g (P acc)"
proof -
  have skip: "P (fold f ws acc) = P acc" if "set ws \<subseteq> set vs" "key v \<notin> key ` set ws" for ws acc
    using that
  proof (induction ws arbitrary: acc)
    case (Cons w ws)
    then have "P (fold f ws (f w acc)) = P (f w acc)" by simp
    also have "\<dots> = P acc"
      by (rule other) (use Cons.prems in auto)
    finally show ?case by simp
  qed simp
  obtain xs ys where vs: "vs = xs @ v # ys"
    using assms(2) by (meson split_list)
  have parts: "set xs \<subseteq> set vs" "set ys \<subseteq> set vs"
    by (auto simp: vs)
  have fresh: "key v \<notin> key ` set xs" "key v \<notin> key ` set ys"
    using assms(1) by (auto simp: vs)
  have "P (fold f vs acc) = P (f v (fold f xs acc))"
    using skip [OF parts(2) fresh(2)] by (simp add: vs)
  also have "\<dots> = g (P acc)"
    using skip [OF parts(1) fresh(1)] by (simp add: own)
  finally show ?thesis .
qed

lemma fold_none:
  assumes "\<And>w acc. w \<in> set vs \<Longrightarrow> P (f w acc) = P acc"
  shows "P (fold f vs acc) = P acc"
  using assms
proof (induction vs arbitrary: acc)
  case (Cons w vs)
  have "P (fold f vs (f w acc)) = P (f w acc)"
    by (rule Cons.IH) (use Cons.prems in auto)
  then show ?case
    using Cons.prems [of w acc] by simp
qed simp

lemma sv_ids: "distinct (map srv_id (servers d)) \<Longrightarrow> distinct (map sv_id (list_servers d))"
proof -
  assume dist: "distinct (map srv_id (servers d))"
  let ?t = "filter (\<lambda>s. srv_archived_at s = None) (servers d)"
  let ?s = "sort_key (\<lambda>s. - srv_created_at s) (sort_key (\<lambda>s. - srv_id s) ?t)"
  have "map sv_id (list_servers d) = map srv_id ?s"
    by (simp add: list_servers_def server_view_of_def)
  moreover have "distinct ?t" "inj_on srv_id (set ?t)"
    using dist by (auto simp: distinct_map inj_on_def)
  then have "distinct (map srv_id ?s)"
    by (simp add: distinct_map)
  ultimately show ?thesis by simp
qed

lemma notify_state_id [simp]: "ns_server_id (notify_state k d) = k"
  by (auto simp: notify_state_def dest: sql_first_SomeD split: option.splits)


lemma first_upsert_other:
  assumes "j \<noteq> k" "ns_server_id ins = j" "\<And>r. ns_server_id (f r) = ns_server_id r"
  shows "sql_first (state_of k) (sql_upsert (state_of j) ins f t) = sql_first (state_of k) t"
proof (cases "sql_exists (state_of j) t")
  case True
  then show ?thesis
    using sql_first_update_other [of ns_server_id f "state_of j" k t] assms by (simp add: sql_upsert_def)
next
  case False
  then show ?thesis
    using assms(1,2) by (simp add: sql_upsert_def sql_first_append) (simp add: sql_first_def split: option.splits)
qed


lemma state_traffic: "notify_state k (set_traffic_state j c n d) =
    (if j = k then (notify_state k d)\<lparr>ns_cycle := Some c, ns_step := n\<rparr> else notify_state k d)"
  by (auto simp: notify_state_def set_traffic_state_def sql_first_upsert first_upsert_other split: option.splits)


section \<open>Traffic notices\<close>

text \<open>What a sweep reads of a server: its cycle and the step its usage has reached.\<close>

definition traffic_sample :: "notify_settings \<Rightarrow> server_view \<Rightarrow> (unix_time \<times> int) option" where
  "traffic_sample st v = (case (sv_limit v, sv_cycle v) of
     (Some limit, Some cycle) \<Rightarrow> if eligible v then Some (cycle, traffic_step st (sv_used v) limit) else None
   | _ \<Rightarrow> None)"

text \<open>The stored pair after a sample, and whether the sample is announced.\<close>

definition traffic_next :: "(unix_time option \<times> int) \<Rightarrow> unix_time \<times> int \<Rightarrow> (unix_time option \<times> int) \<times> bool" where
  "traffic_next prev sample =
     (let base = (if fst prev \<noteq> Some (fst sample) \<or> snd sample = 0 then 0 else snd prev)
      in ((Some (fst sample), max base (snd sample)), snd sample > base))"

definition traffic_one :: "server_view \<Rightarrow> (unix_time option \<times> int) \<times> notify_settings \<times> entry list \<Rightarrow>
    (unix_time option \<times> int) \<times> notify_settings \<times> entry list" where
  "traffic_one v p = (let (prev, st, batch) = p in case traffic_sample st v of
     None \<Rightarrow> (prev, st, batch)
   | Some sample \<Rightarrow> (fst (traffic_next prev sample), st,
       if snd (traffic_next prev sample) then batch @ [\<lparr>ent_server = sv_id v, ent_started = fst sample, ent_step = snd sample\<rparr>] else batch))"

definition traffic_view :: "id64 \<Rightarrow> notify_service \<times> entry list \<Rightarrow> (unix_time option \<times> int) \<times> notify_settings \<times> entry list" where
  "traffic_view k acc = ((ns_cycle (notify_state k (nt_db (fst acc))), ns_step (notify_state k (nt_db (fst acc)))),
     nt_settings (fst acc), filter (\<lambda>e. ent_server e = k) (snd acc))"

lemma traffic_row_view:
  "traffic_view k (traffic_row v acc) = (if sv_id v = k then traffic_one v (traffic_view k acc) else traffic_view k acc)"
proof -
  obtain s batch where acc: "acc = (s, batch)" by force
  show ?thesis
    by (cases "sv_limit v"; cases "sv_cycle v")
      (auto simp: acc traffic_row_def traffic_view_def traffic_one_def traffic_sample_def traffic_next_def Let_def state_traffic)
qed

lemma sweep_traffic_view:
  assumes "distinct (map srv_id (servers (nt_db s)))" "configured (nt_settings s)" "traffic_enabled (nt_settings s)"
  shows "traffic_view k (sweep_traffic s) =
    (case find (\<lambda>v. sv_id v = k) (list_servers (nt_db s)) of
       None \<Rightarrow> traffic_view k (s, []) | Some v \<Rightarrow> traffic_one v (traffic_view k (s, [])))"
proof -
  let ?vs = "list_servers (nt_db s)"
  obtain s1 batch where f: "fold traffic_row ?vs (s, []) = (s1, batch)" by force
  have queue: "traffic_view k (enqueue ev s1, batch) = traffic_view k (s1, batch)" for ev
    by (simp add: traffic_view_def enqueue_def)
  have "traffic_view k (fold traffic_row ?vs (s, [])) =
    (case find (\<lambda>v. sv_id v = k) ?vs of None \<Rightarrow> traffic_view k (s, []) | Some v \<Rightarrow> traffic_one v (traffic_view k (s, [])))"
  proof (cases "find (\<lambda>v. sv_id v = k) ?vs")
    case None
    then have "\<forall>v \<in> set ?vs. sv_id v \<noteq> k"
      by (simp add: find_None_iff)
    then have "traffic_view k (fold traffic_row ?vs (s, [])) = traffic_view k (s, [])"
      by (intro fold_none) (simp add: traffic_row_view)
    with None show ?thesis by simp
  next
    case (Some v)
    then have v: "v \<in> set ?vs" "sv_id v = k"
      by (auto simp: find_Some_iff)
    have "traffic_view k (fold traffic_row ?vs (s, [])) = traffic_one v (traffic_view k (s, []))"
      by (rule fold_one [OF sv_ids [OF assms(1)] v(1)]) (use v(2) in \<open>simp_all add: traffic_row_view\<close>)
    with Some show ?thesis by simp
  qed
  then show ?thesis
    using assms(2,3) by (simp add: sweep_traffic_def f queue)
qed

text \<open>
  The abstract specification, over the samples of a server, newest first: a step is announced
  when it is positive and higher than every step seen since the cycle began or the usage was last
  below the threshold.
\<close>

definition arm :: "unix_time \<Rightarrow> (unix_time \<times> int) list \<Rightarrow> int list" where
  "arm cycle past = map snd (takeWhile (\<lambda>(c, step). c = cycle \<and> step \<noteq> 0) past)"

definition due :: "(unix_time \<times> int) list \<Rightarrow> unix_time \<times> int \<Rightarrow> bool" where
  "due past sample \<longleftrightarrow> snd sample > 0 \<and> (\<forall>step \<in> set (arm (fst sample) past). step < snd sample)"

definition summary :: "(unix_time \<times> int) list \<Rightarrow> unix_time option \<times> int" where
  "summary past = (case past of [] \<Rightarrow> (None, 0) | (c, _) # _ \<Rightarrow> (Some c, Max (set (0 # arm c past))))"

lemma traffic_next_summary:
  assumes "\<forall>s \<in> set past. 0 \<le> snd s" "0 \<le> snd sample"
  shows "traffic_next (summary past) sample = (summary (sample # past), due past sample)"
proof -
  obtain c step where s: "sample = (c, step)" by force
  have nonneg: "\<forall>x \<in> set (arm c past). 0 \<le> x" for c
    using assms(1) set_takeWhileD by (fastforce simp: arm_def)
  have base: "(if fst (summary past) \<noteq> Some c \<or> step = 0 then 0 else snd (summary past)) = (if step = 0 then 0 else Max (set (0 # arm c past)))"
    by (cases past) (auto simp: summary_def arm_def split: prod.splits)
  have arm_Cons: "arm c ((c, step) # past) = (if step = 0 then [] else step # arm c past)"
    by (simp add: arm_def)
  have "Max (insert 0 (insert step (set (arm c past)))) = max (Max (insert 0 (set (arm c past)))) step"
    by (metis (no_types, lifting) Max_insert2 Max_insert List.finite_set finite_insert insert_commute insert_not_empty max.commute)
  moreover have "step > Max (insert 0 (set (arm c past))) \<longleftrightarrow> step > 0 \<and> (\<forall>x \<in> set (arm c past). x < step)"
    by (simp add: Max_less_iff)
  ultimately show ?thesis
    using assms(2) base unfolding s traffic_next_def due_def
    by (simp add: summary_def arm_Cons Let_def)
qed

text \<open>Sweeps over a changing world: every sweep finds the settings and the tables of its moment.\<close>

definition visit :: "notify_settings \<times> panel_db \<Rightarrow> notify_service \<Rightarrow> notify_service" where
  "visit w s = s\<lparr>nt_settings := fst w, nt_db := (snd w)\<lparr>notification_states := notification_states (nt_db s)\<rparr>\<rparr>"

fun traffic_run :: "notify_service \<Rightarrow> (notify_settings \<times> panel_db) list \<Rightarrow> entry list list" where
  "traffic_run s [] = []"
| "traffic_run s (w # ws) = (case sweep_traffic (visit w s) of (s', batch) \<Rightarrow> batch # traffic_run s' ws)"

definition world_sample :: "id64 \<Rightarrow> notify_settings \<times> panel_db \<Rightarrow> (unix_time \<times> int) option" where
  "world_sample k w = (if configured (fst w) \<and> traffic_enabled (fst w)
     then case find (\<lambda>v. sv_id v = k) (list_servers (snd w)) of None \<Rightarrow> None | Some v \<Rightarrow> traffic_sample (fst w) v
     else None)"

fun notices_due :: "id64 \<Rightarrow> (unix_time \<times> int) list \<Rightarrow> (notify_settings \<times> panel_db) list \<Rightarrow> entry list list" where
  "notices_due k past [] = []"
| "notices_due k past (w # ws) = (case world_sample k w of
     None \<Rightarrow> [] # notices_due k past ws
   | Some sample \<Rightarrow>
       (if due past sample then [\<lparr>ent_server = k, ent_started = fst sample, ent_step = snd sample\<rparr>] else []) # notices_due k (sample # past) ws)"

definition world_ok :: "notify_settings \<times> panel_db \<Rightarrow> bool" where
  "world_ok w \<longleftrightarrow> distinct (map srv_id (servers (snd w))) \<and> 0 < threshold_percent (fst w) \<and>
     (\<forall>s \<in> set (servers (snd w)). case srv_limit s of None \<Rightarrow> True | Some l \<Rightarrow> l \<le> max_int64)"

lemma list_servers_visit: "list_servers (d\<lparr>notification_states := n\<rparr>) = list_servers d"
  by (simp add: list_servers_def server_view_of_def)

lemma list_servers_rows: "v \<in> set (list_servers d) \<Longrightarrow> sv_row v \<in> set (servers d)"
  by (auto simp: list_servers_def server_view_of_def)

lemma world_sample_nonneg:
  assumes "world_ok w" "world_sample k w = Some sample"
  shows "0 \<le> snd sample"
proof -
  obtain v where v: "find (\<lambda>v. sv_id v = k) (list_servers (snd w)) = Some v" "traffic_sample (fst w) v = Some sample"
    using assms(2) by (auto simp: world_sample_def split: if_splits option.splits)
  then have "sv_row v \<in> set (servers (snd w))"
    using list_servers_rows [of v "snd w"] by (auto simp: find_Some_iff)
  moreover obtain limit cycle where "sv_limit v = Some limit" "sample = (cycle, traffic_step (fst w) (sv_used v) limit)"
    using v(2) by (auto simp: traffic_sample_def split: option.splits if_splits)
  ultimately show ?thesis
    using assms(1) traffic_step_nonneg [of limit "fst w" "sv_used v"]
    by (force simp: world_ok_def sv_limit_def split: option.splits if_splits)
qed

lemma sweep_sample:
  assumes "world_ok w"
  shows "traffic_view k (sweep_traffic (visit w s)) = (case world_sample k w of
     None \<Rightarrow> traffic_view k (visit w s, [])
   | Some sample \<Rightarrow> (let prev = fst (traffic_view k (s, [])) in
       (fst (traffic_next prev sample), fst w,
        if snd (traffic_next prev sample) then [\<lparr>ent_server = k, ent_started = fst sample, ent_step = snd sample\<rparr>] else [])))"
proof (cases "configured (fst w) \<and> traffic_enabled (fst w)")
  case False
  then have "sweep_traffic (visit w s) = (visit w s, [])" "world_sample k w = None"
    by (auto simp: sweep_traffic_def visit_def world_sample_def)
  then show ?thesis by simp
next
  case True
  define prev where "prev = fst (traffic_view k (s, []))"
  have start: "traffic_view k (visit w s, []) = (prev, fst w, [])"
    by (simp add: prev_def traffic_view_def visit_def notify_state_def)
  have sweep: "traffic_view k (sweep_traffic (visit w s)) = (case find (\<lambda>v. sv_id v = k) (list_servers (snd w)) of
       None \<Rightarrow> (prev, fst w, []) | Some v \<Rightarrow> traffic_one v (prev, fst w, []))"
    unfolding start [symmetric]
    using sweep_traffic_view [of "visit w s" k] True assms by (simp add: visit_def world_ok_def list_servers_visit)
  have sample: "world_sample k w = (case find (\<lambda>v. sv_id v = k) (list_servers (snd w)) of None \<Rightarrow> None | Some v \<Rightarrow> traffic_sample (fst w) v)"
    using True by (simp add: world_sample_def)
  show ?thesis
  proof (cases "find (\<lambda>v. sv_id v = k) (list_servers (snd w))")
    case None
    then show ?thesis
      by (simp add: sweep sample start)
  next
    case (Some v)
    then have "sv_id v = k"
      by (auto simp: find_Some_iff)
    then show ?thesis
      unfolding sweep sample Some start prev_def [symmetric] option.case
      by (simp add: traffic_one_def Let_def split: option.splits)
  qed
qed

lemma traffic_run_due:
  "\<forall>w \<in> set ws. world_ok w \<Longrightarrow> \<forall>s \<in> set past. 0 \<le> snd s \<Longrightarrow> fst (traffic_view k (s, [])) = summary past \<Longrightarrow>
    map (filter (\<lambda>e. ent_server e = k)) (traffic_run s ws) = notices_due k past ws"
proof (induction ws arbitrary: s past)
  case (Cons w ws)
  obtain s' batch where sw: "sweep_traffic (visit w s) = (s', batch)" by force
  have view: "fst (traffic_view k (s', [])) = fst (traffic_view k (s', batch))" "snd (snd (traffic_view k (s', batch))) = filter (\<lambda>e. ent_server e = k) batch"
    by (simp_all add: traffic_view_def)
  note sample = sweep_sample [of w k s, unfolded sw]
  show ?case
  proof (cases "world_sample k w")
    case None
    have "fst (traffic_view k (visit w s, [])) = fst (traffic_view k (s, []))" "snd (snd (traffic_view k (visit w s, []))) = []"
      by (simp_all add: traffic_view_def visit_def notify_state_def)
    then show ?thesis
      using Cons.IH [of past s'] Cons.prems sample None view by (simp add: sw)
  next
    case (Some x)
    have "0 \<le> snd x"
      using world_sample_nonneg [OF _ Some] Cons.prems(1) by simp
    then have "traffic_next (summary past) x = (summary (x # past), due past x)"
      using traffic_next_summary Cons.prems(2) by blast
    then show ?thesis
      using Cons.IH [of "x # past" s'] Cons.prems sample Some view \<open>0 \<le> snd x\<close> by (simp add: sw Let_def)
  qed
qed simp


section \<open>Runs of the service\<close>

text \<open>
  The steps of the goroutines in any order: the two sweeps, the worker taking an event and ending
  its delivery, saved settings, test messages, and changes of the other tables by the rest of the
  program. A run lists what the sweeps decided to announce and what the delivery confirmed.
\<close>

datatype notice = Noticed event_kind entry | Confirmed entry





section \<open>One notice per outage\<close>






















section \<open>Recovery only after a confirmed notice\<close>

definition confirmed :: "id64 \<Rightarrow> unix_time \<Rightarrow> notice list \<Rightarrow> bool" where
  "confirmed k t out \<longleftrightarrow> (\<exists>e. Confirmed e \<in> set out \<and> ent_server e = k \<and> ent_started e = t)"

definition notified_ok :: "notice list \<Rightarrow> panel_db \<Rightarrow> bool" where
  "notified_ok out d \<longleftrightarrow> (\<forall>r \<in> set (notification_states d). ns_offline_notified r \<noteq> None \<longrightarrow>
     (\<exists>t. ns_offline_started r = Some t \<and> confirmed (ns_server_id r) t out))"



lemma notified_ok_states: "notification_states d' = notification_states d \<Longrightarrow> notified_ok out d' \<longleftrightarrow> notified_ok out d"
  by (simp add: notified_ok_def)











section \<open>Properties\<close>

text \<open>
  \<open>trafficStep\<close> is exact for every limit an \<open>int64\<close> can hold: its rounded-up minimum
  never overflows, and the result is 100 when the limit is used up (and that notice is on), else
  the highest configured percentage below 100 whose share of the limit is used, or 0.
\<close>

theorem traffic_step_exact:
  assumes "limit \<le> max_int64" "0 < threshold_percent st"
  shows "traffic_step st used limit =
    (if limit \<le> 0 then 0 else if used \<ge> limit \<and> full_enabled st then 100
     else Max (insert 0 {p. p < 100 \<and> (\<exists>n. p = threshold_percent st + int n * step_value (traffic_step_percent st)) \<and> limit * p \<le> 100 * used}))"
  using traffic_step_reached [OF assms] by (simp add: reached_def)

text \<open>
  C19. The traffic sweeps implement the abstract rule \<open>due\<close>: over any sequence of sweeps, with
  the settings, usage, limits, cycles and eligibility changing in between, the notices of a server
  are exactly those of the samples that exceed every step seen since the cycle began or the usage
  was last below the threshold. The stored row (cycle and highest step) is all that is remembered.
\<close>

theorem traffic_notices_refine:
  assumes "\<forall>w \<in> set ws. world_ok w" "notify_state k (nt_db s) = \<lparr>ns_server_id = k, ns_offline_started = started,
    ns_offline_notified = notified, ns_cycle = None, ns_step = 0\<rparr>"
  shows "map (filter (\<lambda>e. ent_server e = k)) (traffic_run s ws) = notices_due k [] ws"
  by (rule traffic_run_due) (use assms in \<open>simp_all add: traffic_view_def summary_def\<close>)



section \<open>Witnesses\<close>

definition watch_settings :: notify_settings where
  "watch_settings = \<lparr>bot_token = ''1:a'', chat_id = ''5'', online_enabled = True, offline_grace = 3, recovery_enabled = True,
     traffic_enabled = True, threshold_percent = 80, traffic_step_percent = Step10, full_enabled = True\<rparr>"

definition watch_db :: "int \<Rightarrow> panel_db" where
  "watch_db used = empty_db\<lparr>
     servers := [(plain_server 1)\<lparr>srv_status := ''online'', srv_limit := Some 1000\<rparr>],
     agents := [\<lparr>agt_id = 1, agt_server_id = 1, agt_token_hash = ''h'', agt_implementation = ''a'', agt_version = ''1'',
       agt_api_version = 1, agt_capabilities = [], agt_registered_at = 0, agt_last_seen_at = Some 5, agt_applied_version = 1,
       agt_sync_status = ''applied'', agt_sync_error = [], agt_synced_at = None, agt_upgrade_target = [],
       agt_upgrade_status = [], agt_upgrade_error = [], agt_updated_at = 0\<rparr>],
     server_metrics := [\<lparr>met_server_id = 1, met_gauges = \<lparr>g_cpu_percent = FNaN, g_memory_used = 0, g_memory_total = 0,
         g_disk_used = 0, g_disk_total = 0, g_uptime = 0\<rparr>, met_nic_rx = 0, met_nic_tx = 0, met_cycle_rx = 0,
       met_cycle_tx = used, met_adjustment = 0, met_cycle_started = Some 0, met_updated_at = 0\<rparr>]\<rparr>"

definition watch_service :: notify_service where
  "watch_service = \<lparr>nt_db = watch_db 0, nt_settings = watch_settings, nt_queue = [], nt_sending = None, nt_absent = Map.empty,
     nt_pending = Map.empty, nt_test_id = [], nt_test_status = []\<rparr>"

theorem traffic_step_exact_witness:
  "traffic_step watch_settings 950 1000 = 90 \<and>
   Max (insert 0 {p. p < 100 \<and> (\<exists>n. p = 80 + int n * 10) \<and> 1000 * p \<le> 100 * 950}) = (90 :: int)"
proof -
  have "traffic_step watch_settings 950 1000 = 90"
    by code_simp
  moreover have "traffic_step watch_settings 950 1000 = Max (insert 0 {p. p < 100 \<and> (\<exists>n. p = 80 + int n * 10) \<and> 1000 * p \<le> 100 * 950})"
    using traffic_step_exact [of 1000 watch_settings 950] by (simp add: watch_settings_def max_int64_def)
  ultimately show ?thesis by simp
qed

theorem traffic_notices_refine_witness:
  "map (filter (\<lambda>e. ent_server e = 1)) (traffic_run watch_service (map (\<lambda>used. (watch_settings, watch_db used)) [850, 870, 950, 100, 820])) =
     notices_due 1 [] (map (\<lambda>used. (watch_settings, watch_db used)) [850, 870, 950, 100, 820]) \<and>
   map (map ent_step) (traffic_run watch_service (map (\<lambda>used. (watch_settings, watch_db used)) [850, 870, 950, 100, 820])) =
     [[80], [], [90], [], [80]]"
proof
  have world: "world_ok (watch_settings, watch_db used)" for used
    by (simp add: world_ok_def watch_db_def watch_settings_def plain_server_def max_int64_def)
  have fresh: "notify_state 1 (nt_db watch_service) = \<lparr>ns_server_id = 1, ns_offline_started = None, ns_offline_notified = None, ns_cycle = None, ns_step = 0\<rparr>"
    by (simp add: notify_state_def watch_service_def watch_db_def empty_db_def sql_first_def)
  show "map (filter (\<lambda>e. ent_server e = 1)) (traffic_run watch_service (map (\<lambda>used. (watch_settings, watch_db used)) [850, 870, 950, 100, 820])) =
     notices_due 1 [] (map (\<lambda>used. (watch_settings, watch_db used)) [850, 870, 950, 100, 820])"
    by (rule traffic_notices_refine [OF _ fresh]) (simp add: world)
qed code_simp






end
