(* ===== verification/ServerLifecycle.thy ===== *)
theory ServerLifecycle
  imports SubscriberReconcile AgentControl Renewal
begin

text \<open>
  The life of a server (\<open>panel/internal/server/lifecycle.go\<close>): its settings, the request
  of a decommissioning, its completion by the Agent's receipt, archiving and deletion, with the
  clean-up of everything that depends on the server.

  As in the reconciliation of subscribers, \<open>shuffle\<close> is the iteration order of Go maps
  and \<open>credential\<close> the source of fresh credentials.
\<close>

datatype lifecycle_error = ErrLifecycle enroll_error | ErrAgentMissing | ErrDecommissionUnsupported
  | ErrInvalidBandwidth | ErrInvalidNetworkStack | ErrInvalidServerName | ErrInvalidServerOwner
  | ErrInvalidOutboundPreference | ErrInvalidVisibility | ErrInvalidServerAccess | ErrInvalidBoundDomain
  | ErrIPv6Unavailable | ErrAgentCapabilities agent_error | ErrDependencies subscription_error
  | ErrLifecycleForeignKey

abbreviation server_gone :: lifecycle_error where
  "server_gone \<equiv> ErrLifecycle ErrNoServer"

section \<open>Settings\<close>

definition ensure_mutable :: "id64 \<Rightarrow> panel_db \<Rightarrow> lifecycle_error option" where
  "ensure_mutable k d = (case sql_first (live_server k) (servers d) of
     None \<Rightarrow> Some server_gone
   | Some s \<Rightarrow> if srv_decom_status s \<noteq> [] then Some (ErrLifecycle ErrDecommissioning) else None)"

definition max_bandwidth_mbps :: int where
  "max_bandwidth_mbps = 10000000"

definition validate_network_metadata :: "int option \<Rightarrow> string option \<Rightarrow> lifecycle_error option" where
  "validate_network_metadata bandwidth stack =
     (if (case bandwidth of None \<Rightarrow> False | Some b \<Rightarrow> b < 1 \<or> b > max_bandwidth_mbps) then Some ErrInvalidBandwidth
      else case stack of
        None \<Rightarrow> None
      | Some v \<Rightarrow> if v = ''ipv4'' \<or> v = ''ipv6'' \<or> v = ''dual'' then None else Some ErrInvalidNetworkStack)"

record network_metadata =
  nmd_bandwidth :: "int option"
  nmd_stack :: "string option"
  nmd_set_bandwidth :: bool
  nmd_set_stack :: bool

definition update_network_metadata :: "unix_time \<Rightarrow> id64 \<Rightarrow> network_metadata \<Rightarrow> panel_db \<Rightarrow> lifecycle_error + panel_db" where
  "update_network_metadata now k inp d =
     (case validate_network_metadata (nmd_bandwidth inp) (nmd_stack inp) of
        Some e \<Rightarrow> Inl e
      | None \<Rightarrow>
        (case ensure_mutable k d of
           Some e \<Rightarrow> Inl e
         | None \<Rightarrow>
           if sql_count (bumpable k) (servers d) \<noteq> 1
           then Inl (case ensure_mutable k d of Some e \<Rightarrow> e | None \<Rightarrow> server_gone)
           else Inr (d\<lparr>servers := sql_update (bumpable k)
             (\<lambda>s. s\<lparr>srv_bandwidth := (if nmd_set_bandwidth inp then nmd_bandwidth inp else srv_bandwidth s),
                srv_stack := (if nmd_set_stack inp then nmd_stack inp else srv_stack s), srv_updated_at := now\<rparr>) (servers d)\<rparr>)))"

definition normalize_server_name :: "string \<Rightarrow> lifecycle_error + string" where
  "normalize_server_name name = (let n = trim_space name in if n = [] \<or> rune_count n > 100 then Inl ErrInvalidServerName else Inr n)"

text \<open>An \<open>UPDATE\<close> of the live row that must affect exactly one row.\<close>

definition update_live_server :: "id64 \<Rightarrow> (server_row \<Rightarrow> server_row) \<Rightarrow> panel_db \<Rightarrow> lifecycle_error + panel_db" where
  "update_live_server k f d =
     (if sql_count (live_server k) (servers d) \<noteq> 1 then Inl server_gone
      else Inr (d\<lparr>servers := sql_update (live_server k) f (servers d)\<rparr>))"

definition update_name :: "unix_time \<Rightarrow> id64 \<Rightarrow> string \<Rightarrow> panel_db \<Rightarrow> lifecycle_error + panel_db" where
  "update_name now k name d = (case normalize_server_name name of
     Inl e \<Rightarrow> Inl e
   | Inr n \<Rightarrow> update_live_server k (\<lambda>s. s\<lparr>srv_name := n, srv_updated_at := now\<rparr>) d)"

definition update_owner :: "unix_time \<Rightarrow> id64 \<Rightarrow> id64 option \<Rightarrow> panel_db \<Rightarrow> lifecycle_error + panel_db" where
  "update_owner now k owner d =
     (if (case owner of None \<Rightarrow> False | Some u \<Rightarrow> u \<le> 0) then Inl ErrInvalidServerOwner
      else if (case owner of None \<Rightarrow> False | Some u \<Rightarrow> \<not> sql_exists (\<lambda>x. usr_id x = u) (users (accounts d))) then Inl ErrInvalidServerOwner
      else update_live_server k (\<lambda>s. s\<lparr>srv_owner := owner, srv_updated_at := now\<rparr>) d)"

text \<open>The Agent's configuration is out of date; the version of a row.\<close>

definition agent_pending :: "unix_time \<Rightarrow> id64 \<Rightarrow> panel_db \<Rightarrow> panel_db" where
  "agent_pending now k d = d\<lparr>agents := sql_update (\<lambda>a. agt_server_id a = k)
     (\<lambda>a. a\<lparr>agt_sync_status := ''pending'', agt_sync_error := [], agt_updated_at := now\<rparr>) (agents d)\<rparr>"

definition version_of :: "id64 \<Rightarrow> panel_db \<Rightarrow> int option" where
  "version_of k d = map_option srv_version (sql_first (\<lambda>s. srv_id s = k) (servers d))"

definition update_outbound_preference :: "unix_time \<Rightarrow> id64 \<Rightarrow> string \<Rightarrow> panel_db \<Rightarrow> lifecycle_error + (int \<times> panel_db)" where
  "update_outbound_preference now k preference d =
     (if preference \<noteq> ''auto'' \<and> preference \<noteq> ''prefer_ipv4'' \<and> preference \<noteq> ''prefer_ipv6'' then Inl ErrInvalidOutboundPreference
      else case update_live_server k (\<lambda>s. s\<lparr>srv_outbound := preference, srv_version := srv_version s + 1, srv_updated_at := now\<rparr>) d of
        Inl e \<Rightarrow> Inl e
      | Inr d1 \<Rightarrow>
        let d2 = agent_pending now k d1 in
        (case version_of k d2 of
           None \<Rightarrow> Inl server_gone
         | Some v \<Rightarrow> Inr (v, record_operation now k ''server'' k ''update'' v d2)))"

definition update_block_china_inbound :: "unix_time \<Rightarrow> id64 \<Rightarrow> bool \<Rightarrow> panel_db \<Rightarrow> lifecycle_error + ((int \<times> bool) \<times> panel_db)" where
  "update_block_china_inbound now k enabled d = (case sql_first (live_server k) (servers d) of
     None \<Rightarrow> Inl server_gone
   | Some s \<Rightarrow>
     if srv_block_china s = enabled then Inr ((srv_version s, False), d)
     else let v = srv_version s + 1;
              d1 = agent_pending now k (d\<lparr>servers := sql_update (\<lambda>x. srv_id x = k)
                (\<lambda>x. x\<lparr>srv_block_china := enabled, srv_version := srv_version x + 1, srv_updated_at := now\<rparr>) (servers d)\<rparr>)
          in Inr ((v, True), record_operation now k ''server'' k ''update'' v d1))"

section \<open>Requesting a decommissioning\<close>

definition agent_metadata :: "agent_row \<Rightarrow> string list \<Rightarrow> metadata" where
  "agent_metadata a caps = \<lparr>md_implementation = agt_implementation a, md_version = agt_version a,
     md_api_version = agt_api_version a, md_capabilities = caps\<rparr>"

definition request_decommission :: "unix_time \<Rightarrow> id64 \<Rightarrow> panel_db \<Rightarrow> lifecycle_error + (int \<times> panel_db)" where
  "request_decommission now k d = (case sql_first (live_server k) (servers d) of
     None \<Rightarrow> Inl server_gone
   | Some s \<Rightarrow>
     if srv_decom_status s \<noteq> [] then Inl (ErrLifecycle ErrDecommissioning)
     else (case sql_first (\<lambda>a. agt_server_id a = k) (agents d) of
       None \<Rightarrow> Inl ErrAgentMissing
     | Some a \<Rightarrow>
       (case normalize_capabilities (agt_capabilities a) of
          Inl e \<Rightarrow> Inl (ErrAgentCapabilities e)
        | Inr caps \<Rightarrow>
          if \<not> declares_capability (agent_metadata a caps) ''managed_runtime_purge'' \<or>
             \<not> declares_capability (agent_metadata a caps) ''self_decommission'' then Inl ErrDecommissionUnsupported
          else if sql_count (bumpable k) (servers d) \<noteq> 1 then Inl (ErrLifecycle ErrDecommissioning)
          else
            let d1 = agent_pending now k (d\<lparr>servers := sql_update (bumpable k)
                  (\<lambda>s. s\<lparr>srv_decom_at := Some now, srv_decom_status := ''pending'', srv_decom_error := [],
                     srv_version := srv_version s + 1, srv_updated_at := now\<rparr>) (servers d)\<rparr>);
                d2 = d1\<lparr>enrollments := sql_delete (\<lambda>e. enr_server_id e = k \<and> enr_used_at e = None) (enrollments d1)\<rparr>
            in case version_of k d2 of
                 None \<Rightarrow> Inl server_gone
               | Some v \<Rightarrow> Inr (v, record_operation now k ''server'' k ''update'' v d2))))"

section \<open>What depends on a server\<close>

definition proxy_on :: "id64 \<Rightarrow> panel_db \<Rightarrow> id64 \<Rightarrow> bool" where
  "proxy_on k d pid \<longleftrightarrow> sql_exists (\<lambda>p. prx_id p = pid \<and> prx_server_id p = k) (proxies d)"

definition client_on :: "id64 \<Rightarrow> panel_db \<Rightarrow> id64 \<Rightarrow> bool" where
  "client_on k d cid \<longleftrightarrow> sql_exists (\<lambda>c. cli_id c = cid \<and> proxy_on k d (cli_proxy_id c)) (clients d)"

definition relay_uses :: "id64 \<Rightarrow> panel_db \<Rightarrow> relay_row \<Rightarrow> bool" where
  "relay_uses k d r \<longleftrightarrow> (case rel_target_proxy r of None \<Rightarrow> False | Some pid \<Rightarrow> proxy_on k d pid) \<or>
     (case rel_source_client r of None \<Rightarrow> False | Some cid \<Rightarrow> client_on k d cid)"

definition relay_depends :: "id64 \<Rightarrow> panel_db \<Rightarrow> relay_row \<Rightarrow> bool" where
  "relay_depends k d r \<longleftrightarrow> rel_server_id r = k \<or> relay_uses k d r"

definition node_depends :: "id64 \<Rightarrow> panel_db \<Rightarrow> published_node_row \<Rightarrow> bool" where
  "node_depends k d n \<longleftrightarrow> proxy_on k d (pub_target_proxy n) \<or> pub_source_server n = Some k \<or>
     sql_exists (\<lambda>r. pub_relay n = Some (rel_id r) \<and> relay_depends k d r) (relays d)"

definition personal_depends :: "id64 \<Rightarrow> panel_db \<Rightarrow> personal_node_row \<Rightarrow> bool" where
  "personal_depends k d n \<longleftrightarrow> psn_source_type n = ''proxy'' \<and> proxy_on k d (psn_source n) \<or>
     psn_source_type n = ''relay'' \<and> sql_exists (\<lambda>r. rel_id r = psn_source n \<and> relay_depends k d r) (relays d)"

text \<open>\<open>GetDependencySummary\<close>: the counts, and the names of the relays of other servers.\<close>

definition dependency_summary :: "id64 \<Rightarrow> panel_db \<Rightarrow> lifecycle_error + (nat list \<times> (string \<times> string) list)" where
  "dependency_summary k d =
     (if \<not> sql_exists (\<lambda>s. srv_id s = k) (servers d) then Inl server_gone
      else Inr ([sql_count (\<lambda>p. prx_server_id p = k) (proxies d), sql_count (\<lambda>c. proxy_on k d (cli_proxy_id c)) (clients d),
          sql_count (\<lambda>r. rel_server_id r = k) (relays d), sql_count (node_depends k d) (published_nodes d),
          sql_count (personal_depends k d) (personal_nodes d), sql_count (\<lambda>m. proxy_on k d (sc_proxy_id m)) (subscriber_clients d)],
        map (\<lambda>(r, s). (rel_name r, srv_name s))
          (sort_key (\<lambda>(r, s). srv_name s) (sort_key (\<lambda>(r, s). rel_name r) (sort_key (\<lambda>(r, s). rel_id r)
            [(r, s). r \<leftarrow> relays d, s \<leftarrow> servers d, srv_id s = rel_server_id r \<and> rel_server_id r \<noteq> k \<and>
              (case rel_target_proxy r of None \<Rightarrow> False | Some pid \<Rightarrow> proxy_on k d pid)])))))"

section \<open>Cleaning up after an archived server\<close>

text \<open>
  The archiving \<open>UPDATE\<close> of the rows \<open>P\<close>, with the trigger
  \<open>monitor_probe_server_archived\<close> that drops the probe assignments and records.
\<close>

definition archive_rows :: "unix_time \<Rightarrow> (server_row \<Rightarrow> bool) \<Rightarrow> panel_db \<Rightarrow> panel_db" where
  "archive_rows now P d =
     (let hit = (\<lambda>k. sql_exists (\<lambda>s. srv_id s = k \<and> P s) (servers d)) in
      d\<lparr>servers := sql_update P (\<lambda>s. s\<lparr>srv_status := ''offline'', srv_archived_at := Some now, srv_decom_at := None,
          srv_decom_status := [], srv_decom_error := [], srv_updated_at := now\<rparr>) (servers d),
        probe_servers := sql_delete (\<lambda>a. hit (pbs_server a)) (probe_servers d),
        probe_records := sql_delete (\<lambda>r. hit (pbr_server r)) (probe_records d)\<rparr>)"

text \<open>The live, undecommissioned servers of other servers' enabled relays into \<open>k\<close>.\<close>

definition relay_sources :: "id64 \<Rightarrow> panel_db \<Rightarrow> id64 list" where
  "relay_sources k d = remdups [rel_server_id r. r \<leftarrow> relays d, rel_enabled r \<and> rel_server_id r \<noteq> k \<and> relay_uses k d r \<and>
     sql_exists (\<lambda>s. bumpable (rel_server_id r) s) (servers d)]"

definition enabled_dependent_nodes :: "id64 \<Rightarrow> panel_db \<Rightarrow> id64 list" where
  "enabled_dependent_nodes k d = sort (map pub_id (filter (\<lambda>n. pub_enabled n \<and> node_depends k d n) (published_nodes d)))"

definition disable_proxies :: "id64 \<Rightarrow> panel_db \<Rightarrow> panel_db" where
  "disable_proxies k d = d\<lparr>proxies := sql_update (\<lambda>p. prx_server_id p = k \<and> prx_enabled p) (\<lambda>p. p\<lparr>prx_enabled := False\<rparr>) (proxies d)\<rparr>"

definition disable_relays :: "id64 \<Rightarrow> panel_db \<Rightarrow> panel_db" where
  "disable_relays k d = d\<lparr>relays := sql_update (\<lambda>r. rel_enabled r \<and> relay_depends k d r) (\<lambda>r. r\<lparr>rel_enabled := False\<rparr>) (relays d)\<rparr>"

definition disable_nodes :: "id64 \<Rightarrow> panel_db \<Rightarrow> panel_db" where
  "disable_nodes k d = d\<lparr>published_nodes := sql_update (\<lambda>n. pub_enabled n \<and> node_depends k d n)
     (\<lambda>n. n\<lparr>pub_enabled := False\<rparr>) (published_nodes d)\<rparr>"

definition disable_personal :: "id64 \<Rightarrow> panel_db \<Rightarrow> panel_db" where
  "disable_personal k d = d\<lparr>personal_nodes := sql_update (\<lambda>n. psn_enabled n \<and> personal_depends k d n)
     (\<lambda>n. n\<lparr>psn_enabled := False\<rparr>) (personal_nodes d)\<rparr>"

definition disable_dependents :: "id64 \<Rightarrow> panel_db \<Rightarrow> panel_db" where
  "disable_dependents k d = disable_personal k (disable_nodes k (disable_relays k (disable_proxies k d)))"

text \<open>\<open>ReconcilePublishedNodesSubscribersTx\<close>.\<close>

definition node_subscribers :: "id64 \<Rightarrow> panel_db \<Rightarrow> id64 list" where
  "node_subscribers nid d = sort (remdups [sp_user_id p. p \<leftarrow> subscriber_profiles d, m \<leftarrow> plan_nodes d,
     sp_plan_id p = Some (pn_plan_id m) \<and> pn_node_id m = nid])"

definition reconcile_node ::
  "(id64 list \<Rightarrow> id64 list) \<Rightarrow> (proxy_row \<Rightarrow> proxy_error + string) \<Rightarrow> unix_time \<Rightarrow> id64 \<Rightarrow> id64 list \<times> panel_db \<Rightarrow>
    subscription_error + (id64 list \<times> panel_db)" where
  "reconcile_node shuffle credential now nid st =
     fold_result (reconcile_subscriber_tx shuffle credential now) (node_subscribers nid (snd st)) st"

definition reconcile_nodes ::
  "(id64 list \<Rightarrow> id64 list) \<Rightarrow> (proxy_row \<Rightarrow> proxy_error + string) \<Rightarrow> unix_time \<Rightarrow> id64 list \<Rightarrow> panel_db \<Rightarrow>
    subscription_error + (id64 list \<times> panel_db)" where
  "reconcile_nodes shuffle credential now nids d =
     fold_result (reconcile_node shuffle credential now) (rev (remdups (rev (filter (\<lambda>n. n > 0) nids)))) ([], d)"

text \<open>\<open>bumpDependencyServersTx\<close>: servers that may not change are passed over.\<close>

definition bump_dependency :: "unix_time \<Rightarrow> id64 \<Rightarrow> id64 \<Rightarrow> mutation list \<times> panel_db \<Rightarrow> lifecycle_error + (mutation list \<times> panel_db)" where
  "bump_dependency now k sid st =
     (let (muts, d) = st in
      if sql_count (bumpable sid) (servers d) = 0 then Inr st
      else let d1 = agent_pending now sid (d\<lparr>servers := sql_update (bumpable sid)
                 (\<lambda>s. s\<lparr>srv_version := srv_version s + 1, srv_updated_at := now\<rparr>) (servers d)\<rparr>)
           in case version_of sid d1 of
                None \<Rightarrow> Inl server_gone
              | Some v \<Rightarrow> Inr (muts @ [\<lparr>mut_server_id = sid, mut_version = v\<rparr>], record_operation now sid ''server'' k ''reconcile'' v d1))"

definition bump_dependencies :: "unix_time \<Rightarrow> id64 \<Rightarrow> id64 list \<Rightarrow> panel_db \<Rightarrow> lifecycle_error + (mutation list \<times> panel_db)" where
  "bump_dependencies now k ids d = fold_result (bump_dependency now k) (sort (remdups (filter (\<lambda>s. s \<noteq> k) ids))) ([], d)"

definition cleanup_dependencies ::
  "(id64 list \<Rightarrow> id64 list) \<Rightarrow> (proxy_row \<Rightarrow> proxy_error + string) \<Rightarrow> unix_time \<Rightarrow> id64 \<Rightarrow> panel_db \<Rightarrow>
    lifecycle_error + (mutation list \<times> panel_db)" where
  "cleanup_dependencies shuffle credential now k d =
     (case reconcile_nodes shuffle credential now (enabled_dependent_nodes k d) (disable_dependents k d) of
        Inl e \<Rightarrow> Inl (ErrDependencies e)
      | Inr (nodes, d1) \<Rightarrow>
        (case reconcile_server_subscribers shuffle credential now k d1 of
           Inl e \<Rightarrow> Inl (ErrDependencies e)
         | Inr (subs, d2) \<Rightarrow> bump_dependencies now k (relay_sources k d @ nodes @ subs) d2))"

section \<open>Archiving\<close>

text \<open>What both ways of archiving do once the row is archived.\<close>

definition revoke_agent :: "id64 \<Rightarrow> panel_db \<Rightarrow> panel_db" where
  "revoke_agent k d = d\<lparr>agents := sql_delete (\<lambda>a. agt_server_id a = k) (agents d),
     enrollments := sql_delete (\<lambda>e. enr_server_id e = k \<and> enr_used_at e = None) (enrollments d)\<rparr>"

definition retire_server ::
  "(id64 list \<Rightarrow> id64 list) \<Rightarrow> (proxy_row \<Rightarrow> proxy_error + string) \<Rightarrow> unix_time \<Rightarrow> id64 \<Rightarrow> panel_db \<Rightarrow>
    lifecycle_error + (mutation list \<times> panel_db)" where
  "retire_server shuffle credential now k d = (case cleanup_dependencies shuffle credential now k d of
     Inl e \<Rightarrow> Inl e
   | Inr (muts, d') \<Rightarrow> Inr (muts, revoke_agent k d'))"

definition force_archive ::
  "(id64 list \<Rightarrow> id64 list) \<Rightarrow> (proxy_row \<Rightarrow> proxy_error + string) \<Rightarrow> unix_time \<Rightarrow> id64 \<Rightarrow> panel_db \<Rightarrow>
    lifecycle_error + (mutation list \<times> panel_db)" where
  "force_archive shuffle credential now k d =
     (if sql_count (live_server k) (servers d) = 0 then Inl server_gone
      else retire_server shuffle credential now k (archive_rows now (live_server k) d))"

definition decommission_public_error :: "string \<Rightarrow> string" where
  "decommission_public_error message =
     (let m = trim_space message in
      if m = ''managed runtime purge failed'' then ''managed runtime purge failed''
      else if m = ''Agent self-uninstall launch failed'' then ''Agent self-uninstall launch failed''
      else ''managed runtime purge failed'')"

definition finalize_decommission ::
  "(id64 list \<Rightarrow> id64 list) \<Rightarrow> (proxy_row \<Rightarrow> proxy_error + string) \<Rightarrow> unix_time \<Rightarrow> id64 \<Rightarrow> int \<Rightarrow> string \<Rightarrow> string \<Rightarrow> panel_db \<Rightarrow>
    lifecycle_error + ((bool \<times> mutation list) \<times> panel_db)" where
  "finalize_decommission shuffle credential now k version status message d =
     (case sql_first (live_server k) (servers d) of
        None \<Rightarrow> Inl server_gone
      | Some s \<Rightarrow>
        if version \<noteq> srv_version s \<or> srv_decom_status s \<noteq> ''pending'' \<and> srv_decom_status s \<noteq> ''failed''
        then Inr ((False, []), d)
        else if status = ''failed'' then
          Inr ((False, []), d\<lparr>servers := sql_update (\<lambda>x. srv_id x = k)
            (\<lambda>x. x\<lparr>srv_decom_status := ''failed'', srv_decom_error := decommission_public_error message, srv_updated_at := now\<rparr>) (servers d)\<rparr>)
        else if status \<noteq> ''success'' then Inr ((False, []), d)
        else case retire_server shuffle credential now k (archive_rows now (\<lambda>x. srv_id x = k) d) of
          Inl e \<Rightarrow> Inl e
        | Inr (muts, d') \<Rightarrow> Inr ((True, muts), d'))"

section \<open>Deleting an archived server\<close>

definition delete_archived_dependencies :: "id64 \<Rightarrow> panel_db \<Rightarrow> lifecycle_error + panel_db" where
  "delete_archived_dependencies k d =
     (let d1 = d\<lparr>plan_nodes := sql_delete (\<lambda>m. sql_exists (\<lambda>n. pub_id n = pn_node_id m \<and> node_depends k d n) (published_nodes d)) (plan_nodes d)\<rparr>;
          gone = (\<lambda>n. node_depends k d1 n)
      in if sql_exists (\<lambda>m. sql_exists (\<lambda>n. pub_id n = pn_node_id m \<and> gone n) (published_nodes d1)) (plan_nodes d1) then Inl ErrLifecycleForeignKey
         else
           let d2 = d1\<lparr>list_orders := (list_orders d1)(PublishedNodes := sql_delete
                   (\<lambda>o'. sql_exists (\<lambda>n. pub_id n = ord_resource_id o' \<and> gone n) (published_nodes d1)) (list_orders d1 PublishedNodes)),
                 published_nodes := sql_delete gone (published_nodes d1)\<rparr>;
               d3 = d2\<lparr>subscriber_clients := sql_delete (\<lambda>m. proxy_on k d2 (sc_proxy_id m)) (subscriber_clients d2)\<rparr>;
               cross = (\<lambda>r. rel_server_id r \<noteq> k \<and> relay_uses k d3 r)
           in Inr (d3\<lparr>relays := sql_delete cross (relays d3),
                 reservations := sql_delete (\<lambda>v. res_type v = ''relay'' \<and> sql_exists (\<lambda>r. rel_id r = res_resource_id v \<and> cross r) (relays d3)) (reservations d3),
                 list_orders := (list_orders d3)(Relays := sql_delete
                   (\<lambda>o'. sql_exists (\<lambda>r. rel_id r = ord_resource_id o' \<and> cross r) (relays d3)) (list_orders d3 Relays))\<rparr>))"

text \<open>
  \<open>DELETE FROM servers\<close> with its cascades. The clients and proxies of the server are
  restricted by relays that use them: those of other servers are gone, and for its own
  \<open>relays_first\<close> says whether SQLite cascades to \<open>relays\<close> before \<open>proxies\<close>.
\<close>

definition delete_server_row :: "bool \<Rightarrow> id64 \<Rightarrow> panel_db \<Rightarrow> lifecycle_error + panel_db" where
  "delete_server_row relays_first k d =
     (let own_relay = (\<lambda>rid. sql_exists (\<lambda>r. rel_id r = rid \<and> rel_server_id r = k) (relays d));
          orders = (list_orders d)(Servers := sql_delete (\<lambda>x. ord_resource_id x = k) (list_orders d Servers),
            Proxies := sql_delete (\<lambda>x. proxy_on k d (ord_resource_id x)) (list_orders d Proxies),
            Relays := sql_delete (\<lambda>x. own_relay (ord_resource_id x)) (list_orders d Relays))
      in if sql_exists (\<lambda>n. pub_source_server n = Some k \<or> proxy_on k d (pub_target_proxy n) \<or>
              (case pub_relay n of None \<Rightarrow> False | Some r \<Rightarrow> own_relay r)) (published_nodes d) \<or>
            sql_exists (\<lambda>m. proxy_on k d (sc_proxy_id m)) (subscriber_clients d) \<or>
            sql_exists (\<lambda>r. (rel_server_id r \<noteq> k \<or> \<not> relays_first) \<and> relay_uses k d r) (relays d)
         then Inl ErrLifecycleForeignKey
         else Inr (d\<lparr>
           servers := sql_delete (\<lambda>s. srv_id s = k \<and> srv_archived_at s \<noteq> None) (servers d),
           server_access := sql_delete (\<lambda>a. acc_server_id a = k) (server_access d),
           server_metrics := sql_delete (\<lambda>m. met_server_id m = k) (server_metrics d),
           system_infos := sql_delete (\<lambda>m. sys_server m = k) (system_infos d),
           agents := sql_delete (\<lambda>a. agt_server_id a = k) (agents d),
           enrollments := sql_delete (\<lambda>e. enr_server_id e = k) (enrollments d),
           operations := sql_delete (\<lambda>x. op_server_id x = k) (operations d),
           notification_states := sql_delete (\<lambda>x. ns_server_id x = k) (notification_states d),
           probe_servers := sql_delete (\<lambda>x. pbs_server x = k) (probe_servers d),
           probe_records := sql_delete (\<lambda>x. pbr_server x = k) (probe_records d),
           relays := sql_update (\<lambda>r. case rel_target_client r of None \<Rightarrow> False | Some c \<Rightarrow> client_on k d c)
             (\<lambda>r. r\<lparr>rel_target_client := None\<rparr>) (sql_delete (\<lambda>r. rel_server_id r = k) (relays d)),
           relay_ports := sql_delete (\<lambda>p. crp_server_id p = k \<or> client_on k d (crp_client_id p)) (relay_ports d),
           client_metrics := sql_delete (\<lambda>m. client_on k d (cm_client_id m)) (client_metrics d),
           subscriber_clients := sql_delete (\<lambda>m. client_on k d (sc_client_id m)) (subscriber_clients d),
           clients := sql_delete (\<lambda>c. proxy_on k d (cli_proxy_id c)) (clients d),
           proxies := sql_delete (\<lambda>p. prx_server_id p = k) (proxies d),
           reservations := sql_delete (\<lambda>v. res_server_id v = k) (reservations d),
           list_orders := orders\<rparr>))"

text \<open>\<open>PruneDeletedPersonalSubscriptionSourcesTx\<close>; a JSON column is the map it denotes.\<close>

definition source_missing :: "panel_db \<Rightarrow> personal_node_row \<Rightarrow> bool" where
  "source_missing d n \<longleftrightarrow>
     psn_source_type n = ''proxy'' \<and> \<not> sql_exists (\<lambda>p. prx_id p = psn_source n) (proxies d) \<or>
     psn_source_type n = ''relay'' \<and> \<not> sql_exists (\<lambda>r. rel_id r = psn_source n) (relays d) \<or>
     psn_source_type n = ''landing'' \<and> \<not> sql_exists (\<lambda>l. lan_id l = psn_source n) (landings d)"

definition prune_routing_bindings :: "(string \<times> id64 list) list \<Rightarrow> (id64 \<Rightarrow> bool) \<Rightarrow> (string \<times> id64 list) list" where
  "prune_routing_bindings bindings allowed =
     filter (\<lambda>(_, ids). ids \<noteq> []) (map (\<lambda>(key, ids). (key, filter allowed ids)) bindings)"

definition prune_personal_sources :: "panel_db \<Rightarrow> panel_db" where
  "prune_personal_sources d =
     (let kept = sql_delete (source_missing d) (personal_nodes d) in
      d\<lparr>personal_nodes := kept, personal_groups := sql_update
        (\<lambda>g. sql_exists (\<lambda>n. psn_group n = grp_id g \<and> source_missing d n) (personal_nodes d))
        (\<lambda>g. g\<lparr>grp_bindings := prune_routing_bindings (grp_bindings g)
           (\<lambda>nid. sql_exists (\<lambda>n. psn_group n = grp_id g \<and> psn_id n = nid) kept)\<rparr>) (personal_groups d)\<rparr>)"

definition permanently_delete ::
  "bool \<Rightarrow> (id64 list \<Rightarrow> id64 list) \<Rightarrow> (proxy_row \<Rightarrow> proxy_error + string) \<Rightarrow> unix_time \<Rightarrow> id64 \<Rightarrow> panel_db \<Rightarrow>
    lifecycle_error + (mutation list \<times> panel_db)" where
  "permanently_delete relays_first shuffle credential now k d =
     (case sql_first (\<lambda>s. srv_id s = k) (servers d) of
        None \<Rightarrow> Inl server_gone
      | Some s \<Rightarrow>
        if srv_archived_at s = None then Inl server_gone
        else (case cleanup_dependencies shuffle credential now k d of
            Inl e \<Rightarrow> Inl e
          | Inr (muts, d1) \<Rightarrow>
            (case delete_archived_dependencies k d1 of
               Inl e \<Rightarrow> Inl e
             | Inr d2 \<Rightarrow>
               (case delete_server_row relays_first k d2 of
                  Inl e \<Rightarrow> Inl e
                | Inr d3 \<Rightarrow>
                  if sql_count (\<lambda>s. srv_id s = k \<and> srv_archived_at s \<noteq> None) (servers d2) = 0 then Inl server_gone
                  else Inr (muts, prune_personal_sources d3)))))"

end
