(* ===== verification/LifecycleSafety.thy ===== *)
theory LifecycleSafety
  imports ServerLifecycle
begin

text \<open>
  Properties of the server lifecycle: what archiving and deletion leave behind, which other
  servers are told, and the protocol of a decommissioning.
\<close>

section \<open>What the reconciliation of subscribers leaves alone\<close>

definition untargeted :: "relay_row \<Rightarrow> relay_row" where
  "untargeted r = r\<lparr>rel_target_client := None\<rparr>"

definition same_world :: "panel_db \<Rightarrow> panel_db \<Rightarrow> bool" where
  "same_world d d' \<longleftrightarrow> same_catalog d d' \<and> personal_nodes d' = personal_nodes d \<and> enrollments d' = enrollments d \<and>
     probe_servers d' = probe_servers d \<and> probe_records d' = probe_records d \<and>
     map untargeted (relays d') = map untargeted (relays d)"

lemma same_world_refl [simp]: "same_world d d"
  by (simp add: same_world_def)

lemma same_world_trans [trans]: "same_world d d1 \<Longrightarrow> same_world d1 d2 \<Longrightarrow> same_world d d2"
  by (simp add: same_world_def same_catalog_def)

lemma same_world_catalog: "same_world d d' \<Longrightarrow> same_catalog d d'"
  by (simp add: same_world_def)

lemma fold_world:
  assumes "fold_result f xs s = Inr s'" "\<And>x s s'. f x s = Inr s' \<Longrightarrow> same_world (g s) (g s')"
  shows "same_world (g s) (g s')"
proof (rule fold_result_inv [where P = "\<lambda>s'. same_world (g s) (g s')", OF assms(1)])
  fix x s1 s2
  assume "same_world (g s) (g s1)" "f x s1 = Inr s2"
  then show "same_world (g s) (g s2)"
    using assms(2) same_world_trans by blast
qed simp

lemma delete_client_world: "delete_client cid d = Inr d' \<Longrightarrow> same_world d d'"
  by (auto simp: delete_client_def same_world_def same_catalog_def sql_update_def untargeted_def split: if_splits)

lemma create_client_world:
  "create_subscriber_client credential now uid pid name effective d = Inr (r, d') \<Longrightarrow> same_world d d'"
  unfolding create_subscriber_client_def
  by (auto simp: same_world_def same_catalog_def Let_def split: sum.splits option.splits if_splits)

lemma existing_world:
  assumes "reconcile_existing now uid active required entry st = Inr st'"
  shows "same_world (rs_db st) (rs_db st')"
proof (cases "required (fst entry) = None")
  case True
  let ?d1 = "(rs_db st)\<lparr>subscriber_usage := sql_update (\<lambda>u. su_user_id u = uid)
      (\<lambda>u. u\<lparr>su_archived_up := saturating_add (rs_up st) (ex_up (snd entry)),
        su_archived_down := saturating_add (rs_down st) (ex_down (snd entry)), su_updated_at := now\<rparr>) (subscriber_usage (rs_db st))\<rparr>"
  have "delete_client (ex_client (snd entry)) ?d1 = Inr (rs_db st')"
    using assms True by (auto simp: reconcile_existing_def Let_def split: prod.splits sum.splits)
  then have "same_world ?d1 (rs_db st')"
    by (rule delete_client_world)
  moreover have "same_world (rs_db st) ?d1"
    by (simp add: same_world_def same_catalog_def)
  ultimately show ?thesis
    using same_world_trans by blast
next
  case False
  then show ?thesis
    using assms by (auto simp: reconcile_existing_def Let_def same_world_def same_catalog_def split: prod.splits if_splits)
qed

lemma required_world:
  assumes "reconcile_required credential now uid username active existing entry st = Inr st'"
  shows "same_world (rs_db st) (rs_db st')"
proof (cases "existing (fst entry) = None")
  case True
  then obtain r d1 x where "create_subscriber_client credential now uid (fst entry)
      (subscriber_client_name username (rq_name (snd entry))) active (rs_db st) = Inr (r, d1)"
    "rs_db st' = d1\<lparr>subscriber_clients := x\<rparr>"
    using assms by (auto simp: reconcile_required_def split: prod.splits sum.splits if_splits)
  then have "same_world (rs_db st) d1" "same_world d1 (rs_db st')"
    by (auto dest: create_client_world simp: same_world_def same_catalog_def)
  then show ?thesis
    using same_world_trans by blast
next
  case False
  then show ?thesis
    using assms by (auto simp: reconcile_required_def split: prod.splits)
qed

lemma reset_world: "reset_subscriber_cycle_if_due now uid d = Inr (fired, d') \<Longrightarrow> same_world d d'"
  by (auto simp: reset_subscriber_cycle_if_due_def start_subscriber_cycle_def same_world_def same_catalog_def
      split: option.splits sum.splits if_splits)

lemma tx_world:
  assumes "reconcile_subscriber_tx shuffle credential now uid st = Inr st'"
  shows "same_world (snd st) (snd st')"
proof -
  obtain fired d0 u p plan v where r: "reset_subscriber_cycle_if_due now uid (snd st) = Inr (fired, d0)"
    "subscriber_row uid d0 = Some (u, p, plan, v)"
    using assms by (auto simp: reconcile_subscriber_tx_def split: sum.splits option.splits)
  define active where "active = subscriber_active now p plan (current_subscriber_usage uid (su_archived_up v) (su_archived_down v) d0)"
  define required where "required = (case sp_plan_id p of None \<Rightarrow> [] | Some k \<Rightarrow> required_rows k d0)"
  define st1 where "st1 = \<lparr>rs_db = d0, rs_up = su_archived_up v, rs_down = su_archived_down v, rs_affected = fst st\<rparr>"
  have "(case fold_result (reconcile_existing now uid active (go_map required)) (go_entries shuffle (existing_rows uid d0)) st1 of
        Inl e \<Rightarrow> Inl e
      | Inr st2 \<Rightarrow> (case fold_result (reconcile_required credential now uid (usr_username u) active (go_map (existing_rows uid d0)))
           (go_entries shuffle required) st2 of Inl e \<Rightarrow> Inl e | Inr st3 \<Rightarrow> Inr (rs_affected st3, rs_db st3))) = Inr st'"
    using assms r unfolding active_def required_def st1_def by (simp add: reconcile_subscriber_tx_def Let_def)
  then obtain st2 st3 where
    f: "fold_result (reconcile_existing now uid active (go_map required)) (go_entries shuffle (existing_rows uid d0)) st1 = Inr st2"
      "fold_result (reconcile_required credential now uid (usr_username u) active (go_map (existing_rows uid d0)))
         (go_entries shuffle required) st2 = Inr st3" "snd st' = rs_db st3"
    by (auto split: sum.splits)
  have "same_world (rs_db st1) (rs_db st2)"
    by (rule fold_world [where g = rs_db, OF f(1)]) (rule existing_world)
  also have "same_world (rs_db st2) (rs_db st3)"
    by (rule fold_world [where g = rs_db, OF f(2)]) (rule required_world)
  finally show ?thesis
    using reset_world [OF r(1)] same_world_trans by (simp add: f(3) st1_def)
qed

lemma node_world: "reconcile_node shuffle credential now nid s = Inr s' \<Longrightarrow> same_world (snd s) (snd s')"
  unfolding reconcile_node_def by (erule fold_world [where g = snd]) (erule tx_world)

lemma nodes_world:
  assumes "reconcile_nodes shuffle credential now nids d = Inr st'"
  shows "same_world d (snd st')"
  using fold_world [where g = snd, OF assms [unfolded reconcile_nodes_def] node_world] by simp

lemma server_subscribers_world:
  assumes "reconcile_server_subscribers shuffle credential now k d = Inr st'"
  shows "same_world d (snd st')"
  using fold_world [where g = snd, OF assms [unfolded reconcile_server_subscribers_def] tx_world] by simp


section \<open>No mapping is left on an archived server\<close>

definition mapped_users :: "id64 \<Rightarrow> panel_db \<Rightarrow> id64 set" where
  "mapped_users k d = sc_user_id ` {m \<in> set (subscriber_clients d). proxy_on k d (sc_proxy_id m)}"

definition archived :: "id64 \<Rightarrow> panel_db \<Rightarrow> bool" where
  "archived k d \<longleftrightarrow> (\<forall>s \<in> set (servers d). srv_id s = k \<longrightarrow> srv_archived_at s \<noteq> None)"

lemma reset_mappings:
  assumes "reset_subscriber_cycle_if_due now uid d = Inr (fired, d')"
  shows "map (\<lambda>m. (sc_user_id m, sc_proxy_id m)) (subscriber_clients d') = map (\<lambda>m. (sc_user_id m, sc_proxy_id m)) (subscriber_clients d)"
  using assms by (auto simp: reset_subscriber_cycle_if_due_def start_subscriber_cycle_def sql_update_def
      split: option.splits sum.splits if_splits)

lemma required_not_archived:
  assumes "subscribers_ok d" "archived k d" "pid \<in> required_keys p d"
  shows "\<not> proxy_on k d pid"
proof
  assume "proxy_on k d pid"
  then obtain q where q: "q \<in> set (proxies d)" "prx_id q = pid" "prx_server_id q = k"
    by (auto simp: proxy_on_def sql_exists_iff)
  obtain q' s where q': "q' \<in> set (proxies d)" "prx_id q' = pid" "s \<in> set (servers d)" "srv_id s = prx_server_id q'" "srv_archived_at s = None"
    using assms(3) by (auto simp: required_keys_def required_rows_def split: option.splits)
  have "q' = q"
    using distinct_key_unique [of prx_id "proxies d" q' q] assms(1) q q' by (simp add: subscribers_ok_def)
  then show False
    using assms(2) q q' by (auto simp: archived_def)
qed

lemma tx_unmapped:
  assumes "reconcile_subscriber_tx shuffle credential now uid st = Inr st'" "permutes shuffle"
    and "subscribers_ok (snd st)" "archived k (snd st)"
  shows "subscribers_ok (snd st')" "mapped_users k (snd st') \<subseteq> mapped_users k (snd st) - {uid}"
proof -
  obtain aff d aff' d' where st: "st = (aff, d)" "st' = (aff', d')"
    by (cases st; cases st')
  obtain fired d0 p active where r: "reset_subscriber_cycle_if_due now uid d = Inr (fired, d0)"
    "reconciled uid active (required_keys p d0) d0 d' (set aff')" "subscribers_ok d'"
    using reconcile_tx_effect [OF _ assms(2), of d credential now uid aff aff' d'] assms(1,3) by (auto simp: st)
  then show "subscribers_ok (snd st')"
    by (simp add: st)
  have same: "servers d0 = servers d" "proxies d0 = proxies d" "proxies d' = proxies d"
    using reset_world [OF r(1)] r(2) by (auto simp: same_world_def same_catalog_def reconciled_def)
  have ok0: "subscribers_ok d0" "archived k d0"
    using reset_keeps_ok [OF r(1)] assms(3,4) same by (simp_all add: st archived_def)
  have "u \<noteq> uid \<and> u \<in> mapped_users k d" if u: "u \<in> mapped_users k d'" for u
  proof -
    obtain m where m: "m \<in> set (subscriber_clients d')" "proxy_on k d' (sc_proxy_id m)" "u = sc_user_id m"
      using u by (auto simp: mapped_users_def)
    have on: "proxy_on k d0 (sc_proxy_id m)"
      using m(2) by (simp add: proxy_on_def same)
    have other: "sc_user_id m \<noteq> uid"
    proof
      assume "sc_user_id m = uid"
      then have "sc_proxy_id m \<in> required_keys p d0"
        using r(2) m(1) unfolding reconciled_def by blast
      then show False
        using required_not_archived [OF ok0] on by blast
    qed
    have eq: "filter (\<lambda>m. sc_user_id m \<noteq> uid) (subscriber_clients d') = filter (\<lambda>m. sc_user_id m \<noteq> uid) (subscriber_clients d0)"
      using r(2) by (simp add: reconciled_def)
    have "m \<in> set (filter (\<lambda>m. sc_user_id m \<noteq> uid) (subscriber_clients d0))"
      unfolding eq [symmetric] using m(1) other by simp
    then have "m \<in> set (subscriber_clients d0)"
      by simp
    then have "(sc_user_id m, sc_proxy_id m) \<in> set (map (\<lambda>m. (sc_user_id m, sc_proxy_id m)) (subscriber_clients d))"
      unfolding reset_mappings [OF r(1), symmetric] by force
    then obtain m0 where "m0 \<in> set (subscriber_clients d)" "sc_user_id m0 = sc_user_id m" "sc_proxy_id m0 = sc_proxy_id m"
      by auto
    moreover have "proxy_on k d (sc_proxy_id m)"
      using on by (simp add: proxy_on_def same)
    ultimately have "sc_user_id m \<in> mapped_users k d"
      unfolding mapped_users_def by (metis (mono_tags, lifting) image_eqI mem_Collect_eq)
    with other show ?thesis
      by (simp add: m(3))
  qed
  then show "mapped_users k (snd st') \<subseteq> mapped_users k (snd st) - {uid}"
    by (auto simp: st)
qed

lemma archived_world: "same_world d d' \<Longrightarrow> archived k d' = archived k d"
  by (simp add: archived_def same_world_def same_catalog_def)

lemma fold_unmapped:
  assumes "fold_result (reconcile_subscriber_tx shuffle credential now) us st = Inr st'" "permutes shuffle"
    and "subscribers_ok (snd st)" "archived k (snd st)"
  shows "subscribers_ok (snd st') \<and> mapped_users k (snd st') \<subseteq> mapped_users k (snd st) - set us"
  using assms
proof (induction us arbitrary: st)
  case (Cons u us)
  obtain st1 where s: "reconcile_subscriber_tx shuffle credential now u st = Inr st1"
    "fold_result (reconcile_subscriber_tx shuffle credential now) us st1 = Inr st'"
    using Cons.prems(1) by (auto split: sum.splits)
  note one = tx_unmapped [OF s(1) Cons.prems(2-4)]
  have "archived k (snd st1)"
    using archived_world [OF tx_world [OF s(1)]] Cons.prems(4) by simp
  with Cons.IH [OF s(2) Cons.prems(2) one(1)] one(2) show ?case
    by auto
qed simp

lemma nodes_unmapped:
  assumes "reconcile_nodes shuffle credential now nids d = Inr st'" "permutes shuffle" "subscribers_ok d" "archived k d"
  shows "subscribers_ok (snd st') \<and> archived k (snd st') \<and> mapped_users k (snd st') \<subseteq> mapped_users k d"
proof -
  have "subscribers_ok (snd s2) \<and> archived k (snd s2) \<and> mapped_users k (snd s2) \<subseteq> mapped_users k d"
    if inv: "subscribers_ok (snd s1) \<and> archived k (snd s1) \<and> mapped_users k (snd s1) \<subseteq> mapped_users k d"
      and s: "reconcile_node shuffle credential now nid s1 = Inr s2" for nid s1 s2
  proof -
    have "archived k (snd s2) = archived k (snd s1)"
      by (rule archived_world [OF node_world [OF s]])
    then show ?thesis
      using fold_unmapped [OF s [unfolded reconcile_node_def] assms(2), of k] inv by auto
  qed
  note step = this
  show ?thesis
    by (rule fold_result_inv [OF assms(1) [unfolded reconcile_nodes_def]])
      (use assms(3,4) in simp, rule step)
qed

lemma server_subscribers_unmapped:
  assumes "reconcile_server_subscribers shuffle credential now k d = Inr st'" "permutes shuffle" "subscribers_ok d" "archived k d"
  shows "subscribers_ok (snd st')" "mapped_users k (snd st') = {}"
proof -
  let ?us = "sort (remdups [sc_user_id m. m \<leftarrow> subscriber_clients d, p \<leftarrow> proxies d, prx_id p = sc_proxy_id m \<and> prx_server_id p = k])"
  have "mapped_users k d \<subseteq> set ?us"
    by (auto simp: mapped_users_def proxy_on_def sql_exists_iff)
  then show "subscribers_ok (snd st')" "mapped_users k (snd st') = {}"
    using fold_unmapped [OF assms(1) [unfolded reconcile_server_subscribers_def] assms(2), of k] assms(3,4) by auto
qed


section \<open>The servers that are told\<close>

text \<open>The state of a server row, and what a bump of the servers \<open>ids\<close> makes of it.\<close>

type_synonym server_state = "(id64 \<times> unix_time option \<times> unix_time option \<times> string \<times> string) \<times> int"

definition state_of_server :: "server_row \<Rightarrow> server_state" where
  "state_of_server s = ((srv_id s, srv_archived_at s, srv_decom_at s, srv_decom_status s, srv_status s), srv_version s)"

fun bump_state :: "id64 set \<Rightarrow> server_state \<Rightarrow> server_state" where
  "bump_state ids ((i, a, t, ds, st), v) = ((i, a, t, ds, st), v + (if i \<in> ids \<and> a = None \<and> ds = [] then 1 else 0))"

definition bumps :: "panel_db \<Rightarrow> id64 list \<Rightarrow> mutation list" where
  "bumps d ids = map (\<lambda>i. \<lparr>mut_server_id = i, mut_version = the (version_of i d) + 1\<rparr>)
     (filter (\<lambda>i. sql_exists (bumpable i) (servers d)) ids)"

definition told :: "panel_db \<Rightarrow> mutation \<Rightarrow> bool" where
  "told d m \<longleftrightarrow> version_of (mut_server_id m) d = Some (mut_version m) \<and>
     (\<exists>r \<in> set (operations d). op_server_id r = mut_server_id m \<and> op_version r = mut_version m \<and> op_status r = ''pending'')"

definition unbumped :: "panel_db \<Rightarrow> panel_db" where
  "unbumped d = d\<lparr>servers := [], agents := [], operations := [], operations_seq := 0\<rparr>"

definition bumped :: "id64 list \<Rightarrow> panel_db \<Rightarrow> panel_db \<Rightarrow> bool" where
  "bumped ids d d' \<longleftrightarrow>
     unbumped d' = unbumped d \<and>
     map state_of_server (servers d') = map (\<lambda>s. bump_state (set ids) (state_of_server s)) (servers d) \<and>
     map agt_server_id (agents d') = map agt_server_id (agents d)"

lemma version_bump:
  assumes "distinct (map srv_id (servers d))" "s \<in> set (servers d)" "bumpable i s"
  shows "version_of i (d\<lparr>servers := sql_update (bumpable i) (\<lambda>s. s\<lparr>srv_version := srv_version s + 1, srv_updated_at := now\<rparr>) (servers d)\<rparr>)
      = Some (srv_version s + 1)" "version_of i d = Some (srv_version s)"
proof -
  have i: "srv_id s = i"
    using assms(3) by (simp add: bumpable_def)
  let ?t = "sql_update (bumpable i) (\<lambda>s. s\<lparr>srv_version := srv_version s + 1, srv_updated_at := now\<rparr>) (servers d)"
  have "sql_first (\<lambda>s. srv_id s = i) ?t = Some (s\<lparr>srv_version := srv_version s + 1, srv_updated_at := now\<rparr>)"
  proof (rule sql_first_pred_key [where key = srv_id])
    show "distinct (map srv_id ?t)"
      by (simp add: map_sql_update_key assms(1))
    show "s\<lparr>srv_version := srv_version s + 1, srv_updated_at := now\<rparr> \<in> set ?t"
      using assms(2,3) by (auto simp: set_sql_update)
  qed (use i in simp_all)
  then show "version_of i (d\<lparr>servers := ?t\<rparr>) = Some (srv_version s + 1)"
    by (simp add: version_of_def)
  have "sql_first (\<lambda>s. srv_id s = i) (servers d) = Some s"
    by (rule sql_first_pred_key [where key = srv_id]) (use assms(1,2) i in simp_all)
  then show "version_of i d = Some (srv_version s)"
    by (simp add: version_of_def)
qed


lemma bump_state_twice: "I \<inter> J = {} \<Longrightarrow> bump_state I (bump_state J x) = bump_state (I \<union> J) x"
  by (cases "(I, x)" rule: bump_state.cases) auto

lemma bump_state_none: "bump_state {} x = x"
  by (cases "(Set.empty :: id64 set, x)" rule: bump_state.cases) auto

lemma bumped_refl: "(\<And>s. s \<in> set (servers d) \<Longrightarrow> \<not> bumpable i s) \<Longrightarrow> bumped [i] d d"
  by (auto simp: bumped_def state_of_server_def bumpable_def)

lemma bumped_nil: "bumped [] d d"
  by (simp add: bumped_def bump_state_none)

lemma bumped_Cons:
  assumes "bumped [i] d d1" "bumped is d1 d2" "i \<notin> set is"
  shows "bumped (i # is) d d2"
proof -
  have s1: "map state_of_server (servers d1) = map (\<lambda>s. bump_state {i} (state_of_server s)) (servers d)"
    using assms(1) by (simp add: bumped_def)
  have "map state_of_server (servers d2) = map (bump_state (set is)) (map state_of_server (servers d1))"
    using assms(2) by (simp add: bumped_def o_def)
  also have "\<dots> = map (\<lambda>s. bump_state (set (i # is)) (state_of_server s)) (servers d)"
    unfolding s1 using assms(3) by (simp add: bump_state_twice insert_commute)
  finally show ?thesis
    using assms(1,2) unfolding bumped_def by simp
qed

lemma told_other:
  assumes "told d m" "mut_server_id m \<noteq> i" "\<And>r. r \<in> set (operations d) \<Longrightarrow> op_server_id r \<noteq> i \<Longrightarrow> r \<in> set (operations d')"
    and "version_of (mut_server_id m) d' = version_of (mut_server_id m) d"
  shows "told d' m"
  using assms unfolding told_def by metis

lemma bump_step:
  assumes "bump_dependency now k i (muts, d) = Inr (muts', d')" "distinct (map srv_id (servers d))"
  shows "muts' = muts @ bumps d [i]" "bumped [i] d d'" "\<forall>m \<in> set (bumps d [i]). told d' m"
    "\<And>m. told d m \<Longrightarrow> mut_server_id m \<noteq> i \<Longrightarrow> told d' m"
proof -
  have "muts' = muts @ bumps d [i] \<and> bumped [i] d d' \<and> (\<forall>m \<in> set (bumps d [i]). told d' m) \<and>
      (\<forall>m. told d m \<and> mut_server_id m \<noteq> i \<longrightarrow> told d' m)"
  proof (cases "sql_exists (bumpable i) (servers d)")
    case False
    then have none: "\<not> bumpable i s" if "s \<in> set (servers d)" for s
      using that by (simp add: sql_exists_iff)
    then have "sql_count (bumpable i) (servers d) = 0"
      by (simp add: sql_count_zero_iff)
    then have "muts' = muts" "d' = d"
      using assms(1) by (simp_all add: bump_dependency_def)
    then show ?thesis
      using False bumped_refl [of d, OF none] by (simp add: bumps_def)
  next
    case True
    then obtain s where s: "s \<in> set (servers d)" "bumpable i s"
      by (auto simp: sql_exists_iff)
    let ?t = "sql_update (bumpable i) (\<lambda>s. s\<lparr>srv_version := srv_version s + 1, srv_updated_at := now\<rparr>) (servers d)"
    let ?d1 = "agent_pending now i (d\<lparr>servers := ?t\<rparr>)"
    note v = version_bump(1) [OF assms(2) s, where now = now] version_bump(2) [OF assms(2) s]
    have "sql_count (bumpable i) (servers d) \<noteq> 0"
      using s by (auto simp: sql_count_zero_iff)
    moreover have v1: "version_of i ?d1 = Some (srv_version s + 1)"
      using v(1) by (simp add: version_of_def agent_pending_def)
    ultimately have r: "muts' = muts @ [\<lparr>mut_server_id = i, mut_version = srv_version s + 1\<rparr>]"
        "d' = record_operation now i ''server'' k ''reconcile'' (srv_version s + 1) ?d1"
      using assms(1) by (simp_all add: bump_dependency_def Let_def)
    have b: "bumps d [i] = [\<lparr>mut_server_id = i, mut_version = srv_version s + 1\<rparr>]"
      using True by (simp add: bumps_def v(2))
    have vs: "version_of j d' = (if j = i then Some (srv_version s + 1) else version_of j d)" for j
    proof (cases "j = i")
      case False
      then have "sql_first (\<lambda>s. srv_id s = j) ?t = sql_first (\<lambda>s. srv_id s = j) (servers d)"
        by (intro sql_first_update_other) (auto simp: bumpable_def)
      with False show ?thesis
        by (simp add: r(2) version_of_def record_operation_def agent_pending_def)
    qed (use v1 in \<open>simp add: r(2) version_of_def record_operation_def\<close>)
    have ops: "r \<in> set (operations d')" if "r \<in> set (operations d)" "op_server_id r \<noteq> i" for r
      using that by (auto simp: r(2) record_operation_def agent_pending_def set_sql_update)
    have "bumped [i] d d'"
      unfolding bumped_def r(2) record_operation_def agent_pending_def
      by (auto simp: sql_update_def state_of_server_def bumpable_def unbumped_def)
    moreover have "\<exists>r \<in> set (operations d'). op_server_id r = i \<and> op_version r = srv_version s + 1 \<and> op_status r = ''pending''"
      unfolding r(2) record_operation_def by simp
    ultimately show ?thesis
      using r(1) b vs told_other [of d _ i d'] ops unfolding told_def by simp
  qed
  then show "muts' = muts @ bumps d [i]" "bumped [i] d d'" "\<forall>m \<in> set (bumps d [i]). told d' m"
    "\<And>m. told d m \<Longrightarrow> mut_server_id m \<noteq> i \<Longrightarrow> told d' m"
    by blast+
qed


lemma unbumped_tables:
  assumes "unbumped d' = unbumped d"
  shows "proxies d' = proxies d" "relays d' = relays d" "published_nodes d' = published_nodes d" "personal_nodes d' = personal_nodes d"
    "subscriber_clients d' = subscriber_clients d" "clients d' = clients d" "enrollments d' = enrollments d"
    "probe_servers d' = probe_servers d" "probe_records d' = probe_records d" "plan_nodes d' = plan_nodes d"
  using arg_cong [OF assms, of proxies] arg_cong [OF assms, of relays] arg_cong [OF assms, of published_nodes]
    arg_cong [OF assms, of personal_nodes] arg_cong [OF assms, of subscriber_clients] arg_cong [OF assms, of clients]
    arg_cong [OF assms, of enrollments] arg_cong [OF assms, of probe_servers] arg_cong [OF assms, of probe_records]
    arg_cong [OF assms, of plan_nodes]
  by (simp_all add: unbumped_def)

lemma bumped_ids:
  assumes "bumped ids d d'"
  shows "map srv_id (servers d') = map srv_id (servers d)"
proof -
  have "map (fst \<circ> fst) (map state_of_server (servers d')) = map (fst \<circ> fst) (map (\<lambda>s. bump_state (set ids) (state_of_server s)) (servers d))"
    using assms by (simp add: bumped_def)
  then show ?thesis
    by (simp add: o_def state_of_server_def)
qed

lemma find_mapped: "find P (map f xs) = map_option f (find (\<lambda>x. P (f x)) xs)"
  by (induction xs) auto

lemma bumps_other:
  assumes "bumped [i] d d'" "i \<notin> set is"
  shows "bumps d' is = bumps d is"
proof -
  have st: "map state_of_server (servers d') = map (\<lambda>s. bump_state {i} (state_of_server s)) (servers d)"
    using assms(1) by (simp add: bumped_def)
  have look: "version_of j e = map_option snd (find (\<lambda>x. fst (fst x) = j) (map state_of_server (servers e)))"
    "sql_exists (bumpable j) (servers e) = list_ex (\<lambda>((k, a, t, ds, st), v). k = j \<and> a = None \<and> ds = []) (map state_of_server (servers e))" for j e
    by (simp_all add: version_of_def sql_first_def sql_exists_def find_mapped o_def state_of_server_def option.map_comp list_ex_iff bumpable_def)
  have keep: "find (\<lambda>x. fst (fst x) = j) (map (\<lambda>s. bump_state {i} (state_of_server s)) xs) = find (\<lambda>x. fst (fst x) = j) (map state_of_server xs)"
    "list_ex (\<lambda>((k, a, t, ds, st), v). k = j \<and> a = None \<and> ds = []) (map (\<lambda>s. bump_state {i} (state_of_server s)) xs) =
      list_ex (\<lambda>((k, a, t, ds, st), v). k = j \<and> a = None \<and> ds = []) (map state_of_server xs)" if "j \<noteq> i" for j and xs :: "server_row list"
    using that by (induction xs) (auto simp: state_of_server_def)
  have ne: "j \<noteq> i" if "j \<in> set is" for j
    using that assms(2) by auto
  have "version_of j d' = version_of j d" "sql_exists (bumpable j) (servers d') = sql_exists (bumpable j) (servers d)" if "j \<in> set is" for j
    unfolding look st by (simp_all add: keep [OF ne [OF that]])
  then show ?thesis
    unfolding bumps_def by (intro map_cong filter_cong) simp_all
qed

lemma bump_fold:
  assumes "fold_result (bump_dependency now k) is (muts, d) = Inr (muts', d')" "distinct is" "distinct (map srv_id (servers d))"
  shows "muts' = muts @ bumps d is \<and> bumped is d d' \<and> (\<forall>m \<in> set (bumps d is). told d' m) \<and>
    (\<forall>m. told d m \<and> mut_server_id m \<notin> set is \<longrightarrow> told d' m)"
  using assms
proof (induction "is" arbitrary: muts d)
  case Nil
  then show ?case
    using bumped_nil by (simp add: bumps_def)
next
  case (Cons i rest)
  obtain muts1 d1 where s: "bump_dependency now k i (muts, d) = Inr (muts1, d1)"
    "fold_result (bump_dependency now k) rest (muts1, d1) = Inr (muts', d')"
    using Cons.prems(1) by (auto split: sum.splits)
  note one = bump_step [OF s(1) Cons.prems(3)]
  have i: "i \<notin> set rest"
    using Cons.prems(2) by simp
  note later = Cons.IH [OF s(2)]
  have l: "muts' = muts1 @ bumps d1 rest" "bumped rest d1 d'" "\<forall>m \<in> set (bumps d1 rest). told d' m"
    "\<And>m. told d1 m \<Longrightarrow> mut_server_id m \<notin> set rest \<Longrightarrow> told d' m"
    using later Cons.prems(2,3) bumped_ids [OF one(2)] by simp_all
  have parts: "bumps d (i # rest) = bumps d [i] @ bumps d1 rest"
    unfolding bumps_other [OF one(2) i] by (simp add: bumps_def)
  have "mut_server_id m = i" if "m \<in> set (bumps d [i])" for m
    using that by (auto simp: bumps_def split: if_splits)
  then have "\<forall>m \<in> set (bumps d [i]). told d' m"
    using one(3) l(4) i by auto
  then show ?case
    using l one(1) bumped_Cons [OF one(2) l(2) i] one(4) parts by auto
qed


section \<open>The clients of servers that are not told\<close>

definition proxy_clients :: "id64 \<Rightarrow> panel_db \<Rightarrow> client_row set" where
  "proxy_clients pid d = {c \<in> set (clients d). \<exists>m \<in> set (subscriber_clients d). sc_proxy_id m = pid \<and> sc_client_id m = cli_id c}"

text \<open>The reconciliation behind \<open>d'\<close> and \<open>aff\<close> changed clients only on the servers \<open>aff\<close>.\<close>

definition changed_on :: "id64 list \<Rightarrow> panel_db \<Rightarrow> panel_db \<Rightarrow> bool" where
  "changed_on aff d d' \<longleftrightarrow> proxies d' = proxies d \<and>
     (\<forall>p \<in> set (proxies d). prx_server_id p \<notin> set aff \<longrightarrow> proxy_clients (prx_id p) d' = proxy_clients (prx_id p) d)"

lemma reset_clients:
  assumes "reset_subscriber_cycle_if_due now uid d = Inr (fired, d')"
  shows "proxy_clients pid d' = proxy_clients pid d"
proof -
  let ?key = "\<lambda>m. (sc_proxy_id m, sc_client_id m)"
  have pc: "proxy_clients pid e = {c \<in> set (clients e). (pid, cli_id c) \<in> set (map ?key (subscriber_clients e))}" for e
    by (auto simp: proxy_clients_def image_iff)
  have "d' = d \<or> (\<exists>start. d' = start_subscriber_cycle start now uid d)"
    using assms unfolding reset_subscriber_cycle_if_due_def by (auto split: option.splits sum.splits if_splits)
  moreover have "clients (start_subscriber_cycle start now uid d) = clients d"
    "map ?key (subscriber_clients (start_subscriber_cycle start now uid d)) = map ?key (subscriber_clients d)" for start
    by (simp_all add: start_subscriber_cycle_def sql_update_def)
  ultimately have "clients d' = clients d \<and> map ?key (subscriber_clients d') = map ?key (subscriber_clients d)"
    by (elim disjE exE) (simp_all only: simp_thms)
  then show ?thesis
    unfolding pc by (simp only:)
qed

lemma reconciled_clients:
  assumes "reconciled uid active req d d' aff" "p \<in> set (proxies d)" "prx_server_id p \<notin> aff"
  shows "proxy_clients (prx_id p) d' = proxy_clients (prx_id p) d"
proof -
  have f: "filter (\<lambda>m. sc_proxy_id m = prx_id p) (subscriber_clients d') = filter (\<lambda>m. sc_proxy_id m = prx_id p) (subscriber_clients d)"
    and c: "\<And>c. cli_id c \<in> sc_client_id ` {m \<in> set (subscriber_clients d). sc_proxy_id m = prx_id p} \<Longrightarrow>
        c \<in> set (clients d') \<longleftrightarrow> c \<in> set (clients d)"
    using assms unfolding reconciled_def by blast+
  have e: "proxy_clients (prx_id p) e = {c \<in> set (clients e). cli_id c \<in> sc_client_id ` set (filter (\<lambda>m. sc_proxy_id m = prx_id p) (subscriber_clients e))}" for e
    by (auto simp: proxy_clients_def image_iff)
  show ?thesis
    unfolding e f using c by auto
qed

lemma tx_changed:
  assumes "reconcile_subscriber_tx shuffle credential now uid st = Inr st'" "permutes shuffle" "subscribers_ok (snd st)"
  shows "set (fst st) \<subseteq> set (fst st') \<and> subscribers_ok (snd st') \<and> changed_on (fst st') (snd st) (snd st')"
proof -
  obtain aff d aff' d' where st: "st = (aff, d)" "st' = (aff', d')"
    by (cases st; cases st')
  obtain fired d0 p active where r: "reset_subscriber_cycle_if_due now uid d = Inr (fired, d0)"
    "reconciled uid active (required_keys p d0) d0 d' (set aff')" "set aff \<subseteq> set aff'" "subscribers_ok d'"
    using reconcile_tx_effect [OF _ assms(2), of d credential now uid aff aff' d'] assms(1,3) by (auto simp: st)
  have same: "proxies d0 = proxies d" "proxies d' = proxies d"
    using reset_world [OF r(1)] r(2) by (auto simp: same_world_def same_catalog_def reconciled_def)
  show ?thesis
    using reconciled_clients [OF r(2)] reset_clients [OF r(1)] r(3,4) same by (simp add: st changed_on_def)
qed

lemma changed_trans:
  assumes "changed_on aff d d1" "changed_on aff' d1 d2" "set aff \<subseteq> set aff'"
  shows "changed_on aff' d d2"
  using assms unfolding changed_on_def by auto

lemma fold_changed:
  assumes "fold_result f xs st = Inr st'" "subscribers_ok (snd st)"
    and "\<And>x s s'. f x s = Inr s' \<Longrightarrow> subscribers_ok (snd s) \<Longrightarrow>
      set (fst s) \<subseteq> set (fst s') \<and> subscribers_ok (snd s') \<and> changed_on (fst s') (snd s) (snd s')"
  shows "set (fst st) \<subseteq> set (fst st') \<and> subscribers_ok (snd st') \<and> changed_on (fst st') (snd st) (snd st')"
  using assms(1,2)
proof (induction xs arbitrary: st)
  case Nil
  then show ?case by (simp add: changed_on_def)
next
  case (Cons x xs)
  obtain s where s: "f x st = Inr s" "fold_result f xs s = Inr st'"
    using Cons.prems(1) by (auto split: sum.splits)
  note one = assms(3) [OF s(1) Cons.prems(2)]
  then have "set (fst s) \<subseteq> set (fst st') \<and> subscribers_ok (snd st') \<and> changed_on (fst st') (snd s) (snd st')"
    using Cons.IH [OF s(2)] by blast
  with one changed_trans show ?case by blast
qed

lemma nodes_changed:
  assumes "reconcile_nodes shuffle credential now nids d = Inr (aff, d')" "permutes shuffle" "subscribers_ok d"
  shows "changed_on aff d d'"
proof -
  have step: "set (fst s) \<subseteq> set (fst s') \<and> subscribers_ok (snd s') \<and> changed_on (fst s') (snd s) (snd s')"
    if "reconcile_node shuffle credential now nid s = Inr s'" "subscribers_ok (snd s)" for nid s s'
    using that(1) unfolding reconcile_node_def
    by (rule fold_changed) (use that(2) tx_changed [OF _ assms(2)] in blast)+
  have "changed_on (fst (aff, d')) (snd ([] :: id64 list, d)) (snd (aff, d'))"
    using fold_changed [OF assms(1) [unfolded reconcile_nodes_def] _ step] assms(3) by simp
  then show ?thesis
    by simp
qed

lemma server_subscribers_changed:
  assumes "reconcile_server_subscribers shuffle credential now k d = Inr (aff, d')" "permutes shuffle" "subscribers_ok d"
  shows "changed_on aff d d'"
  using fold_changed [OF assms(1) [unfolded reconcile_server_subscribers_def] _ tx_changed [OF _ assms(2)]] assms(3) by simp


section \<open>What the clean-up does\<close>

lemma uses_of_ids:
  assumes "map prx_id (proxies e) = map prx_id (proxies d)" "map (\<lambda>p. (prx_id p, prx_server_id p)) (proxies e) = map (\<lambda>p. (prx_id p, prx_server_id p)) (proxies d)"
  shows "proxy_on k e = proxy_on k d"
proof
  fix pid
  have "proxy_on k e pid \<longleftrightarrow> (pid, k) \<in> set (map (\<lambda>p. (prx_id p, prx_server_id p)) (proxies e))" for e
    by (auto simp: proxy_on_def sql_exists_iff)
  then show "proxy_on k e pid = proxy_on k d pid"
    using assms by metis
qed

lemma disable_proxies_on: "proxy_on k (disable_proxies k d) = proxy_on k d"
  by (rule uses_of_ids) (simp_all add: disable_proxies_def sql_update_def)

lemma relay_depends_frame:
  assumes "proxy_on k e = proxy_on k d" "clients e = clients d"
  shows "relay_depends k e r = relay_depends k d r"
  using assms by (simp add: relay_depends_def relay_uses_def client_on_def split: option.split)

lemma node_depends_frame:
  assumes "proxy_on k e = proxy_on k d" "clients e = clients d"
    and "map (\<lambda>r. (rel_id r, relay_depends k e r)) (relays e) = map (\<lambda>r. (rel_id r, relay_depends k d r)) (relays d)"
  shows "node_depends k e n = node_depends k d n" "personal_depends k e m = personal_depends k d m"
proof -
  have "sql_exists (\<lambda>r. rel_id r = i \<and> relay_depends k e r) (relays e) = sql_exists (\<lambda>r. rel_id r = i \<and> relay_depends k d r) (relays d)" for i
  proof -
    have ex: "sql_exists (\<lambda>r. rel_id r = i \<and> relay_depends k d r) (relays d) \<longleftrightarrow>
        (i, True) \<in> set (map (\<lambda>r. (rel_id r, relay_depends k d r)) (relays d))" for d
      by (auto simp: sql_exists_iff image_iff)
    show ?thesis
      unfolding ex assms(3) ..
  qed
  note same = this
  have "sql_exists (\<lambda>r. x = Some (rel_id r) \<and> relay_depends k e r) (relays e) = sql_exists (\<lambda>r. x = Some (rel_id r) \<and> relay_depends k d r) (relays d)" for x
  proof -
    have ex: "sql_exists (\<lambda>r. x = Some (rel_id r) \<and> relay_depends k d r) (relays d) \<longleftrightarrow>
        (\<exists>i. x = Some i \<and> sql_exists (\<lambda>r. rel_id r = i \<and> relay_depends k d r) (relays d))" for d
      by (auto simp: sql_exists_iff)
    show ?thesis
      unfolding ex same ..
  qed
  then show "node_depends k e n = node_depends k d n" "personal_depends k e m = personal_depends k d m"
    by (simp_all only: node_depends_def personal_depends_def assms(1) same)
qed

definition disabled_dependents :: "id64 \<Rightarrow> panel_db \<Rightarrow> panel_db \<Rightarrow> bool" where
  "disabled_dependents k d d' \<longleftrightarrow>
     proxies d' = map (\<lambda>p. p\<lparr>prx_enabled := prx_enabled p \<and> prx_server_id p \<noteq> k\<rparr>) (proxies d) \<and>
     map untargeted (relays d') = map (\<lambda>r. untargeted (r\<lparr>rel_enabled := rel_enabled r \<and> \<not> relay_depends k d r\<rparr>)) (relays d) \<and>
     published_nodes d' = map (\<lambda>n. n\<lparr>pub_enabled := pub_enabled n \<and> \<not> node_depends k d n\<rparr>) (published_nodes d) \<and>
     personal_nodes d' = map (\<lambda>n. n\<lparr>psn_enabled := psn_enabled n \<and> \<not> personal_depends k d n\<rparr>) (personal_nodes d)"

lemma disable_all_effect:
  "disabled_dependents k d (disable_dependents k d)"
proof -
  let ?a = "disable_proxies k d"
  let ?b = "disable_relays k ?a"
  let ?c = "disable_nodes k ?b"
  have ra: "relay_depends k ?a r = relay_depends k d r" for r
    by (rule relay_depends_frame [OF disable_proxies_on]) (simp add: disable_proxies_def)
  have pb: "proxy_on k ?b = proxy_on k d" "proxy_on k ?c = proxy_on k d" "clients ?b = clients d" "clients ?c = clients d" "relays ?c = relays ?b"
    using disable_proxies_on [of k d] by (simp_all add: disable_relays_def disable_nodes_def proxy_on_def disable_proxies_def fun_eq_iff)
  have rb: "relays ?b = map (\<lambda>r. r\<lparr>rel_enabled := rel_enabled r \<and> \<not> relay_depends k d r\<rparr>) (relays d)"
  proof -
    have "relays ?b = sql_update (\<lambda>r. rel_enabled r \<and> relay_depends k ?a r) (\<lambda>r. r\<lparr>rel_enabled := False\<rparr>) (relays d)"
      by (simp add: disable_relays_def) (simp add: disable_proxies_def)
    then show ?thesis
      unfolding ra by (auto simp: sql_update_def)
  qed
  have rbd: "relay_depends k ?b (r\<lparr>rel_enabled := x\<rparr>) = relay_depends k d r" "relay_depends k ?c (r\<lparr>rel_enabled := x\<rparr>) = relay_depends k d r" for r x
    using relay_depends_frame [of k ?b d] relay_depends_frame [of k ?c d] pb
    by (simp_all add: relay_depends_def relay_uses_def split: option.splits)
  have nb: "node_depends k ?b n = node_depends k d n" "personal_depends k ?c m = personal_depends k d m" for n m
    using node_depends_frame [of k ?b d] node_depends_frame [of k ?c d] pb by (simp_all add: rb rbd o_def)
  have "proxies (disable_dependents k d) = proxies ?a" "relays (disable_dependents k d) = relays ?b"
    "published_nodes (disable_dependents k d) = published_nodes ?c" "published_nodes ?b = published_nodes d" "personal_nodes ?c = personal_nodes d"
    by (simp_all add: disable_dependents_def disable_personal_def disable_nodes_def disable_relays_def disable_proxies_def)
  moreover have "proxies ?a = map (\<lambda>p. p\<lparr>prx_enabled := prx_enabled p \<and> prx_server_id p \<noteq> k\<rparr>) (proxies d)"
    by (auto simp: disable_proxies_def sql_update_def)
  moreover have "published_nodes ?c = map (\<lambda>n. n\<lparr>pub_enabled := pub_enabled n \<and> \<not> node_depends k d n\<rparr>) (published_nodes ?b)"
    unfolding disable_nodes_def by (auto simp: nb sql_update_def)
  moreover have "personal_nodes (disable_dependents k d) = map (\<lambda>n. n\<lparr>psn_enabled := psn_enabled n \<and> \<not> personal_depends k d n\<rparr>) (personal_nodes ?c)"
    unfolding disable_dependents_def disable_personal_def by (auto simp: nb sql_update_def)
  ultimately show ?thesis
    unfolding disabled_dependents_def rb by simp
qed


definition told_servers :: "id64 \<Rightarrow> panel_db \<Rightarrow> id64 list \<Rightarrow> id64 list" where
  "told_servers k d aff = sort (remdups (filter (\<lambda>s. s \<noteq> k) (relay_sources k d @ aff)))"

text \<open>
  Exactly the servers of \<open>told_servers\<close> that may change get a new version, with a pending
  operation for it; the clients of a proxy changed only if its server is among them, or is
  \<open>k\<close> itself or one that may not change.
\<close>

definition resynchronised :: "id64 \<Rightarrow> panel_db \<Rightarrow> id64 list \<Rightarrow> mutation list \<Rightarrow> panel_db \<Rightarrow> bool" where
  "resynchronised k d aff muts d' \<longleftrightarrow>
     muts = bumps d (told_servers k d aff) \<and> (\<forall>m \<in> set muts. told d' m) \<and>
     map state_of_server (servers d') = map (\<lambda>s. bump_state (set (told_servers k d aff)) (state_of_server s)) (servers d) \<and>
     (\<forall>p \<in> set (proxies d). prx_server_id p \<notin> set aff \<longrightarrow> proxy_clients (prx_id p) d' = proxy_clients (prx_id p) d)"

lemma disable_frame:
  "servers (disable_dependents k d) = servers d" "clients (disable_dependents k d) = clients d"
  "subscriber_clients (disable_dependents k d) = subscriber_clients d" "enrollments (disable_dependents k d) = enrollments d"
  "probe_servers (disable_dependents k d) = probe_servers d" "probe_records (disable_dependents k d) = probe_records d"
  "agents (disable_dependents k d) = agents d" "operations (disable_dependents k d) = operations d"
  "clients_seq (disable_dependents k d) = clients_seq d" "subscriber_usage (disable_dependents k d) = subscriber_usage d"
  by (simp_all add: disable_dependents_def disable_personal_def disable_nodes_def disable_relays_def disable_proxies_def)

lemma disable_ok: "subscribers_ok d \<Longrightarrow> subscribers_ok (disable_dependents k d)"
proof -
  have "map prx_id (proxies (disable_dependents k d)) = map prx_id (proxies d)"
    using disable_all_effect [of k d] by (simp add: disabled_dependents_def o_def)
  moreover from this have "prx_id ` set (proxies (disable_dependents k d)) = prx_id ` set (proxies d)"
    by (metis list.set_map)
  moreover assume "subscribers_ok d"
  ultimately show ?thesis
    unfolding subscribers_ok_def disable_frame by simp
qed

lemma changed_servers:
  assumes "changed_on aff d d'" "p \<in> set (proxies d)" "prx_server_id p \<notin> set aff"
  shows "proxy_clients (prx_id p) d' = proxy_clients (prx_id p) d"
  using assms by (simp add: changed_on_def)

lemma unbumped_clients:
  assumes "unbumped d' = unbumped d"
  shows "proxy_clients pid d' = proxy_clients pid d"
  unfolding proxy_clients_def unbumped_tables [OF assms] ..

lemma cleanup_stages:
  assumes "cleanup_dependencies shuffle credential now k d = Inr (muts, d')" "permutes shuffle" "subscribers_ok d" "archived k d"
    and "distinct (map srv_id (servers d))"
  obtains aff d2 where "same_world (disable_dependents k d) d2" "mapped_users k d2 = {}" "subscribers_ok d2"
    "changed_on aff (disable_dependents k d) d2"
    "muts = bumps d2 (told_servers k d aff)" "bumped (told_servers k d aff) d2 d'" "\<forall>m \<in> set muts. told d' m"
proof -
  let ?d0 = "disable_dependents k d"
  obtain nodes d1 subs d2 where s: "reconcile_nodes shuffle credential now (enabled_dependent_nodes k d) ?d0 = Inr (nodes, d1)"
    "reconcile_server_subscribers shuffle credential now k d1 = Inr (subs, d2)"
    "bump_dependencies now k (relay_sources k d @ nodes @ subs) d2 = Inr (muts, d')"
    using assms(1) by (auto simp: cleanup_dependencies_def split: sum.splits)
  have arch: "archived k ?d0"
    using assms(4) by (simp add: archived_def disable_frame)
  have ok0: "subscribers_ok ?d0"
    using assms(3) by (rule disable_ok)
  have ok1: "subscribers_ok d1" "archived k d1"
    using nodes_unmapped [OF s(1) assms(2) ok0 arch] by simp_all
  have ok2: "subscribers_ok d2" "mapped_users k d2 = {}"
    using server_subscribers_unmapped [OF s(2) assms(2) ok1] by simp_all
  have w: "same_world ?d0 d2"
    using nodes_world [OF s(1)] server_subscribers_world [OF s(2)] same_world_trans by (metis snd_conv)
  have ch: "changed_on (nodes @ subs) ?d0 d2"
    using nodes_changed [OF s(1) assms(2) ok0] server_subscribers_changed [OF s(2) assms(2) ok1(1)]
    by (auto simp: changed_on_def)
  have "servers d2 = servers d"
    using w by (simp add: same_world_def same_catalog_def disable_frame)
  then have fold: "muts = [] @ bumps d2 (told_servers k d (nodes @ subs)) \<and> bumped (told_servers k d (nodes @ subs)) d2 d' \<and>
      (\<forall>m \<in> set (bumps d2 (told_servers k d (nodes @ subs))). told d' m) \<and>
      (\<forall>m. told d2 m \<and> mut_server_id m \<notin> set (told_servers k d (nodes @ subs)) \<longrightarrow> told d' m)"
    using assms(5) by (intro bump_fold [OF s(3) [unfolded bump_dependencies_def told_servers_def [symmetric]]]) (simp_all add: told_servers_def)
  show ?thesis
    by (rule that [OF w ok2(2,1) ch]) (use fold in simp_all)
qed

lemma proxy_clients_disable: "proxy_clients pid (disable_dependents k d) = proxy_clients pid d"
  by (simp add: proxy_clients_def disable_frame)

lemma cleanup_resynchronises:
  assumes "cleanup_dependencies shuffle credential now k d = Inr (muts, d')" "permutes shuffle" "subscribers_ok d" "archived k d"
    and "distinct (map srv_id (servers d))"
  shows "\<exists>aff. resynchronised k d aff muts d'"
proof -
  obtain aff d2 where s: "same_world (disable_dependents k d) d2" "changed_on aff (disable_dependents k d) d2"
    "muts = bumps d2 (told_servers k d aff)" "bumped (told_servers k d aff) d2 d'" "\<forall>m \<in> set muts. told d' m"
    using cleanup_stages [OF assms] by metis
  have sv: "servers d2 = servers d"
    using s(1) by (simp add: same_world_def same_catalog_def disable_frame)
  have "proxy_clients (prx_id p) d' = proxy_clients (prx_id p) d" if p: "p \<in> set (proxies d)" "prx_server_id p \<notin> set aff" for p
  proof -
    let ?q = "p\<lparr>prx_enabled := prx_enabled p \<and> prx_server_id p \<noteq> k\<rparr>"
    have "?q \<in> set (proxies (disable_dependents k d))"
      using disable_all_effect [of k d] p(1) by (auto simp: disabled_dependents_def)
    from changed_servers [OF s(2) this] p(2) unbumped_clients [of d' d2 "prx_id p"] s(4) show ?thesis
      by (simp add: bumped_def proxy_clients_disable)
  qed
  moreover have "bumps d2 (told_servers k d aff) = bumps d (told_servers k d aff)"
    by (simp add: bumps_def version_of_def sv)
  ultimately have "resynchronised k d aff muts d'"
    using s(3-5) unfolding resynchronised_def bumped_def sv by simp
  then show ?thesis ..
qed

lemma cleanup_disables:
  assumes "cleanup_dependencies shuffle credential now k d = Inr (muts, d')" "permutes shuffle" "subscribers_ok d" "archived k d"
    and "distinct (map srv_id (servers d))"
  shows "disabled_dependents k d d'" "mapped_users k d' = {}" "enrollments d' = enrollments d"
    "probe_servers d' = probe_servers d" "probe_records d' = probe_records d" "map agt_server_id (agents d') = map agt_server_id (agents d)"
proof -
  obtain aff d2 where s: "same_world (disable_dependents k d) d2" "mapped_users k d2 = {}" "bumped (told_servers k d aff) d2 d'"
    using cleanup_stages [OF assms] by metis
  note t = unbumped_tables [of d' d2]
  have u: "unbumped d' = unbumped d2"
    using s(3) by (simp add: bumped_def)
  show "disabled_dependents k d d'"
    using disable_all_effect [of k d] s(1) unfolding disabled_dependents_def t [OF u] same_world_def same_catalog_def by simp
  show "mapped_users k d' = {}"
    using s(2) by (simp add: mapped_users_def proxy_on_def t [OF u])
  show "enrollments d' = enrollments d" "probe_servers d' = probe_servers d" "probe_records d' = probe_records d"
    "map agt_server_id (agents d') = map agt_server_id (agents d)"
    using s(1,3) unfolding bumped_def same_world_def same_catalog_def by (simp_all add: t [OF u] disable_frame)
qed


section \<open>Archiving\<close>

definition nothing_left :: "id64 \<Rightarrow> panel_db \<Rightarrow> bool" where
  "nothing_left k d \<longleftrightarrow>
     (\<forall>s \<in> set (servers d). srv_id s = k \<longrightarrow> srv_archived_at s \<noteq> None) \<and>
     (\<forall>a \<in> set (agents d). agt_server_id a \<noteq> k) \<and>
     (\<forall>e \<in> set (enrollments d). enr_server_id e = k \<longrightarrow> enr_used_at e \<noteq> None) \<and>
     (\<forall>a \<in> set (probe_servers d). pbs_server a \<noteq> k) \<and> (\<forall>r \<in> set (probe_records d). pbr_server r \<noteq> k) \<and>
     (\<forall>p \<in> set (proxies d). prx_server_id p = k \<longrightarrow> \<not> prx_enabled p) \<and>
     (\<forall>m \<in> set (subscriber_clients d). \<not> proxy_on k d (sc_proxy_id m)) \<and>
     (\<forall>r \<in> set (relays d). rel_server_id r = k \<longrightarrow> \<not> rel_enabled r)"

lemma retired_stages:
  assumes "force_archive shuffle credential now k d = Inr (muts, d') \<or>
      (\<exists>version status message. finalize_decommission shuffle credential now k version status message d = Inr ((True, muts), d'))"
  obtains P d2 where "P = live_server k \<or> P = (\<lambda>s. srv_id s = k)" "sql_exists (live_server k) (servers d)"
    "cleanup_dependencies shuffle credential now k (archive_rows now P d) = Inr (muts, d2)" "d' = revoke_agent k d2"
proof -
  have "\<exists>P d2. (P = live_server k \<or> P = (\<lambda>s. srv_id s = k)) \<and> sql_exists (live_server k) (servers d) \<and>
     cleanup_dependencies shuffle credential now k (archive_rows now P d) = Inr (muts, d2) \<and> d' = revoke_agent k d2"
    using assms
  proof
    assume "force_archive shuffle credential now k d = Inr (muts, d')"
    then show ?thesis
      by (auto simp: force_archive_def retire_server_def sql_count_zero_iff sql_exists_iff split: if_splits sum.splits)
  next
    assume "\<exists>version status message. finalize_decommission shuffle credential now k version status message d = Inr ((True, muts), d')"
    then obtain version status message where "finalize_decommission shuffle credential now k version status message d = Inr ((True, muts), d')"
      by blast
    then obtain s d2 where f: "sql_first (live_server k) (servers d) = Some s" "d' = revoke_agent k d2"
        "cleanup_dependencies shuffle credential now k (archive_rows now (\<lambda>x. srv_id x = k) d) = Inr (muts, d2)"
      by (auto simp: finalize_decommission_def retire_server_def split: if_splits sum.splits option.splits)
    from sql_first_SomeD [OF f(1)] have "sql_exists (live_server k) (servers d)"
      unfolding sql_exists_iff by blast
    with f(2,3) show ?thesis by blast
  qed
  then show ?thesis
    using that by blast
qed

lemma archive_frame:
  "proxies (archive_rows now P d) = proxies d" "clients (archive_rows now P d) = clients d" "relays (archive_rows now P d) = relays d"
  "published_nodes (archive_rows now P d) = published_nodes d" "personal_nodes (archive_rows now P d) = personal_nodes d"
  "subscriber_clients (archive_rows now P d) = subscriber_clients d" "enrollments (archive_rows now P d) = enrollments d"
  "agents (archive_rows now P d) = agents d" "clients_seq (archive_rows now P d) = clients_seq d"
  "subscriber_usage (archive_rows now P d) = subscriber_usage d" "operations (archive_rows now P d) = operations d"
  by (simp_all add: archive_rows_def Let_def)

lemma archive_depends:
  "proxy_on k (archive_rows now P d) = proxy_on k d" "relay_depends k (archive_rows now P d) r = relay_depends k d r"
  "node_depends k (archive_rows now P d) n = node_depends k d n" "personal_depends k (archive_rows now P d) q = personal_depends k d q"
proof -
  show on: "proxy_on k (archive_rows now P d) = proxy_on k d"
    by (simp add: proxy_on_def fun_eq_iff archive_frame)
  note rd = relay_depends_frame [OF on archive_frame(2)]
  then show "relay_depends k (archive_rows now P d) r = relay_depends k d r" .
  show "node_depends k (archive_rows now P d) n = node_depends k d n" "personal_depends k (archive_rows now P d) q = personal_depends k d q"
    by (rule node_depends_frame [OF on archive_frame(2)], simp add: rd archive_frame)+
qed

lemma archive_disabled: "disabled_dependents k (archive_rows now P d) d' = disabled_dependents k d d'"
  by (simp add: disabled_dependents_def archive_depends archive_frame)

lemma archive_ok: "subscribers_ok (archive_rows now P d) = subscribers_ok d"
  by (simp add: subscribers_ok_def archive_frame)

lemma archive_archived:
  assumes "P = live_server k \<or> P = (\<lambda>s. srv_id s = k)"
  shows "archived k (archive_rows now P d)"
proof -
  have hit: "P s" if "srv_id s = k" "srv_archived_at s = None" for s
    using assms that by (elim disjE) (simp_all add: live_server_def)
  have "servers (archive_rows now P d) = sql_update P (\<lambda>s. s\<lparr>srv_status := ''offline'', srv_archived_at := Some now, srv_decom_at := None,
      srv_decom_status := [], srv_decom_error := [], srv_updated_at := now\<rparr>) (servers d)"
    by (simp add: archive_rows_def Let_def)
  then show ?thesis
    using hit by (auto simp: archived_def set_sql_update)
qed

lemma archive_ids: "map srv_id (servers (archive_rows now P d)) = map srv_id (servers d)"
  by (simp add: archive_rows_def Let_def map_sql_update_key)

lemma archive_no_probes:
  assumes "P = live_server k \<or> P = (\<lambda>s. srv_id s = k)" "sql_exists (live_server k) (servers d)"
  shows "\<forall>a \<in> set (probe_servers (archive_rows now P d)). pbs_server a \<noteq> k" "\<forall>r \<in> set (probe_records (archive_rows now P d)). pbr_server r \<noteq> k"
proof -
  have "sql_exists (\<lambda>s. srv_id s = k \<and> P s) (servers d)"
    using assms by (elim disjE) (auto simp: sql_exists_iff live_server_def)
  then show "\<forall>a \<in> set (probe_servers (archive_rows now P d)). pbs_server a \<noteq> k" "\<forall>r \<in> set (probe_records (archive_rows now P d)). pbr_server r \<noteq> k"
    by (auto simp: archive_rows_def Let_def set_sql_delete)
qed

lemma revoke_frame:
  "servers (revoke_agent k d) = servers d" "proxies (revoke_agent k d) = proxies d" "clients (revoke_agent k d) = clients d"
  "relays (revoke_agent k d) = relays d" "published_nodes (revoke_agent k d) = published_nodes d"
  "personal_nodes (revoke_agent k d) = personal_nodes d" "subscriber_clients (revoke_agent k d) = subscriber_clients d"
  "probe_servers (revoke_agent k d) = probe_servers d" "probe_records (revoke_agent k d) = probe_records d"
  "operations (revoke_agent k d) = operations d"
  by (simp_all add: revoke_agent_def)

lemma bumped_archived: "map state_of_server (servers d') = map (\<lambda>s. bump_state I (state_of_server s)) (servers d) \<Longrightarrow> archived k d' = archived k d"
proof -
  have a: "archived k e \<longleftrightarrow> (\<forall>((i, a, t, ds, st), v) \<in> set (map state_of_server (servers e)). i = k \<longrightarrow> a \<noteq> None)" for e
    by (auto simp: archived_def state_of_server_def)
  have b: "archived k e \<longleftrightarrow> (\<forall>((i, a, t, ds, st), v) \<in> set (map (\<lambda>s. bump_state I (state_of_server s)) (servers e)). i = k \<longrightarrow> a \<noteq> None)" for e
    by (auto simp: archived_def state_of_server_def)
  assume "map state_of_server (servers d') = map (\<lambda>s. bump_state I (state_of_server s)) (servers d)"
  then show ?thesis
    unfolding a [of d'] b [of d] by simp
qed

lemma disabled_server:
  assumes "disabled_dependents k d d'"
  shows "\<forall>p \<in> set (proxies d'). prx_server_id p = k \<longrightarrow> \<not> prx_enabled p" "\<forall>r \<in> set (relays d'). rel_server_id r = k \<longrightarrow> \<not> rel_enabled r"
proof -
  show "\<forall>p \<in> set (proxies d'). prx_server_id p = k \<longrightarrow> \<not> prx_enabled p"
    using assms by (auto simp: disabled_dependents_def)
  have "map (\<lambda>r. (rel_server_id r, rel_enabled r)) (relays d') = map (\<lambda>r. (rel_server_id r, rel_enabled r)) (map untargeted (relays d'))"
    by (simp add: untargeted_def)
  also have "\<dots> = map (\<lambda>r. (rel_server_id r, rel_enabled r \<and> \<not> relay_depends k d r)) (relays d)"
    using assms unfolding disabled_dependents_def by (simp add: untargeted_def)
  finally have "(\<forall>x \<in> set (map (\<lambda>r. (rel_server_id r, rel_enabled r)) (relays d')). fst x = k \<longrightarrow> \<not> snd x)"
    by (auto simp: relay_depends_def)
  then show "\<forall>r \<in> set (relays d'). rel_server_id r = k \<longrightarrow> \<not> rel_enabled r"
    by auto
qed


section \<open>A server that is leaving\<close>

text \<open>What the completion of the decommissioning of \<open>k\<close> at version \<open>v\<close> rests on: the live row, its Agents and their tokens.\<close>

definition leaving :: "id64 \<Rightarrow> int \<Rightarrow> (id64 \<times> string) list \<Rightarrow> panel_db \<Rightarrow> bool" where
  "leaving k v ags d \<longleftrightarrow>
     map srv_id (filter (\<lambda>s. srv_id s = k) (servers d)) = [k] \<and>
     (\<forall>s \<in> set (servers d). srv_id s = k \<longrightarrow> srv_archived_at s = None \<and> srv_version s = v \<and>
        (srv_decom_status s = ''pending'' \<or> srv_decom_status s = ''failed'')) \<and>
     map (\<lambda>a. (agt_id a, agt_token_hash a)) (filter (\<lambda>a. agt_server_id a = k) (agents d)) = ags \<and>
     (\<forall>e \<in> set (enrollments d). enr_server_id e = k \<longrightarrow> enr_used_at e \<noteq> None)"

lemma filter_update:
  assumes "\<And>r. P r \<Longrightarrow> Q r \<Longrightarrow> g (f r) = g r" "\<And>r. P r \<Longrightarrow> Q (f r) = Q r"
  shows "map g (filter Q (sql_update P f t)) = map g (filter Q t)"
  using assms by (induction t) (auto simp: sql_update_def)




lemma find_filter_hd: "filter P xs = [x] \<Longrightarrow> find P xs = Some x"
  by (induction xs) (auto split: if_splits)

lemma leaving_row:
  assumes "leaving k v ags d"
  obtains s where "sql_first (\<lambda>s. srv_id s = k) (servers d) = Some s" "sql_first (live_server k) (servers d) = Some s" "s \<in> set (servers d)"
    "srv_id s = k" "srv_archived_at s = None" "srv_version s = v" "srv_decom_status s = ''pending'' \<or> srv_decom_status s = ''failed''"
proof -
  have one: "map srv_id (filter (\<lambda>s. srv_id s = k) (servers d)) = [k]"
    and all: "\<And>s. s \<in> set (servers d) \<Longrightarrow> srv_id s = k \<Longrightarrow> srv_archived_at s = None \<and> srv_version s = v \<and>
        (srv_decom_status s = ''pending'' \<or> srv_decom_status s = ''failed'')"
    using assms unfolding leaving_def by blast+
  obtain s where f: "filter (\<lambda>s. srv_id s = k) (servers d) = [s]"
    using one by (auto simp: map_eq_Cons_conv)
  have s: "s \<in> set (servers d)" "srv_id s = k"
    using arg_cong [OF f, of set] by auto
  have first: "sql_first P (servers d) = Some s" if P: "\<And>x. x \<in> set (servers d) \<Longrightarrow> P x = (srv_id x = k)" for P
  proof -
    have "filter P (servers d) = [s]"
      using f P by (metis (mono_tags, lifting) filter_cong)
    then show ?thesis
      by (simp add: sql_first_def find_filter_hd)
  qed
  have "sql_first (\<lambda>s. srv_id s = k) (servers d) = Some s"
    by (rule first) simp
  moreover have "sql_first (live_server k) (servers d) = Some s"
    by (rule first) (use all in auto)
  ultimately show ?thesis
    using s all [OF s] that by blast
qed























lemma filter_one_key:
  "distinct (map key t) \<Longrightarrow> r \<in> set t \<Longrightarrow> key r = k \<Longrightarrow> filter (\<lambda>s. key s = k) t = [r]"
  by (induction t) (auto simp: filter_empty_conv image_iff)

lemma leaving_requested:
  assumes "distinct (map srv_id (servers d))" "request_decommission now k d = Inr (v, d')"
  shows "leaving k v (map (\<lambda>a. (agt_id a, agt_token_hash a)) (filter (\<lambda>a. agt_server_id a = k) (agents d))) d' \<and>
    (\<exists>a \<in> set (agents d). agt_server_id a = k)"
proof -
  obtain s a where s: "sql_first (live_server k) (servers d) = Some s" and a: "sql_first (\<lambda>a. agt_server_id a = k) (agents d) = Some a"
    and rest: "srv_decom_status s = []"
    using assms(2) by (auto simp: request_decommission_def split: option.splits if_splits)
  have b: "s \<in> set (servers d)" "bumpable k s"
    using sql_first_SomeD [OF s] rest by (simp_all add: bumpable_def)
  let ?f = "\<lambda>s. s\<lparr>srv_decom_at := Some now, srv_decom_status := ''pending'', srv_decom_error := [],
      srv_version := srv_version s + 1, srv_updated_at := now\<rparr>"
  let ?t = "sql_update (bumpable k) ?f (servers d)"
  have one: "filter (\<lambda>s. srv_id s = k) (servers d) = [s]"
    using assms(1) b by (auto simp: bumpable_def intro!: filter_one_key)
  have t: "filter (\<lambda>s. srv_id s = k) ?t = [?f s]"
  proof -
    have "filter (\<lambda>s. srv_id s = k) (sql_update (bumpable k) ?f xs) = sql_update (bumpable k) ?f (filter (\<lambda>s. srv_id s = k) xs)" for xs
      by (induction xs) (auto simp: sql_update_def)
    then show ?thesis
      using b one by (simp add: sql_update_def)
  qed
  have "sql_first (\<lambda>s. srv_id s = k) ?t = Some (?f s)"
    using t by (simp add: sql_first_def find_filter_hd)
  then have d': "d' = record_operation now k ''server'' k ''update'' v ((agent_pending now k (d\<lparr>servers := ?t\<rparr>))\<lparr>
        enrollments := sql_delete (\<lambda>e. enr_server_id e = k \<and> enr_used_at e = None) (enrollments d)\<rparr>)" and v: "v = srv_version s + 1"
    using assms(2) s a rest
    by (auto simp: request_decommission_def Let_def version_of_def agent_pending_def split: sum.splits if_splits)
  have "{x \<in> set ?t. srv_id x = k} = {?f s}"
    using arg_cong [OF t, of set] by (simp only: set_filter list.set)
  then have "\<forall>x \<in> set ?t. srv_id x = k \<longrightarrow> x = ?f s"
    by blast
  moreover have "srv_id s = k" "srv_archived_at s = None"
    using b by (simp_all add: bumpable_def)
  moreover have "map (\<lambda>a. (agt_id a, agt_token_hash a)) (filter (\<lambda>a. agt_server_id a = k) (agents d')) =
      map (\<lambda>a. (agt_id a, agt_token_hash a)) (filter (\<lambda>a. agt_server_id a = k) (agents d))"
    unfolding d' agent_pending_def record_operation_def by (simp, rule filter_update) simp_all
  moreover have "servers d' = ?t" "enrollments d' = sql_delete (\<lambda>e. enr_server_id e = k \<and> enr_used_at e = None) (enrollments d)"
    by (simp_all add: d' agent_pending_def record_operation_def)
  ultimately have "leaving k v (map (\<lambda>a. (agt_id a, agt_token_hash a)) (filter (\<lambda>a. agt_server_id a = k) (agents d))) d'"
    unfolding leaving_def using t v by (auto simp: set_sql_delete)
  with sql_first_SomeD [OF a] show ?thesis
    by blast
qed


section \<open>The properties\<close>


text \<open>
  C2. Archiving a server, forced or by its Agent's receipt, leaves nothing of it at work: its row
  is archived, its Agent and unused enrolment tokens are revoked, its probe assignments and records are gone,
  its proxies and relays are disabled and no subscriber is mapped to one of its proxies. Of the
  proxies, relays, published and personal nodes, exactly those that depend on it are disabled and
  nothing else about them changes (a relay may lose its target client).
\<close>

theorem archiving_leaves_nothing:
  assumes "permutes shuffle" "subscribers_ok d" "distinct (map srv_id (servers d))"
    and "force_archive shuffle credential now k d = Inr (muts, d') \<or>
      (\<exists>version status message. finalize_decommission shuffle credential now k version status message d = Inr ((True, muts), d'))"
  shows "nothing_left k d' \<and> disabled_dependents k d d'"
proof -
  obtain P d2 where r: "P = live_server k \<or> P = (\<lambda>s. srv_id s = k)" "sql_exists (live_server k) (servers d)"
    "cleanup_dependencies shuffle credential now k (archive_rows now P d) = Inr (muts, d2)" "d' = revoke_agent k d2"
    using retired_stages [OF assms(4)] by metis
  let ?a = "archive_rows now P d"
  have pre: "subscribers_ok ?a" "archived k ?a" "distinct (map srv_id (servers ?a))"
    using assms(2,3) archive_archived [OF r(1)] by (simp_all add: archive_ok archive_ids)
  note c = cleanup_disables [OF r(3) assms(1) pre]
  obtain aff where "resynchronised k ?a aff muts d2"
    using cleanup_resynchronises [OF r(3) assms(1) pre] by blast
  then have "archived k d2"
    using bumped_archived pre(2) by (simp add: resynchronised_def)
  moreover have dd: "disabled_dependents k d d2"
    using c(1) by (simp add: archive_disabled)
  ultimately have "nothing_left k d'"
    using disabled_server [OF dd] c(2,4,5) archive_no_probes [OF r(1,2), of now]
    unfolding nothing_left_def r(4) revoke_frame
    by (auto simp: revoke_agent_def archived_def mapped_users_def set_sql_delete proxy_on_def)
  moreover have "disabled_dependents k d d'"
    using dd by (simp add: disabled_dependents_def r(4) revoke_frame)
  ultimately show ?thesis ..
qed



text \<open>
  The outbound preference of a leaving server can still be changed when its request passed the
  API's check before the decommissioning was requested: the version moves on, and the receipt for
  the version the Agent has purged and uninstalled itself for is ignored.
\<close>

theorem late_outbound_change:
  assumes "leaving k v ags d" "p = ''auto'' \<or> p = ''prefer_ipv4'' \<or> p = ''prefer_ipv6''"
  shows "\<exists>d'. update_outbound_preference now k p d = Inr (v + 1, d') \<and>
    finalize_decommission shuffle credential t k v ''success'' message d' = Inr ((False, []), d')"
proof -
  obtain s where s: "sql_first (\<lambda>s. srv_id s = k) (servers d) = Some s" "srv_version s = v" "srv_archived_at s = None"
    using leaving_row [OF assms(1)] by metis
  let ?f = "\<lambda>s. s\<lparr>srv_outbound := p, srv_version := srv_version s + 1, srv_updated_at := now\<rparr>"
  have one: "map srv_id (filter (\<lambda>s. srv_id s = k) (servers d)) = [k]"
    and live: "\<And>x. x \<in> set (servers d) \<Longrightarrow> srv_id x = k \<Longrightarrow> srv_archived_at x = None"
    using assms(1) unfolding leaving_def by blast+
  have count: "sql_count (live_server k) (servers d) = 1"
  proof -
    have "filter (live_server k) (servers d) = filter (\<lambda>s. srv_id s = k) (servers d)"
      by (rule filter_cong) (use live in auto)
    then show ?thesis
      using arg_cong [OF one, of length] by (simp add: sql_count_def)
  qed
  let ?t = "sql_update (live_server k) ?f (servers d)"
  have "find (\<lambda>s. srv_id s = k) (sql_update (live_server k) ?f xs) = map_option ?f (find (\<lambda>s. srv_id s = k) xs)"
    "find (live_server k) (sql_update (live_server k) ?f xs) = map_option ?f (find (\<lambda>s. srv_id s = k) xs)"
    if "\<And>x. x \<in> set xs \<Longrightarrow> srv_id x = k \<Longrightarrow> srv_archived_at x = None" for xs
    using that by (induction xs) (auto simp: sql_update_def)
  then have t: "sql_first (\<lambda>s. srv_id s = k) ?t = Some (?f s)" "sql_first (live_server k) ?t = Some (?f s)"
    using s(1) live unfolding sql_first_def by simp_all
  have "update_outbound_preference now k p d =
      Inr (v + 1, record_operation now k ''server'' k ''update'' (v + 1) (agent_pending now k (d\<lparr>servers := ?t\<rparr>)))"
    using assms(2) t(1) count s(2)
    by (auto simp: update_outbound_preference_def update_live_server_def Let_def version_of_def agent_pending_def)
  moreover have "finalize_decommission shuffle credential t k v ''success'' message
        (record_operation now k ''server'' k ''update'' (v + 1) (agent_pending now k (d\<lparr>servers := ?t\<rparr>))) =
      Inr ((False, []), record_operation now k ''server'' k ''update'' (v + 1) (agent_pending now k (d\<lparr>servers := ?t\<rparr>)))"
    using t(2) s(2) by (simp add: finalize_decommission_def record_operation_def agent_pending_def)
  ultimately show ?thesis by blast
qed


section \<open>Permanent deletion\<close>









text \<open>
  As in \<open>quota_db\<close>, and server 2 has an Agent that can remove itself and a probe; server 3
  relays to its proxy 8; the user has a personal node with that relay.
\<close>

definition retire_db :: panel_db where
  "retire_db = (quota_db [])\<lparr>
     servers := [plain_server 1, plain_server 2, plain_server 3],
     agents := [new_agent 4 2 ''h'' \<lparr>md_implementation = ''agent'', md_version = ''v1.0.0'', md_api_version = current_api_version,
       md_capabilities = []\<rparr> [''managed_runtime_purge'', ''self_decommission''] 5],
     probe_servers := [\<lparr>pbs_task = 1, pbs_server = 2\<rparr>, \<lparr>pbs_task = 1, pbs_server = 3\<rparr>],
     relays := [\<lparr>rel_id = 20, rel_server_id = 3, rel_owner = None, rel_source_client = None, rel_listen_port = 9000,
       rel_target_type = ''proxy'', rel_target_proxy = Some 8, rel_target_client = None, rel_target_landing = None,
       rel_network = ''tcp'', rel_created_at = 0, rel_name = ''r'', rel_address = [], rel_entry_mode = ''auto'',
       rel_entry_host = [], rel_target_host = [], rel_target_port = None, rel_enabled = True\<rparr>],
     personal_nodes := [\<lparr>psn_id = 1, psn_group = 1, psn_source_type = ''relay'', psn_source = 20, psn_enabled = True\<rparr>]\<rparr>"

lemma retire_db_ok: "subscribers_ok retire_db" "distinct (map srv_id (servers retire_db))"
  using quota_db_ok [of "[]"] by (simp_all add: subscribers_ok_def retire_db_def plain_server_def)

abbreviation no_credential :: "proxy_row \<Rightarrow> proxy_error + string" where
  "no_credential \<equiv> \<lambda>_. Inr ''k''"

lemma archive_retires:
  "\<exists>muts d'. force_archive (\<lambda>ks. ks) no_credential 50 2 retire_db = Inr (muts, d') \<and> map mut_server_id muts = [3] \<and>
     map srv_version (servers d') = [1, 1, 2] \<and> map cli_id (clients d') = [9] \<and> map psn_enabled (personal_nodes d') = [False] \<and>
     map rel_enabled (relays d') = [False]"
proof -
  have "case force_archive (\<lambda>ks. ks) no_credential 50 2 retire_db of Inl _ \<Rightarrow> False | Inr (muts, d') \<Rightarrow> map mut_server_id muts = [3] \<and>
     map srv_version (servers d') = [1, 1, 2] \<and> map cli_id (clients d') = [9] \<and> map psn_enabled (personal_nodes d') = [False] \<and>
     map rel_enabled (relays d') = [False]"
    by code_simp
  then show ?thesis
    by (auto dest!: run_returns)
qed

theorem archiving_leaves_nothing_witness:
  "\<exists>muts d'. force_archive (\<lambda>ks. ks) no_credential 50 2 retire_db = Inr (muts, d') \<and> nothing_left 2 d' \<and> map rel_enabled (relays d') = [False]"
proof -
  obtain muts d' where r: "force_archive (\<lambda>ks. ks) no_credential 50 2 retire_db = Inr (muts, d')" "map rel_enabled (relays d') = [False]"
    using archive_retires by (elim exE conjE) (rule that)
  from archiving_leaves_nothing [OF permutes_id retire_db_ok disjI1 [OF r(1)]] r show ?thesis
    by (intro exI conjI) simp_all
qed




theorem late_outbound_change_witness:
  "\<exists>d1 d'. request_decommission 50 2 retire_db = Inr (2, d1) \<and> update_outbound_preference 51 2 ''prefer_ipv4'' d1 = Inr (3, d') \<and>
     finalize_decommission (\<lambda>ks. ks) no_credential 60 2 2 ''success'' [] d' = Inr ((False, []), d')"
proof -
  have "case request_decommission 50 2 retire_db of Inl _ \<Rightarrow> False | Inr (v, d1) \<Rightarrow> v = 2"
    by code_simp
  then obtain d1 where r: "request_decommission 50 2 retire_db = Inr (2, d1)"
    by (auto dest!: run_returns)
  from late_outbound_change [OF conjunct1 [OF leaving_requested [OF retire_db_ok(2) r]], of "''prefer_ipv4''" 51 "\<lambda>ks. ks" no_credential 60 "[]"]
  show ?thesis
    using r by auto
qed



end
