(* ===== verification/NetAddress.thy ===== *)
theory NetAddress
  imports GoStrings "HOL-Library.Word"
begin

unbundle bit_operations_syntax

text \<open>
  IP addresses (\<open>panel/internal/netutil/public_ip.go\<close>) and the host names that proxies,
  relays, servers and probes accept.

  An address is its bits: \<open>V4\<close> when \<open>To4\<close> is not nil, \<open>V6\<close> otherwise.
  \<open>net.ParseIP\<close> and \<open>IP.String\<close> are the functions of an \<open>ip_lib\<close>, and the
  Unicode \<open>strings.ToLower\<close> is the argument \<open>lower\<close>.
\<close>

datatype go_ip = V4 "32 word" | V6 "128 word"

record ip_lib =
  parse_ip :: "string \<Rightarrow> go_ip option"
  ip_text :: "go_ip \<Rightarrow> string"

fun is_v4 :: "go_ip \<Rightarrow> bool" where
  "is_v4 (V4 _) = True"
| "is_v4 (V6 _) = False"

section \<open>Classes of IPv6 addresses\<close>

definition top_byte :: "128 word \<Rightarrow> 128 word" where
  "top_byte w = drop_bit 120 w"

definition v6_multicast :: "128 word \<Rightarrow> bool" where
  "v6_multicast w \<longleftrightarrow> top_byte w = 0xff"

definition v6_link_local_unicast :: "128 word \<Rightarrow> bool" where
  "v6_link_local_unicast w \<longleftrightarrow> drop_bit 118 w = 0x3fa"

definition v6_link_local_multicast :: "128 word \<Rightarrow> bool" where
  "v6_link_local_multicast w \<longleftrightarrow> top_byte w = 0xff \<and> drop_bit 112 w AND 0x0f = 0x02"

definition v6_private :: "128 word \<Rightarrow> bool" where
  "v6_private w \<longleftrightarrow> top_byte w AND 0xfe = 0xfc"

definition v6_global_unicast :: "128 word \<Rightarrow> bool" where
  "v6_global_unicast w \<longleftrightarrow> w \<noteq> 0 \<and> w \<noteq> 1 \<and> \<not> v6_multicast w \<and> \<not> v6_link_local_unicast w"

fun usable_public_ipv6 :: "go_ip option \<Rightarrow> bool" where
  "usable_public_ipv6 (Some (V6 w)) \<longleftrightarrow> v6_global_unicast w \<and> \<not> v6_private w \<and> w \<noteq> 1 \<and> w \<noteq> 0 \<and>
     \<not> v6_multicast w \<and> \<not> v6_link_local_unicast w \<and> \<not> v6_link_local_multicast w"
| "usable_public_ipv6 _ \<longleftrightarrow> False"

fun backs_ipv6_listener :: "go_ip option \<Rightarrow> bool" where
  "backs_ipv6_listener (Some (V6 w)) \<longleftrightarrow> w \<noteq> 1 \<and> w \<noteq> 0 \<and> \<not> v6_multicast w \<and>
     \<not> v6_link_local_unicast w \<and> \<not> v6_link_local_multicast w"
| "backs_ipv6_listener _ \<longleftrightarrow> False"

text \<open>The first usable address, as text; empty without one.\<close>

definition effective_public_ipv6 :: "ip_lib \<Rightarrow> string \<Rightarrow> string list \<Rightarrow> string" where
  "effective_public_ipv6 lib public addresses =
     (case find usable_public_ipv6 (map (\<lambda>v. parse_ip lib (trim_space v)) (public # addresses)) of
        Some (Some ip) \<Rightarrow> ip_text lib ip
      | _ \<Rightarrow> [])"

definition has_ipv6_stack :: "ip_lib \<Rightarrow> string list \<Rightarrow> bool" where
  "has_ipv6_stack lib addresses \<longleftrightarrow> list_ex (\<lambda>v. backs_ipv6_listener (parse_ip lib (trim_space v))) addresses"

text \<open>A public address backs an IPv6 listener.\<close>

lemma usable_backs: "usable_public_ipv6 a \<Longrightarrow> backs_ipv6_listener a"
  by (cases a rule: usable_public_ipv6.cases) auto

lemma effective_public_reported:
  assumes "effective_public_ipv6 lib [] addresses \<noteq> []" "parse_ip lib [] = None"
  shows "has_ipv6_stack lib addresses"
proof -
  have "trim_space [] = []"
    by code_simp
  then have first: "\<not> usable_public_ipv6 (parse_ip lib (trim_space []))"
    using assms(2) by simp
  obtain a where "find usable_public_ipv6 (map (\<lambda>v. parse_ip lib (trim_space v)) addresses) = Some a"
    using assms(1) first unfolding effective_public_ipv6_def
    by (cases "find usable_public_ipv6 (map (\<lambda>v. parse_ip lib (trim_space v)) addresses)") auto
  then have "usable_public_ipv6 a" "a \<in> (\<lambda>v. parse_ip lib (trim_space v)) ` set addresses"
    by (auto simp: find_Some_iff)
  then show ?thesis
    by (auto simp: has_ipv6_stack_def list_ex_iff dest: usable_backs)
qed

section \<open>Host names\<close>

definition ascii_alpha :: "char \<Rightarrow> bool" where
  "ascii_alpha c \<longleftrightarrow> (let n = (of_char c :: nat) in 97 \<le> n \<and> n \<le> 122 \<or> 65 \<le> n \<and> n \<le> 90)"

definition ascii_low :: "char \<Rightarrow> char" where
  "ascii_low c = (if 65 \<le> (of_char c :: nat) \<and> (of_char c :: nat) \<le> 90 then char_of ((of_char c :: nat) + 32) else c)"

definition label_char :: "char \<Rightarrow> bool" where
  "label_char c \<longleftrightarrow> ascii_alpha c \<or> is_digit c \<or> c = CHR ''-''"

definition valid_label :: "string \<Rightarrow> bool" where
  "valid_label l \<longleftrightarrow> l \<noteq> [] \<and> length l \<le> 63 \<and> l ! 0 \<noteq> CHR ''-'' \<and> l ! (length l - 1) \<noteq> CHR ''-'' \<and> list_all label_char l"

definition trim_char_set :: "char list \<Rightarrow> string \<Rightarrow> string" where
  "trim_char_set cs s = rev (dropWhile (\<lambda>c. List.member cs c) (rev (dropWhile (\<lambda>c. List.member cs c) s)))"

fun contains :: "string \<Rightarrow> string \<Rightarrow> bool" where
  "contains p [] \<longleftrightarrow> p = []"
| "contains p (c # s) \<longleftrightarrow> take (length p) (c # s) = p \<or> contains p s"

text \<open>\<open>normalizeHost\<close> of the relays and the proxies: an IP address or an ASCII host name.\<close>

definition normalize_host :: "ip_lib \<Rightarrow> string \<Rightarrow> string option" where
  "normalize_host lib value =
     (let v = trim_space value in
      if v = [] \<or> list_ex (\<lambda>c. List.member ''/?#@'' c) v \<or> contains ''://'' v then None
      else case parse_ip lib (trim_char_set ''[]'' v) of
        Some ip \<Rightarrow> Some (ip_text lib ip)
      | None \<Rightarrow>
          if List.member v CHR '':'' \<or> length v > 253 \<or> v ! 0 = CHR ''.'' \<or> v ! (length v - 1) = CHR ''.'' then None
          else if list_all valid_label (split_on CHR ''.'' v) then Some (map ascii_low v) else None)"

end
