(* ===== verification/Monitor.thy ===== *)
theory Monitor
  imports NetAddress ServerLifecycle
begin

text \<open>
  The probes (\<open>panel/internal/monitor\<close> and \<open>saveProbe\<close> of \<open>panel/internal/api/monitor.go\<close>):
  tasks, their assignment to servers, what an Agent is asked to run, the results it reports and
  the history shown for a server.

  The instant of a record is in milliseconds, as \<open>UnixMilli\<close> gives it. The failure rate, a
  \<open>float64\<close> percentage, is the fraction it is computed from. The capability map is a
  predicate.
\<close>

datatype monitor_error = ErrProbeInvalid | ErrProbeNotFound | ErrTaskLimit | ErrProbeResult

definition max_probe_tasks :: nat where
  "max_probe_tasks = 64"

definition min_probe_interval :: int where
  "min_probe_interval = 5"

definition max_probe_interval :: int where
  "max_probe_interval = 86400"

definition supports :: "(string \<Rightarrow> bool) \<Rightarrow> string \<Rightarrow> bool" where
  "supports caps kind \<longleftrightarrow> kind = ''tcp'' \<and> caps ''probe.tcp'' \<or> kind = ''icmp'' \<and> caps ''probe.icmp''"

section \<open>Targets\<close>

definition trim_dot :: "string \<Rightarrow> string" where
  "trim_dot s = (if s \<noteq> [] \<and> last s = CHR ''.'' then butlast s else s)"

definition valid_target :: "ip_lib \<Rightarrow> string \<Rightarrow> bool" where
  "valid_target lib target \<longleftrightarrow>
     parse_ip lib target \<noteq> None \<or>
     target \<noteq> [] \<and> length target \<le> 253 \<and> list_all valid_label (split_on CHR ''.'' (trim_dot target))"

text \<open>\<open>strings.Index\<close>, \<open>strings.LastIndex\<close> of a byte.\<close>

definition byte_index :: "char \<Rightarrow> string \<Rightarrow> nat option" where
  "byte_index c s = (if List.member s c then Some (length (takeWhile (\<lambda>x. x \<noteq> c) s)) else None)"

definition last_byte_index :: "char \<Rightarrow> string \<Rightarrow> nat option" where
  "last_byte_index c s = map_option (\<lambda>n. length s - 1 - n) (byte_index c (rev s))"

text \<open>\<open>net.SplitHostPort\<close>; \<open>None\<close> is an error.\<close>

definition split_host_port :: "string \<Rightarrow> (string \<times> string) option" where
  "split_host_port s = (case last_byte_index CHR '':'' s of
     None \<Rightarrow> None
   | Some i \<Rightarrow>
     if s ! 0 = CHR ''['' then
       (case byte_index CHR '']'' s of
          None \<Rightarrow> None
        | Some e \<Rightarrow>
          if e + 1 \<noteq> i then None
          else if List.member (drop 1 s) CHR ''['' \<or> List.member (drop (e + 1) s) CHR '']'' then None
          else Some (take (e - 1) (drop 1 s), drop (i + 1) s))
     else
       (let host = take i s in
        if List.member host CHR '':'' \<or> List.member s CHR ''['' \<or> List.member s CHR '']'' then None
        else Some (host, drop (i + 1) s)))"

text \<open>\<open>net.JoinHostPort\<close>.\<close>

definition join_host_port :: "string \<Rightarrow> string \<Rightarrow> string" where
  "join_host_port host port =
     (if List.member host CHR '':'' then CHR ''['' # host @ CHR '']'' # CHR '':'' # port else host @ CHR '':'' # port)"

text \<open>\<open>strconv.Atoi\<close>; \<open>None\<close> is an error.\<close>

definition atoi :: "string \<Rightarrow> int option" where
  "atoi s = (let negative = s \<noteq> [] \<and> s ! 0 = CHR ''-'';
                 digits = (if s \<noteq> [] \<and> (s ! 0 = CHR ''-'' \<or> s ! 0 = CHR ''+'') then drop 1 s else s);
                 v = (if negative then - int (dec_val digits) else int (dec_val digits))
             in if digits = [] \<or> \<not> list_all is_digit digits \<or> \<not> in64 v then None else Some v)"

definition parse_target :: "ip_lib \<Rightarrow> string \<Rightarrow> string \<Rightarrow> monitor_error + (string \<times> int option)" where
  "parse_target lib kind target0 =
     (let target = trim_space target0 in
      if kind = ''icmp'' then (if \<not> valid_target lib target then Inl ErrProbeInvalid else Inr (target, None))
      else if kind \<noteq> ''tcp'' then Inl ErrProbeInvalid
      else case split_host_port target of
        None \<Rightarrow> Inl ErrProbeInvalid
      | Some (host, raw) \<Rightarrow>
        (case atoi raw of
           None \<Rightarrow> Inl ErrProbeInvalid
         | Some port \<Rightarrow>
           if port < 1 \<or> port > 65535 \<or> trim_char_set ''0123456789'' raw \<noteq> [] then Inl ErrProbeInvalid
           else if \<not> valid_target lib host then Inl ErrProbeInvalid
           else Inr (host, Some port)))"

definition validate_task :: "ip_lib \<Rightarrow> probe_task_row \<Rightarrow> bool" where
  "validate_task lib t \<longleftrightarrow>
     trim_space (pbt_name t) \<noteq> [] \<and> rune_count (pbt_name t) \<le> 100 \<and>
     (pbt_type t = ''tcp'' \<or> pbt_type t = ''icmp'') \<and>
     valid_target lib (pbt_target t) \<and>
     (if pbt_type t = ''tcp'' then (case pbt_port t of None \<Rightarrow> False | Some p \<Rightarrow> 1 \<le> p \<and> p \<le> 65535) else pbt_port t = None) \<and>
     min_probe_interval \<le> pbt_interval t \<and> pbt_interval t \<le> max_probe_interval"

section \<open>Tasks\<close>

text \<open>A task with the servers it is assigned to.\<close>

type_synonym probe_task = "probe_task_row \<times> id64 list"

definition task_list :: "panel_db \<Rightarrow> probe_task list" where
  "task_list d = map (\<lambda>t. (t, sort (map pbs_server (filter (\<lambda>a. pbs_task a = pbt_id t) (probe_servers d))))) (sort_key pbt_id (probe_tasks d))"

definition server_load :: "panel_db \<Rightarrow> id64 \<Rightarrow> nat" where
  "server_load d k = sql_count (\<lambda>a. pbs_server a = k) (probe_servers d)"

definition over_limit :: "panel_db \<Rightarrow> bool" where
  "over_limit d \<longleftrightarrow> sql_count pbt_default_on (probe_tasks d) > max_probe_tasks \<or>
     sql_exists (\<lambda>a. server_load d (pbs_server a) > max_probe_tasks) (probe_servers d)"

definition usable_server :: "panel_db \<Rightarrow> id64 \<Rightarrow> bool" where
  "usable_server d k \<longleftrightarrow> sql_exists (bumpable k) (servers d)"

definition assign :: "id64 \<Rightarrow> id64 list \<Rightarrow> panel_db \<Rightarrow> panel_db" where
  "assign tid ks d = d\<lparr>probe_servers := probe_servers d @ map (\<lambda>k. \<lparr>pbs_task = tid, pbs_server = k\<rparr>) ks\<rparr>"

definition save_task :: "ip_lib \<Rightarrow> unix_time \<Rightarrow> id64 \<Rightarrow> probe_task \<Rightarrow> panel_db \<Rightarrow> monitor_error + (probe_task \<times> panel_db)" where
  "save_task lib now tid value d =
     (let ks = snd value;
          t = (fst value)\<lparr>pbt_id := tid, pbt_name := trim_space (pbt_name (fst value)), pbt_target := trim_space (pbt_target (fst value))\<rparr>
      in if \<not> validate_task lib t then Inl ErrProbeInvalid
         else if list_ex (\<lambda>k. k \<le> 0) ks \<or> \<not> distinct ks then Inl ErrProbeInvalid
         else case (if tid = 0 then Some now else map_option pbt_created_at (sql_first (\<lambda>x. pbt_id x = tid) (probe_tasks d))) of
           None \<Rightarrow> Inl ErrProbeNotFound
         | Some created \<Rightarrow>
           if list_ex (\<lambda>k. \<not> usable_server d k) ks then Inl ErrProbeInvalid
           else
             let i = (if tid = 0 then probe_tasks_seq d + 1 else tid);
                 row = t\<lparr>pbt_id := i, pbt_created_at := created, pbt_updated_at := now\<rparr>;
                 d1 = (if tid = 0 then d\<lparr>probe_tasks := probe_tasks d @ [row], probe_tasks_seq := i\<rparr>
                   else d\<lparr>probe_tasks := sql_update (\<lambda>x. pbt_id x = tid) (\<lambda>x. row\<lparr>pbt_created_at := pbt_created_at x\<rparr>) (probe_tasks d),
                     probe_servers := sql_delete (\<lambda>a. pbs_task a = tid) (probe_servers d)\<rparr>);
                 d2 = assign i ks d1
             in if over_limit d2 then Inl ErrTaskLimit else Inr ((row, ks), d2))"

definition delete_task :: "id64 \<Rightarrow> panel_db \<Rightarrow> monitor_error + panel_db" where
  "delete_task tid d =
     (if sql_count (\<lambda>t. pbt_id t = tid) (probe_tasks d) = 0 then Inl ErrProbeNotFound
      else Inr (d\<lparr>probe_tasks := sql_delete (\<lambda>t. pbt_id t = tid) (probe_tasks d),
        probe_servers := sql_delete (\<lambda>a. pbs_task a = tid) (probe_servers d),
        probe_records := sql_delete (\<lambda>r. pbr_task r = tid) (probe_records d)\<rparr>))"

text \<open>\<open>saveProbe\<close>: creation, or a change of the fields the request names.\<close>

record probe_request =
  prq_name :: "string option"
  prq_type :: "string option"
  prq_target :: "string option"
  prq_interval :: "int option"
  prq_enabled :: "bool option"
  prq_default_on :: "bool option"
  prq_servers :: "id64 list option"

definition opt :: "'a option \<Rightarrow> 'a \<Rightarrow> 'a" where
  "opt x y = (case x of None \<Rightarrow> y | Some v \<Rightarrow> v)"

definition new_task :: probe_task where
  "new_task = (\<lparr>pbt_id = 0, pbt_name = [], pbt_type = [], pbt_target = [], pbt_port = None, pbt_interval = 60,
     pbt_enabled = True, pbt_default_on = True, pbt_created_at = 0, pbt_updated_at = 0\<rparr>, [])"

definition itoa :: "int \<Rightarrow> string" where
  "itoa n = (if n < 0 then CHR ''-'' # dec (nat (- n)) else dec (nat n))"

definition target_text :: "probe_task_row \<Rightarrow> string" where
  "target_text t = (case (pbt_type t = ''tcp'', pbt_port t) of
     (True, Some p) \<Rightarrow> join_host_port (pbt_target t) (itoa p)
   | _ \<Rightarrow> pbt_target t)"

definition save_probe :: "ip_lib \<Rightarrow> unix_time \<Rightarrow> id64 \<Rightarrow> probe_request \<Rightarrow> panel_db \<Rightarrow> monitor_error + (probe_task \<times> panel_db)" where
  "save_probe lib now tid request d =
     (case (if tid = 0 then Some new_task else find (\<lambda>v. pbt_id (fst v) = tid) (task_list d)) of
        None \<Rightarrow> Inl ErrProbeNotFound
      | Some (t, ks) \<Rightarrow>
        let kind = opt (prq_type request) (pbt_type t) in
        (case parse_target lib kind (opt (prq_target request) (target_text t)) of
           Inl e \<Rightarrow> Inl e
         | Inr (target, port) \<Rightarrow>
           save_task lib now tid (t\<lparr>pbt_name := opt (prq_name request) (pbt_name t), pbt_type := kind, pbt_target := target,
             pbt_port := port, pbt_interval := opt (prq_interval request) (pbt_interval t),
             pbt_enabled := opt (prq_enabled request) (pbt_enabled t), pbt_default_on := opt (prq_default_on request) (pbt_default_on t)\<rparr>,
             opt (prq_servers request) ks) d))"

section \<open>Assignments of a server\<close>

definition list_assignments :: "id64 \<Rightarrow> panel_db \<Rightarrow> monitor_error + (probe_task_row \<times> bool) list" where
  "list_assignments k d =
     (if \<not> usable_server d k then Inl ErrProbeInvalid
      else Inr (map (\<lambda>t. (t, sql_exists (\<lambda>a. pbs_task a = pbt_id t \<and> pbs_server a = k) (probe_servers d))) (sort_key pbt_id (probe_tasks d))))"

definition set_assignments :: "id64 \<Rightarrow> id64 list \<Rightarrow> panel_db \<Rightarrow> monitor_error + panel_db" where
  "set_assignments k tids d =
     (if length tids > max_probe_tasks then Inl ErrTaskLimit
      else if list_ex (\<lambda>t. t \<le> 0) tids \<or> \<not> distinct tids then Inl ErrProbeInvalid
      else if \<not> usable_server d k then Inl ErrProbeInvalid
      else if list_ex (\<lambda>i. \<not> sql_exists (\<lambda>t. pbt_id t = i) (probe_tasks d)) tids then Inl ErrProbeInvalid
      else Inr (d\<lparr>probe_servers := sql_delete (\<lambda>a. pbs_server a = k) (probe_servers d) @
        map (\<lambda>i. \<lparr>pbs_task = i, pbs_server = k\<rparr>) tids\<rparr>))"

section \<open>Dispatch and results\<close>

definition runs :: "id64 \<Rightarrow> panel_db \<Rightarrow> probe_task_row \<Rightarrow> bool" where
  "runs k d t \<longleftrightarrow> pbt_enabled t \<and> sql_exists (\<lambda>a. pbs_task a = pbt_id t \<and> pbs_server a = k) (probe_servers d)"

definition desired_tasks :: "id64 \<Rightarrow> (string \<Rightarrow> bool) \<Rightarrow> panel_db \<Rightarrow> monitor_error + probe_task_row list" where
  "desired_tasks k caps d =
     (let values = (if usable_server d k then filter (\<lambda>t. runs k d t \<and> supports caps (pbt_type t)) (sort_key pbt_id (probe_tasks d)) else [])
      in if length values > max_probe_tasks then Inl ErrTaskLimit else Inr values)"

record probe_result =
  prs_task :: id64
  prs_outcome :: string
  prs_latency :: "go_float option"

definition failed_outcomes :: "string list" where
  "failed_outcomes = [''timeout'', ''dns_error'', ''connect_error'', ''permission_error'', ''cancelled'']"

definition usable_latency :: "go_float option \<Rightarrow> bool" where
  "usable_latency l = (case l of Some (Finite q) \<Rightarrow> 0 \<le> q | _ \<Rightarrow> False)"

definition ingest :: "int \<Rightarrow> id64 \<Rightarrow> (string \<Rightarrow> bool) \<Rightarrow> probe_result \<Rightarrow> panel_db \<Rightarrow> monitor_error + panel_db" where
  "ingest now_ms k caps r d =
     (let latency = (if prs_outcome r = ''success'' then prs_latency r else None) in
      if (if prs_outcome r = ''success'' then \<not> usable_latency latency else \<not> List.member failed_outcomes (prs_outcome r))
      then Inl ErrProbeResult
      else case (if usable_server d k then sql_first (\<lambda>t. pbt_id t = prs_task r \<and> runs k d t) (probe_tasks d) else None) of
        None \<Rightarrow> Inl ErrProbeResult
      | Some t \<Rightarrow>
        if \<not> supports caps (pbt_type t) then Inl ErrProbeResult
        else Inr (d\<lparr>probe_records := probe_records d @ [\<lparr>pbr_server = k, pbr_task = prs_task r, pbr_ts = now_ms,
          pbr_outcome = prs_outcome r, pbr_latency = latency\<rparr>]\<rparr>))"

section \<open>History\<close>

definition probe_history_retention :: int where
  "probe_history_retention = 24 * 3600 * 1000"

record probe_summary =
  psm_task :: probe_task_row
  psm_latest :: "(string \<times> go_float option) option"
  psm_failure :: "(nat \<times> nat) option"

definition counts :: "probe_task_row \<Rightarrow> probe_record_row \<Rightarrow> bool" where
  "counts t r \<longleftrightarrow> pbr_outcome r = ''success'' \<or> pbr_outcome r = ''timeout'' \<or>
     pbt_type t = ''tcp'' \<and> (pbr_outcome r = ''dns_error'' \<or> pbr_outcome r = ''connect_error'')"

definition window :: "id64 \<Rightarrow> int \<Rightarrow> int \<Rightarrow> panel_db \<Rightarrow> probe_task_row \<Rightarrow> probe_record_row list" where
  "window k from to d t = sort_key pbr_ts
     (filter (\<lambda>r. pbr_server r = k \<and> pbr_task r = pbt_id t \<and> from \<le> pbr_ts r \<and> pbr_ts r \<le> to) (probe_records d))"

definition summarise :: "probe_task_row \<Rightarrow> probe_record_row list \<Rightarrow> probe_summary" where
  "summarise t rs = (let total = length (filter (counts t) rs); failed = length (filter (\<lambda>r. counts t r \<and> pbr_outcome r \<noteq> ''success'') rs) in
     \<lparr>psm_task = t, psm_latest = (if rs = [] then None else Some (pbr_outcome (last rs), pbr_latency (last rs))),
      psm_failure = (if total > 0 then Some (failed, total) else None)\<rparr>)"

definition history :: "int \<Rightarrow> id64 \<Rightarrow> int \<Rightarrow> (string \<Rightarrow> bool) \<Rightarrow> panel_db \<Rightarrow> monitor_error + (probe_summary list \<times> probe_record_row list)" where
  "history now_ms k hours caps d =
     (if hours \<noteq> 1 \<and> hours \<noteq> 6 \<and> hours \<noteq> 24 then Inl ErrProbeInvalid
      else case desired_tasks k caps d of
        Inl e \<Rightarrow> Inl e
      | Inr ts \<Rightarrow>
        let rows = (\<lambda>t. window k (now_ms - hours * 3600000) now_ms d t)
        in Inr (map (\<lambda>t. summarise t (rows t)) ts, concat (map rows ts)))"

definition cleanup_records :: "int \<Rightarrow> panel_db \<Rightarrow> panel_db" where
  "cleanup_records now_ms d = d\<lparr>probe_records := sql_delete (\<lambda>r. pbr_ts r < now_ms - probe_history_retention) (probe_records d)\<rparr>"

end
