(* ===== verification/ServerAccess.thy ===== *)
theory ServerAccess
  imports Monitor ServerTraffic
begin

text \<open>
  Creation of servers and who may see them (\<open>panel/internal/server/server.go\<close> and
  \<open>access.go\<close>), and the domains bound to a server (\<open>lifecycle.go\<close>).
  \<open>lower\<close> is \<open>strings.ToLower\<close>, \<open>fresh\<close> the enrolment token drawn and \<open>h\<close> its hash.
\<close>

datatype create_error = ErrCreate lifecycle_error | ErrCreateRenewal renewal_error
  | ErrCreateTraffic server_error | ErrCreateProbes monitor_error

section \<open>Visibility\<close>

definition panel_role :: "string \<Rightarrow> bool" where
  "panel_role r \<longleftrightarrow> r = ''admin'' \<or> r = ''vip''"

definition panel_user :: "panel_db \<Rightarrow> id64 \<Rightarrow> bool" where
  "panel_user d u \<longleftrightarrow> sql_exists (\<lambda>x. usr_id x = u \<and> panel_role (usr_role x)) (users (accounts d))"

definition sees :: "panel_db \<Rightarrow> id64 \<Rightarrow> server_row \<Rightarrow> bool" where
  "sees d u s \<longleftrightarrow> srv_visibility s = ''public'' \<or>
     sql_exists (\<lambda>a. acc_server_id a = srv_id s \<and> acc_user_id a = u \<and> panel_user d u) (server_access d)"

definition can_access :: "id64 \<Rightarrow> id64 \<Rightarrow> panel_db \<Rightarrow> bool" where
  "can_access u k d \<longleftrightarrow> 0 < u \<and> 0 < k \<and> sql_exists (\<lambda>s. srv_id s = k \<and> sees d u s) (servers d)"

definition list_visible_servers :: "bool \<Rightarrow> id64 \<Rightarrow> panel_db \<Rightarrow> server_row list" where
  "list_visible_servers archived u d = sort_key (\<lambda>s. - srv_created_at s) (sort_key (\<lambda>s. - srv_id s)
     (filter (\<lambda>s. (srv_archived_at s \<noteq> None) = archived \<and> (u \<le> 0 \<or> sees d u s)) (servers d)))"

definition normalize_visibility :: "(string \<Rightarrow> string) \<Rightarrow> string \<Rightarrow> lifecycle_error + string" where
  "normalize_visibility lower value =
     (let v = lower (trim_space value) in
      if v = [] then Inr ''public''
      else if v \<noteq> ''public'' \<and> v \<noteq> ''private'' then Inl ErrInvalidVisibility else Inr v)"

definition normalize_access_users :: "id64 list \<Rightarrow> id64 \<Rightarrow> lifecycle_error + id64 list" where
  "normalize_access_users values current =
     (if list_ex (\<lambda>u. u \<le> 0) values then Inl ErrInvalidServerAccess
      else let seen = values @ (if current > 0 then [current] else [])
           in if seen = [] then Inl ErrInvalidServerAccess else Inr (sort (remdups seen)))"

definition replace_access :: "id64 \<Rightarrow> id64 list \<Rightarrow> panel_db \<Rightarrow> panel_db" where
  "replace_access k us d = d\<lparr>server_access := sql_delete (\<lambda>a. acc_server_id a = k) (server_access d) @
     map (\<lambda>u. \<lparr>acc_server_id = k, acc_user_id = u\<rparr>) us\<rparr>"

definition update_access :: "(string \<Rightarrow> string) \<Rightarrow> unix_time \<Rightarrow> id64 \<Rightarrow> id64 \<Rightarrow> string \<Rightarrow> id64 list \<Rightarrow> panel_db \<Rightarrow>
    lifecycle_error + ((string \<times> id64 list) \<times> panel_db)" where
  "update_access lower now k current visibility ids d =
     (case normalize_visibility lower visibility of
        Inl e \<Rightarrow> Inl e
      | Inr vis \<Rightarrow>
        (case (if vis = ''private'' then normalize_access_users ids current else Inr []) of
           Inl e \<Rightarrow> Inl e
         | Inr us \<Rightarrow>
           if \<not> can_access current k d then Inl server_gone
           else if vis = ''private'' \<and> list_ex (\<lambda>u. \<not> panel_user d u) us then Inl ErrInvalidServerAccess
           else Inr ((vis, us), replace_access k us (d\<lparr>servers := sql_update (\<lambda>s. srv_id s = k)
             (\<lambda>s. s\<lparr>srv_visibility := vis, srv_updated_at := now\<rparr>) (servers d)\<rparr>))))"

section \<open>Bound domains\<close>

text \<open>\<open>unicode.IsControl\<close> over the runes of a string: C0, DEL, and C1 in its UTF-8 form.\<close>

fun has_control :: "string \<Rightarrow> bool" where
  "has_control [] \<longleftrightarrow> False"
| "has_control (c # s) \<longleftrightarrow> (of_char c :: nat) < 32 \<or> (of_char c :: nat) = 127 \<or>
     (of_char c :: nat) = 0xC2 \<and> (case s of [] \<Rightarrow> False | x # _ \<Rightarrow> byte_in 0x80 0x9F x) \<or> has_control s"

definition domain_char :: "char \<Rightarrow> bool" where
  "domain_char c \<longleftrightarrow> 97 \<le> (of_char c :: nat) \<and> (of_char c :: nat) \<le> 122 \<or> is_digit c \<or> c = CHR ''-''"

definition domain_label :: "string \<Rightarrow> bool" where
  "domain_label l \<longleftrightarrow> l \<noteq> [] \<and> length l \<le> 63 \<and> l ! 0 \<noteq> CHR ''-'' \<and> l ! (length l - 1) \<noteq> CHR ''-'' \<and> list_all domain_char l"

definition normalize_bound_domain :: "(string \<Rightarrow> string) \<Rightarrow> ip_lib \<Rightarrow> string \<Rightarrow> lifecycle_error + string" where
  "normalize_bound_domain lower lib value =
     (if has_control value then Inl ErrInvalidBoundDomain
      else let v0 = lower (trim_space value) in
        if v0 = [] then Inr []
        else let v = trim_dot v0 in
          if v = [] \<or> length v > 253 \<or> parse_ip lib v \<noteq> None \<or> \<not> list_all domain_label (split_on CHR ''.'' v)
          then Inl ErrInvalidBoundDomain else Inr v)"

definition domain_of :: "(string \<Rightarrow> string) \<Rightarrow> ip_lib \<Rightarrow> string option \<Rightarrow> lifecycle_error + string option" where
  "domain_of lower lib v = (case v of None \<Rightarrow> Inr None | Some s \<Rightarrow> map_sum id Some (normalize_bound_domain lower lib s))"

definition ipv6_unavailable :: "ip_lib \<Rightarrow> id64 \<Rightarrow> panel_db \<Rightarrow> bool" where
  "ipv6_unavailable lib k d = (case sql_first (\<lambda>i. sys_server i = k) (system_infos d) of
     None \<Rightarrow> False
   | Some i \<Rightarrow> \<not> has_ipv6_stack lib (sys_ipv6 i) \<and> effective_public_ipv6 lib (sys_public6 i) (sys_ipv6 i) = [])"

definition update_bound_domains :: "(string \<Rightarrow> string) \<Rightarrow> ip_lib \<Rightarrow> unix_time \<Rightarrow> id64 \<Rightarrow> string option \<Rightarrow> string option \<Rightarrow> panel_db \<Rightarrow>
    lifecycle_error + panel_db" where
  "update_bound_domains lower lib now k d4 d6 d =
     (case domain_of lower lib d4 of
        Inl e \<Rightarrow> Inl e
      | Inr v4 \<Rightarrow>
        (case domain_of lower lib d6 of
           Inl e \<Rightarrow> Inl e
         | Inr v6 \<Rightarrow>
           let update = update_live_server k (\<lambda>s. s\<lparr>srv_domain4 := opt v4 (srv_domain4 s), srv_domain6 := opt v6 (srv_domain6 s),
                  srv_updated_at := now\<rparr>) d
           in if opt v6 [] = [] then update
              else case sql_first (live_server k) (servers d) of
                None \<Rightarrow> Inl server_gone
              | Some s \<Rightarrow> if v6 \<noteq> Some (srv_domain6 s) \<and> ipv6_unavailable lib k d then Inl ErrIPv6Unavailable else update))"

section \<open>Creation\<close>

record create_input =
  cin_name :: string
  cin_bandwidth :: "int option"
  cin_stack :: "string option"
  cin_domain4 :: string
  cin_domain6 :: string
  cin_visibility :: string
  cin_users :: "id64 list"
  cin_creator :: id64
  cin_expires :: "unix_time option"
  cin_period :: "int option"
  cin_auto_renew :: bool
  cin_limit :: "int option"
  cin_mode :: string
  cin_day :: int
  cin_time :: string

definition creation_texts :: "(string \<Rightarrow> string) \<Rightarrow> ip_lib \<Rightarrow> create_input \<Rightarrow>
    create_error + (string \<times> string \<times> string \<times> string \<times> id64 list)" where
  "creation_texts lower lib inp =
     (case validate_network_metadata (cin_bandwidth inp) (cin_stack inp) of
        Some e \<Rightarrow> Inl (ErrCreate e)
      | None \<Rightarrow>
     (case normalize_server_name (cin_name inp) of
        Inl e \<Rightarrow> Inl (ErrCreate e)
      | Inr name \<Rightarrow>
     (case normalize_bound_domain lower lib (cin_domain4 inp) of
        Inl e \<Rightarrow> Inl (ErrCreate e)
      | Inr d4 \<Rightarrow>
     (case normalize_bound_domain lower lib (cin_domain6 inp) of
        Inl e \<Rightarrow> Inl (ErrCreate e)
      | Inr d6 \<Rightarrow>
     (case normalize_visibility lower (cin_visibility inp) of
        Inl e \<Rightarrow> Inl (ErrCreate e)
      | Inr vis \<Rightarrow>
     (case (if vis = ''private'' then normalize_access_users (cin_users inp) (cin_creator inp) else Inr []) of
        Inl e \<Rightarrow> Inl (ErrCreate e)
      | Inr us \<Rightarrow> Inr (name, d4, d6, vis, us)))))))"

definition creation_renewal :: "create_input \<Rightarrow> create_error + (int option \<times> bool \<times> int option)" where
  "creation_renewal inp =
     (if (case cin_period inp of None \<Rightarrow> False | Some p \<Rightarrow> \<not> valid_renewal_period p) then Inl (ErrCreateRenewal ErrInvalidRenewalPeriod)
      else if cin_auto_renew inp \<and> (cin_expires inp = None \<or> cin_period inp = None) then Inl (ErrCreateRenewal ErrAutoRenewRequirements)
      else Inr (case cin_expires inp of
        None \<Rightarrow> (None, False, None)
      | Some e \<Rightarrow> (case cin_period inp of
          None \<Rightarrow> (None, False, None)
        | Some p \<Rightarrow> (Some p, cin_auto_renew inp, Some (t_day shanghai e)))))"

definition creation_traffic :: "create_input \<Rightarrow> create_error + (int option \<times> string \<times> int \<times> string)" where
  "creation_traffic inp =
     (if (case cin_limit inp of None \<Rightarrow> False | Some l \<Rightarrow> l < 0) then Inl (ErrCreateTraffic ErrInvalidTrafficConfig)
      else
        let limit = (if cin_limit inp = Some 0 then None else cin_limit inp);
            mode = (if cin_mode inp = [] then ''single'' else cin_mode inp);
            day = (if cin_day inp = 0 then 1 else cin_day inp);
            time = (if cin_time inp = [] then ''00:00'' else cin_time inp)
        in if mode \<noteq> ''single'' \<and> mode \<noteq> ''bidirectional'' \<or> day < 1 \<or> day > 31 \<or> \<not> valid_traffic_reset_time time
           then Inl (ErrCreateTraffic ErrInvalidTrafficConfig)
           else Inr (limit, mode, day, time))"

definition creation_role :: "id64 \<Rightarrow> panel_db \<Rightarrow> create_error + string" where
  "creation_role creator d =
     (if creator \<le> 0 then Inr ''unknown''
      else case sql_first (\<lambda>u. usr_id u = creator) (users (accounts d)) of
        None \<Rightarrow> Inl (ErrCreate ErrInvalidServerAccess)
      | Some u \<Rightarrow> if \<not> panel_role (usr_role u) then Inl (ErrCreate ErrInvalidServerAccess) else Inr (usr_role u))"

text \<open>The rest of the transaction, from the \<open>INSERT INTO servers\<close> on.\<close>

definition insert_server ::
  "(string \<Rightarrow> string) \<Rightarrow> unix_time \<Rightarrow> string \<Rightarrow> server_row \<Rightarrow> id64 list \<Rightarrow> panel_db \<Rightarrow> create_error + panel_db" where
  "insert_server h now fresh row us d =
     (let k = srv_id row;
          d1 = d\<lparr>servers := servers d @ [row], servers_seq := k\<rparr>
      in if srv_visibility row = ''private'' \<and> list_ex (\<lambda>u. \<not> panel_user d1 u) us then Inl (ErrCreate ErrInvalidServerAccess)
         else
           let d2 = insert_enrollment now (h fresh) k ''initial'' (if srv_visibility row = ''private'' then replace_access k us d1 else d1);
               defaults = filter pbt_default_on (probe_tasks d2);
               d3 = d2\<lparr>probe_servers := probe_servers d2 @ map (\<lambda>t. \<lparr>pbs_task = pbt_id t, pbs_server = k\<rparr>) defaults\<rparr>
           in if length defaults > max_probe_tasks then Inl (ErrCreateProbes ErrTaskLimit) else Inr d3)"

definition create_with_settings ::
  "(string \<Rightarrow> string) \<Rightarrow> ip_lib \<Rightarrow> (string \<Rightarrow> string) \<Rightarrow> unix_time \<Rightarrow> string \<Rightarrow> create_input \<Rightarrow> panel_db \<Rightarrow>
    create_error + ((server_row \<times> string) \<times> panel_db)" where
  "create_with_settings lower lib h now fresh inp d =
     (case creation_texts lower lib inp of
        Inl e \<Rightarrow> Inl e
      | Inr (name, d4, d6, vis, us) \<Rightarrow>
     (case creation_renewal inp of
        Inl e \<Rightarrow> Inl e
      | Inr (period, auto_renew, anchor) \<Rightarrow>
     (case creation_traffic inp of
        Inl e \<Rightarrow> Inl e
      | Inr (limit, mode, day, time) \<Rightarrow>
     (case creation_role (cin_creator inp) d of
        Inl e \<Rightarrow> Inl e
      | Inr role \<Rightarrow>
        let user = (if cin_creator inp > 0 then Some (cin_creator inp) else None);
            row = \<lparr>srv_id = servers_seq d + 1, srv_name = name, srv_status = ''pending'', srv_visibility = vis, srv_version = 1,
              srv_decom_at = None, srv_decom_status = [], srv_decom_error = [], srv_archived_at = None,
              srv_expires_at = cin_expires inp, srv_period = period, srv_auto_renew = auto_renew, srv_anchor = anchor,
              srv_limit = limit, srv_count_mode = mode, srv_reset_day = day, srv_reset_time = time, srv_updated_at = now,
              srv_created_role = role, srv_created_at = now, srv_owner = user, srv_creator = user,
              srv_bandwidth = cin_bandwidth inp, srv_stack = cin_stack inp, srv_domain4 = d4, srv_domain6 = d6,
              srv_outbound = ''auto'', srv_block_china = False\<rparr>
        in (case insert_server h now fresh row us d of
              Inl e \<Rightarrow> Inl e
            | Inr d' \<Rightarrow> Inr ((row, fresh), d'))))))"

text \<open>\<open>CreateForUser\<close> and \<open>Create\<close>.\<close>

definition create_for_user ::
  "(string \<Rightarrow> string) \<Rightarrow> ip_lib \<Rightarrow> (string \<Rightarrow> string) \<Rightarrow> unix_time \<Rightarrow> string \<Rightarrow> string \<Rightarrow> string \<Rightarrow> id64 list \<Rightarrow> id64 \<Rightarrow> panel_db \<Rightarrow>
    create_error + ((server_row \<times> string) \<times> panel_db)" where
  "create_for_user lower lib h now fresh name visibility ids creator =
     create_with_settings lower lib h now fresh \<lparr>cin_name = name, cin_bandwidth = None, cin_stack = None, cin_domain4 = [],
       cin_domain6 = [], cin_visibility = visibility, cin_users = ids, cin_creator = creator, cin_expires = None,
       cin_period = None, cin_auto_renew = False, cin_limit = None, cin_mode = [], cin_day = 0, cin_time = []\<rparr>"

definition create_server ::
  "(string \<Rightarrow> string) \<Rightarrow> ip_lib \<Rightarrow> (string \<Rightarrow> string) \<Rightarrow> unix_time \<Rightarrow> string \<Rightarrow> string \<Rightarrow> panel_db \<Rightarrow>
    create_error + ((server_row \<times> string) \<times> panel_db)" where
  "create_server lower lib h now fresh name = create_for_user lower lib h now fresh name ''public'' [] 0"

text \<open>\<open>UpdateExpiration\<close>.\<close>

definition update_expiration :: "unix_time \<Rightarrow> id64 \<Rightarrow> unix_time option \<Rightarrow> panel_db \<Rightarrow> renewal_error + panel_db" where
  "update_expiration now k e = update_renewal_settings now k \<lparr>expires_at_set = True, upd_expires_at = e,
     renewal_period_set = False, upd_period_months = None, auto_renew_set = False, upd_auto_renew = False\<rparr>"

end
