(* ===== verification/MonitorSafety.thy ===== *)
theory MonitorSafety
  imports ServerAccess
begin

text \<open>
  Properties of the probes: stored targets survive the editing of a task, no server is ever asked
  to run more tasks than it may, and what a reported result can write.
\<close>

section \<open>Targets as text\<close>

lemma index_of_append: "c \<notin> set a \<Longrightarrow> byte_index c (a @ c # b) = Some (length a)"
  by (induction a) (auto simp: byte_index_def)

lemma last_index_of_append: "c \<notin> set b \<Longrightarrow> last_byte_index c (a @ c # b) = Some (length a)"
  using index_of_append [of c "rev b" "rev a"] by (simp add: last_byte_index_def)

lemma split_join_host_port:
  assumes "CHR ''['' \<notin> set host" "CHR '']'' \<notin> set host" "CHR '':'' \<notin> set port" "CHR ''['' \<notin> set port" "CHR '']'' \<notin> set port"
  shows "split_host_port (join_host_port host port) = Some (host, port)"
proof (cases "CHR '':'' \<in> set host")
  case True
  let ?s = "CHR ''['' # host @ CHR '']'' # CHR '':'' # port"
  have "last_byte_index CHR '':'' ?s = Some (length host + 2)"
    using last_index_of_append [OF assms(3), of "CHR ''['' # host @ [CHR '']'']"] by simp
  moreover have "byte_index CHR '']'' ?s = Some (length host + 1)"
    using index_of_append [of "CHR '']''" "CHR ''['' # host" "CHR '':'' # port"] assms(2) by simp
  ultimately show ?thesis
    using True assms by (simp add: split_host_port_def join_host_port_def)
next
  case False
  have "last_byte_index CHR '':'' (host @ CHR '':'' # port) = Some (length host)"
    using last_index_of_append [OF assms(3)] .
  moreover have "(host @ CHR '':'' # port) ! 0 \<noteq> CHR ''[''"
    using assms(1) by (cases host) auto
  ultimately show ?thesis
    using False assms by (simp add: split_host_port_def join_host_port_def)
qed

text \<open>Characters of an IP address, and of any valid target.\<close>

definition ip_char :: "char \<Rightarrow> bool" where
  "ip_char c \<longleftrightarrow> ascii_alpha c \<or> is_digit c \<or> c = CHR ''.'' \<or> c = CHR '':''"

definition ip_lib_ok :: "ip_lib \<Rightarrow> bool" where
  "ip_lib_ok lib \<longleftrightarrow> (\<forall>s. parse_ip lib s \<noteq> None \<longrightarrow> s \<noteq> [] \<and> list_all ip_char s)"

definition target_char :: "char \<Rightarrow> bool" where
  "target_char c \<longleftrightarrow> ip_char c \<or> c = CHR ''-''"

lemma target_char_plain: "target_char c \<Longrightarrow> plain_char c \<and> c \<noteq> CHR ''['' \<and> c \<noteq> CHR '']''"
  by (auto simp: target_char_def ip_char_def ascii_alpha_def Let_def is_digit_def plain_char_def)

lemma join_with_chars: "set (join_with c ws) \<subseteq> insert c (\<Union>w \<in> set ws. set w)"
  by (induction c ws rule: join_with.induct) auto

lemma valid_target_chars:
  assumes "ip_lib_ok lib" "valid_target lib s"
  shows "s \<noteq> [] \<and> list_all target_char s"
proof (cases "parse_ip lib s = None")
  case False
  then show ?thesis
    using assms(1) by (auto simp: ip_lib_ok_def target_char_def list_all_iff)
next
  case True
  then have s: "s \<noteq> []" "list_all valid_label (split_on CHR ''.'' (trim_dot s))"
    using assms(2) by (auto simp: valid_target_def)
  have "set (trim_dot s) \<subseteq> insert CHR ''.'' (\<Union>w \<in> set (split_on CHR ''.'' (trim_dot s)). set w)"
    using join_with_chars [of "CHR ''.''" "split_on CHR ''.'' (trim_dot s)"] by (simp add: join_split)
  moreover have "\<forall>w \<in> set (split_on CHR ''.'' (trim_dot s)). \<forall>c \<in> set w. target_char c"
    using s(2) by (auto simp: list_all_iff valid_label_def label_char_def target_char_def ip_char_def)
  moreover have dot: "target_char CHR ''.''"
    by (simp add: target_char_def ip_char_def)
  ultimately have "\<forall>c \<in> set (trim_dot s). target_char c"
    by blast
  moreover have "set s \<subseteq> insert CHR ''.'' (set (trim_dot s))"
    by (cases s rule: rev_cases) (auto simp: trim_dot_def)
  ultimately show ?thesis
    using s(1) dot by (auto simp: list_all_iff)
qed

lemma target_trimmed:
  assumes "s \<noteq> []" "list_all target_char s"
  shows "trim_space s = s"
  using assms target_char_plain by (intro trim_space_plain) (auto simp: list_all_iff)

lemma is_digit_dec: "list_all is_digit (dec n)"
  using dec_digits by (simp add: list_all_iff)

lemma atoi_itoa: "0 \<le> n \<Longrightarrow> in64 n \<Longrightarrow> atoi (itoa n) = Some n"
proof -
  assume n: "0 \<le> n" "in64 n"
  have "is_digit (dec (nat n) ! 0)"
    using is_digit_dec [of "nat n"] by (cases "dec (nat n)") auto
  then have "dec (nat n) ! 0 \<noteq> CHR ''-''" "dec (nat n) ! 0 \<noteq> CHR ''+''"
    by (auto simp: is_digit_def)
  then show ?thesis
    using n is_digit_dec by (simp add: atoi_def itoa_def Let_def)
qed

lemma digits_trim: "list_all is_digit s \<Longrightarrow> trim_char_set ''0123456789'' s = []"
proof -
  assume s: "list_all is_digit s"
  have "List.member ''0123456789'' c" if "is_digit c" for c
  proof -
    define n where "n = (of_char c :: nat)"
    have "n = 48 \<or> n = 49 \<or> n = 50 \<or> n = 51 \<or> n = 52 \<or> n = 53 \<or> n = 54 \<or> n = 55 \<or> n = 56 \<or> n = 57"
      using that unfolding is_digit_def n_def by arith
    moreover have "c = char_of n"
      by (simp add: n_def)
    ultimately show ?thesis
      by (elim disjE) (simp_all add: char_of_def bit_0)
  qed
  then have "dropWhile (\<lambda>c. List.member ''0123456789'' c) s = []"
    using s unfolding dropWhile_eq_Nil_conv list_all_iff by blast
  then show ?thesis
    by (simp only: trim_char_set_def rev.simps dropWhile.simps)
qed

text \<open>
  C35. A stored target survives the editing of its task: the text the API builds from the target
  and port of any valid task, IPv6 in brackets, parses back to exactly that target and port, so that
  changing another field neither changes nor refuses them.
\<close>

theorem target_roundtrip:
  assumes "ip_lib_ok lib" "validate_task lib t"
  shows "parse_target lib (pbt_type t) (target_text t) = Inr (pbt_target t, pbt_port t)"
proof -
  have v: "valid_target lib (pbt_target t)"
    using assms(2) by (simp add: validate_task_def)
  note chars = valid_target_chars [OF assms(1) v]
  show ?thesis
  proof (cases "pbt_type t = ''tcp''")
    case False
    then have "pbt_type t = ''icmp''" "pbt_port t = None"
      using assms(2) by (auto simp: validate_task_def)
    then show ?thesis
      using v chars target_trimmed by (simp add: parse_target_def target_text_def)
  next
    case True
    then obtain p where p: "pbt_port t = Some p" "1 \<le> p" "p \<le> 65535"
      using assms(2) by (auto simp: validate_task_def split: option.splits)
    have port: "list_all is_digit (itoa p)" "itoa p \<noteq> []"
      using p by (simp_all add: itoa_def is_digit_dec)
    then have no: "CHR '':'' \<notin> set (itoa p)" "CHR ''['' \<notin> set (itoa p)" "CHR '']'' \<notin> set (itoa p)"
      by (auto simp: list_all_iff is_digit_def)
    have brackets: "CHR ''['' \<notin> set (pbt_target t)" "CHR '']'' \<notin> set (pbt_target t)"
      using chars target_char_plain by (auto simp: list_all_iff)
    let ?s = "join_host_port (pbt_target t) (itoa p)"
    have "plain_char (hd ?s)"
      using chars target_char_plain by (cases "pbt_target t") (auto simp: join_host_port_def plain_char_def list_all_iff)
    moreover have "plain_char (last ?s)"
    proof -
      have "last ?s = last (itoa p)"
        using port(2) by (simp add: join_host_port_def)
      moreover have "is_digit (last (itoa p))"
        using port by (simp add: list_all_iff)
      ultimately show ?thesis
        by (simp add: is_digit_def plain_char_def)
    qed
    ultimately have "trim_space ?s = ?s"
      by (intro trim_space_plain) (simp_all add: join_host_port_def)
    moreover have "in64 p"
      using p by (simp add: in64_def min_int64_def max_int64_def)
    ultimately show ?thesis
      using True p v split_join_host_port [OF brackets no] atoi_itoa digits_trim [OF port(1)]
      by (simp add: parse_target_def target_text_def)
  qed
qed

section \<open>The limits of probing\<close>

definition record_ok :: "probe_record_row \<Rightarrow> bool" where
  "record_ok r \<longleftrightarrow> (if pbr_outcome r = ''success'' then usable_latency (pbr_latency r)
     else List.member failed_outcomes (pbr_outcome r) \<and> pbr_latency r = None)"

definition probes_ok :: "ip_lib \<Rightarrow> panel_db \<Rightarrow> bool" where
  "probes_ok lib d \<longleftrightarrow>
     distinct (map pbt_id (probe_tasks d)) \<and> (\<forall>t \<in> set (probe_tasks d). pbt_id t \<le> probe_tasks_seq d \<and> validate_task lib t) \<and>
     distinct (map (\<lambda>a. (pbs_task a, pbs_server a)) (probe_servers d)) \<and>
     (\<forall>a \<in> set (probe_servers d). pbs_task a \<in> pbt_id ` set (probe_tasks d) \<and> pbs_server a \<le> servers_seq d \<and>
        server_load d (pbs_server a) \<le> max_probe_tasks) \<and>
     sql_count pbt_default_on (probe_tasks d) \<le> max_probe_tasks \<and>
     (\<forall>r \<in> set (probe_records d). record_ok r \<and> pbr_task r \<in> pbt_id ` set (probe_tasks d)) \<and>
     (\<forall>s \<in> set (servers d). srv_id s \<le> servers_seq d)"

lemma load_append: "server_load (d\<lparr>probe_servers := xs @ ys\<rparr>) k = sql_count (\<lambda>a. pbs_server a = k) xs + sql_count (\<lambda>a. pbs_server a = k) ys"
  by (simp add: server_load_def sql_count_def)

lemma load_delete: "sql_count P (sql_delete Q xs) \<le> sql_count P xs"
proof -
  have "filter P (sql_delete Q xs) = filter (\<lambda>x. \<not> Q x) (filter P xs)"
    by (simp add: sql_delete_def conj_commute)
  then show ?thesis
    by (simp add: sql_count_def del: filter_filter)
qed

lemma load_zero: "(\<And>a. a \<in> set xs \<Longrightarrow> \<not> P a) \<Longrightarrow> sql_count P xs = 0"
  by (simp add: sql_count_def filter_empty_conv)

lemma valid_untimed: "validate_task lib (t\<lparr>pbt_id := i, pbt_created_at := c, pbt_updated_at := u\<rparr>) = validate_task lib t"
  "validate_task lib (t\<lparr>pbt_created_at := c\<rparr>) = validate_task lib t"
  "validate_task lib (t\<lparr>pbt_id := i, pbt_updated_at := u\<rparr>) = validate_task lib t"
  by (simp_all add: validate_task_def)

lemma not_over_limit:
  "\<not> over_limit d \<Longrightarrow> sql_count pbt_default_on (probe_tasks d) \<le> max_probe_tasks \<and>
     (\<forall>a \<in> set (probe_servers d). server_load d (pbs_server a) \<le> max_probe_tasks)"
  by (auto simp: over_limit_def sql_exists_iff)

lemma save_keeps_ok:
  assumes ok: "probes_ok lib d" and r: "save_task lib now tid value d = Inr (x, d')"
  shows "probes_ok lib d'"
proof -
  define ks where "ks = snd value"
  define t where "t = (fst value)\<lparr>pbt_id := tid, pbt_name := trim_space (pbt_name (fst value)), pbt_target := trim_space (pbt_target (fst value))\<rparr>"
  obtain created where v: "validate_task lib t" "distinct ks" "list_all (usable_server d) ks"
    and e: "tid \<noteq> 0 \<Longrightarrow> \<exists>x \<in> set (probe_tasks d). pbt_id x = tid"
    and d': "d' = assign (if tid = 0 then probe_tasks_seq d + 1 else tid) ks
        (if tid = 0 then d\<lparr>probe_tasks := probe_tasks d @ [t\<lparr>pbt_id := probe_tasks_seq d + 1, pbt_created_at := created, pbt_updated_at := now\<rparr>],
             probe_tasks_seq := probe_tasks_seq d + 1\<rparr>
         else d\<lparr>probe_tasks := sql_update (\<lambda>x. pbt_id x = tid) (\<lambda>x. t\<lparr>pbt_id := tid, pbt_created_at := created, pbt_updated_at := now\<rparr>\<lparr>pbt_created_at := pbt_created_at x\<rparr>) (probe_tasks d),
             probe_servers := sql_delete (\<lambda>a. pbs_task a = tid) (probe_servers d)\<rparr>)"
    and lim: "\<not> over_limit d'"
    using r unfolding save_task_def Let_def ks_def [symmetric] t_def [symmetric]
    by (auto simp: list_ex_iff list_all_iff split: if_splits option.splits dest!: sql_first_SomeD)
  let ?i = "if tid = 0 then probe_tasks_seq d + 1 else tid"
  have ids: "distinct (map pbt_id (probe_tasks d'))" "pbt_id ` set (probe_tasks d) \<subseteq> pbt_id ` set (probe_tasks d')" "?i \<in> pbt_id ` set (probe_tasks d')"
    "\<forall>t \<in> set (probe_tasks d'). pbt_id t \<le> probe_tasks_seq d' \<and> validate_task lib t"
  proof -
    have fresh: "probe_tasks_seq d + 1 \<notin> pbt_id ` set (probe_tasks d)"
      using ok by (force simp: probes_ok_def)
    have up: "map pbt_id (sql_update (\<lambda>x. pbt_id x = tid) (\<lambda>x. t\<lparr>pbt_id := tid, pbt_created_at := created, pbt_updated_at := now\<rparr>\<lparr>pbt_created_at := pbt_created_at x\<rparr>) (probe_tasks d)) = map pbt_id (probe_tasks d)"
      by (simp add: sql_update_def o_def)
    then have up_set: "pbt_id ` set (sql_update (\<lambda>x. pbt_id x = tid) (\<lambda>x. t\<lparr>pbt_id := tid, pbt_created_at := created, pbt_updated_at := now\<rparr>\<lparr>pbt_created_at := pbt_created_at x\<rparr>) (probe_tasks d)) = pbt_id ` set (probe_tasks d)"
      by (metis list.set_map)
    show "distinct (map pbt_id (probe_tasks d'))"
      using ok up fresh by (simp add: d' assign_def probes_ok_def)
    show "pbt_id ` set (probe_tasks d) \<subseteq> pbt_id ` set (probe_tasks d')" "?i \<in> pbt_id ` set (probe_tasks d')"
      using up_set e by (auto simp: d' assign_def)
    show "\<forall>t \<in> set (probe_tasks d'). pbt_id t \<le> probe_tasks_seq d' \<and> validate_task lib t"
      using ok v(1) by (auto simp: d' assign_def probes_ok_def set_sql_update valid_untimed)
  qed
  have pairs: "distinct (map (\<lambda>a. (pbs_task a, pbs_server a)) (probe_servers d'))"
  proof -
    have new: "distinct (map (\<lambda>a. (pbs_task a, pbs_server a)) (map (\<lambda>k. \<lparr>pbs_task = ?i, pbs_server = k\<rparr>) ks))"
      using v(2) by (simp add: o_def distinct_map inj_on_def)
    have old: "\<forall>a \<in> set (if tid = 0 then probe_servers d else sql_delete (\<lambda>a. pbs_task a = tid) (probe_servers d)). pbs_task a \<noteq> ?i"
    proof -
      have "\<forall>a \<in> set (probe_servers d). pbs_task a \<le> probe_tasks_seq d"
        using ok by (auto simp: probes_ok_def)
      then show ?thesis
        by (auto simp: set_sql_delete)
    qed
    have "distinct (map (\<lambda>a. (pbs_task a, pbs_server a)) (if tid = 0 then probe_servers d else sql_delete (\<lambda>a. pbs_task a = tid) (probe_servers d)))"
      using ok by (simp add: probes_ok_def distinct_sql_delete)
    with new old show ?thesis
      by (auto simp: d' assign_def)
  qed
  have srv: "servers d' = servers d" "servers_seq d' = servers_seq d" "probe_records d' = probe_records d"
    by (simp_all add: d' assign_def)
  have "pbs_task a \<in> pbt_id ` set (probe_tasks d') \<and> pbs_server a \<le> servers_seq d'" if a: "a \<in> set (probe_servers d')" for a
  proof -
    have "a \<in> set (probe_servers d) \<or> pbs_task a = ?i \<and> pbs_server a \<in> set ks"
      using a by (auto simp: d' assign_def set_sql_delete split: if_splits)
    then show ?thesis
    proof
      assume "a \<in> set (probe_servers d)"
      then have "pbs_task a \<in> pbt_id ` set (probe_tasks d)" "pbs_server a \<le> servers_seq d"
        using ok by (simp_all add: probes_ok_def)
      then show ?thesis
        using ids(2) by (auto simp: srv)
    next
      assume a: "pbs_task a = ?i \<and> pbs_server a \<in> set ks"
      then obtain s where "s \<in> set (servers d)" "srv_id s = pbs_server a"
        using v(3) by (auto simp: list_all_iff usable_server_def sql_exists_iff bumpable_def)
      then have "pbs_server a \<le> servers_seq d"
        using ok by (auto simp: probes_ok_def)
      then show ?thesis
        using a ids(3) by (simp add: srv)
    qed
  qed
  moreover have "record_ok q \<and> pbr_task q \<in> pbt_id ` set (probe_tasks d')" if "q \<in> set (probe_records d')" for q
    using ok that ids(2) by (auto simp: probes_ok_def srv)
  moreover have "\<forall>s \<in> set (servers d'). srv_id s \<le> servers_seq d'"
    using ok by (simp add: probes_ok_def srv)
  ultimately show ?thesis
    using not_over_limit [OF lim] ids(1,4) pairs unfolding probes_ok_def by blast
qed


text \<open>Operations that leave the tasks alone and lose assignments and records.\<close>

lemma probes_shrink:
  assumes "probes_ok lib d" "probe_tasks d' = probe_tasks d" "probe_tasks_seq d' = probe_tasks_seq d" "servers_seq d' = servers_seq d"
    and "probe_servers d' = sql_delete P (probe_servers d)" "set (probe_records d') \<subseteq> set (probe_records d)"
    and "\<forall>s \<in> set (servers d'). srv_id s \<in> srv_id ` set (servers d)"
  shows "probes_ok lib d'"
proof -
  have lim: "\<forall>a \<in> set (probe_servers d). server_load d (pbs_server a) \<le> max_probe_tasks"
    using assms(1) by (simp add: probes_ok_def)
  have "server_load d' k \<le> server_load d k" for k
    by (simp add: server_load_def assms(5) load_delete)
  then have "\<forall>a \<in> set (probe_servers d'). server_load d' (pbs_server a) \<le> max_probe_tasks"
    using lim by (auto simp: assms(5) set_sql_delete intro: order_trans)
  moreover have "distinct (map (\<lambda>a. (pbs_task a, pbs_server a)) (probe_servers d'))"
    using assms(1) by (simp add: assms(5) probes_ok_def distinct_sql_delete)
  moreover have "\<forall>a \<in> set (probe_servers d'). pbs_task a \<in> pbt_id ` set (probe_tasks d) \<and> pbs_server a \<le> servers_seq d"
    using assms(1) by (simp add: assms(5) probes_ok_def set_sql_delete)
  moreover have "\<forall>s \<in> set (servers d'). srv_id s \<le> servers_seq d"
    using assms(1,7) by (auto simp: probes_ok_def)
  ultimately show ?thesis
    using assms(1,6) unfolding probes_ok_def assms(2-4) by blast
qed

lemma set_keeps_ok:
  assumes ok: "probes_ok lib d" and r: "set_assignments k tids d = Inr d'"
  shows "probes_ok lib d'"
proof -
  have v: "length tids \<le> max_probe_tasks" "distinct tids" "usable_server d k" "list_all (\<lambda>i. sql_exists (\<lambda>t. pbt_id t = i) (probe_tasks d)) tids"
    and d': "d' = d\<lparr>probe_servers := sql_delete (\<lambda>a. pbs_server a = k) (probe_servers d) @ map (\<lambda>i. \<lparr>pbs_task = i, pbs_server = k\<rparr>) tids\<rparr>"
    using r by (auto simp: set_assignments_def list_ex_iff list_all_iff split: if_splits)
  have k: "k \<le> servers_seq d"
    using v(3) ok by (auto simp: usable_server_def sql_exists_iff bumpable_def probes_ok_def)
  have load: "server_load d' j = (if j = k then length tids else server_load d j)" for j
  proof (cases "j = k")
    case True
    then show ?thesis
      by (simp add: d' server_load_def sql_count_def sql_delete_def filter_empty_conv)
  next
    case False
    then have "filter (\<lambda>a. pbs_server a = j) (sql_delete (\<lambda>a. pbs_server a = k) (probe_servers d)) = filter (\<lambda>a. pbs_server a = j) (probe_servers d)"
      unfolding sql_delete_def filter_filter by (intro filter_cong) auto
    then show ?thesis
      using False by (simp add: d' server_load_def sql_count_def)
  qed
  have "distinct (map (\<lambda>a. (pbs_task a, pbs_server a)) (probe_servers d'))"
  proof -
    have "distinct (map (\<lambda>a. (pbs_task a, pbs_server a)) (sql_delete (\<lambda>a. pbs_server a = k) (probe_servers d)))"
      using ok by (simp add: probes_ok_def distinct_sql_delete)
    moreover have "distinct (map (\<lambda>a. (pbs_task a, pbs_server a)) (map (\<lambda>i. \<lparr>pbs_task = i, pbs_server = k\<rparr>) tids))"
      using v(2) by (simp add: o_def distinct_map inj_on_def)
    ultimately show ?thesis
      by (auto simp: d' set_sql_delete)
  qed
  moreover have "pbs_task a \<in> pbt_id ` set (probe_tasks d) \<and> pbs_server a \<le> servers_seq d \<and> server_load d' (pbs_server a) \<le> max_probe_tasks"
    if a: "a \<in> set (probe_servers d')" for a
  proof (cases "pbs_server a = k")
    case True
    then obtain i where "i \<in> set tids" "a = \<lparr>pbs_task = i, pbs_server = k\<rparr>"
      using a by (auto simp: d' set_sql_delete)
    then have "pbs_task a \<in> set tids"
      by simp
    then obtain x where "x \<in> set (probe_tasks d)" "pbs_task a = pbt_id x"
      using v(4) by (auto simp: list_all_iff sql_exists_iff)
    then show ?thesis
      using True v(1,4) k by (auto simp: load list_all_iff sql_exists_iff image_iff)
  next
    case False
    then have "a \<in> set (probe_servers d)"
      using a by (auto simp: d' set_sql_delete)
    then show ?thesis
      using ok False by (simp add: load probes_ok_def)
  qed
  moreover have "probe_tasks d' = probe_tasks d" "probe_tasks_seq d' = probe_tasks_seq d" "probe_records d' = probe_records d"
    "servers d' = servers d" "servers_seq d' = servers_seq d"
    by (simp_all add: d')
  ultimately show ?thesis
    using ok unfolding probes_ok_def by metis
qed

lemma delete_keeps_ok:
  assumes ok: "probes_ok lib d" and r: "delete_task tid d = Inr d'"
  shows "probes_ok lib d'"
proof -
  have d': "d' = d\<lparr>probe_tasks := sql_delete (\<lambda>t. pbt_id t = tid) (probe_tasks d), probe_servers := sql_delete (\<lambda>a. pbs_task a = tid) (probe_servers d),
      probe_records := sql_delete (\<lambda>r. pbr_task r = tid) (probe_records d)\<rparr>"
    using r by (auto simp: delete_task_def split: if_splits)
  let ?e = "d\<lparr>probe_servers := sql_delete (\<lambda>a. pbs_task a = tid) (probe_servers d), probe_records := sql_delete (\<lambda>r. pbr_task r = tid) (probe_records d)\<rparr>"
  have e: "probes_ok lib ?e"
    by (rule probes_shrink [OF ok]) (auto simp: set_sql_delete)
  have load: "server_load d' j = server_load ?e j" for j
    by (simp add: d' server_load_def)
  have "sql_count pbt_default_on (probe_tasks d') \<le> max_probe_tasks"
    using ok load_delete [of pbt_default_on "\<lambda>t. pbt_id t = tid" "probe_tasks d"] by (simp add: d' probes_ok_def)
  moreover have "distinct (map pbt_id (probe_tasks d'))" "\<forall>t \<in> set (probe_tasks d'). pbt_id t \<le> probe_tasks_seq d' \<and> validate_task lib t"
    using ok by (simp_all add: d' probes_ok_def distinct_sql_delete set_sql_delete)
  moreover have "distinct (map (\<lambda>a. (pbs_task a, pbs_server a)) (probe_servers d'))"
    using e by (simp add: d' probes_ok_def)
  moreover have "pbs_task a \<in> pbt_id ` set (probe_tasks d') \<and> pbs_server a \<le> servers_seq d' \<and> server_load d' (pbs_server a) \<le> max_probe_tasks"
    if a: "a \<in> set (probe_servers d')" for a
  proof -
    have "a \<in> set (probe_servers ?e)" "pbs_task a \<noteq> tid"
      using a by (simp_all add: d' set_sql_delete)
    then have "pbs_task a \<in> pbt_id ` set (probe_tasks d)" "pbs_server a \<le> servers_seq d" "server_load ?e (pbs_server a) \<le> max_probe_tasks"
      using e unfolding probes_ok_def by (metis (no_types, lifting) panel_db.select_convs panel_db.surjective panel_db.update_convs)+
    with \<open>pbs_task a \<noteq> tid\<close> show ?thesis
      unfolding load by (auto simp: d' set_sql_delete)
  qed
  moreover have "record_ok q \<and> pbr_task q \<in> pbt_id ` set (probe_tasks d')" if "q \<in> set (probe_records d')" for q
    using ok that by (auto simp: d' probes_ok_def set_sql_delete)
  moreover have "\<forall>s \<in> set (servers d'). srv_id s \<le> servers_seq d'"
    using ok by (simp add: d' probes_ok_def)
  ultimately show ?thesis
    unfolding probes_ok_def by blast
qed

lemma ingest_effect:
  assumes "ingest now_ms k caps r d = Inr d'"
  obtains t where "t \<in> set (probe_tasks d)" "pbt_id t = prs_task r" "usable_server d k" "runs k d t" "supports caps (pbt_type t)"
    "d' = d\<lparr>probe_records := probe_records d @ [\<lparr>pbr_server = k, pbr_task = prs_task r, pbr_ts = now_ms, pbr_outcome = prs_outcome r,
       pbr_latency = (if prs_outcome r = ''success'' then prs_latency r else None)\<rparr>]\<rparr>"
    "prs_outcome r = ''success'' \<longrightarrow> usable_latency (prs_latency r)" "prs_outcome r \<noteq> ''success'' \<longrightarrow> List.member failed_outcomes (prs_outcome r)"
proof -
  obtain t where "sql_first (\<lambda>t. pbt_id t = prs_task r \<and> runs k d t) (probe_tasks d) = Some t" "usable_server d k" "supports caps (pbt_type t)"
    "d' = d\<lparr>probe_records := probe_records d @ [\<lparr>pbr_server = k, pbr_task = prs_task r, pbr_ts = now_ms, pbr_outcome = prs_outcome r,
       pbr_latency = (if prs_outcome r = ''success'' then prs_latency r else None)\<rparr>]\<rparr>"
    "prs_outcome r = ''success'' \<longrightarrow> usable_latency (prs_latency r)" "prs_outcome r \<noteq> ''success'' \<longrightarrow> List.member failed_outcomes (prs_outcome r)"
    using assms unfolding ingest_def Let_def by (auto split: if_splits option.splits)
  note e = this
  from sql_first_SomeD [OF e(1)] show ?thesis
    by (intro that [of t] e(2-)) simp_all
qed

lemma ingest_keeps_ok:
  assumes ok: "probes_ok lib d" and r: "ingest now_ms k caps q d = Inr d'"
  shows "probes_ok lib d'"
proof -
  obtain t where t: "t \<in> set (probe_tasks d)" "pbt_id t = prs_task q"
    "d' = d\<lparr>probe_records := probe_records d @ [\<lparr>pbr_server = k, pbr_task = prs_task q, pbr_ts = now_ms, pbr_outcome = prs_outcome q,
       pbr_latency = (if prs_outcome q = ''success'' then prs_latency q else None)\<rparr>]\<rparr>"
    "prs_outcome q = ''success'' \<longrightarrow> usable_latency (prs_latency q)" "prs_outcome q \<noteq> ''success'' \<longrightarrow> List.member failed_outcomes (prs_outcome q)"
    using ingest_effect [OF r] by metis
  have "prs_task q \<in> pbt_id ` set (probe_tasks d)"
    unfolding t(2) [symmetric] using t(1) by (rule imageI)
  then have "\<forall>x \<in> set (probe_records d'). record_ok x \<and> pbr_task x \<in> pbt_id ` set (probe_tasks d)"
    using ok t(4,5) by (auto simp: t(3) record_ok_def probes_ok_def)
  moreover have "server_load d' = server_load d"
    by (simp add: t(3) server_load_def fun_eq_iff)
  ultimately show ?thesis
    using ok unfolding probes_ok_def by (simp add: t(3))
qed

lemma insert_server_effect:
  assumes "insert_server h now fresh row us d = Inr d'"
  shows "length (filter pbt_default_on (probe_tasks d)) \<le> max_probe_tasks" "srv_visibility row = ''private'' \<longrightarrow> list_all (panel_user d) us"
    "servers d' = servers d @ [row]" "servers_seq d' = srv_id row" "probe_tasks d' = probe_tasks d" "probe_tasks_seq d' = probe_tasks_seq d"
    "probe_records d' = probe_records d" "accounts d' = accounts d"
    "probe_servers d' = probe_servers d @ map (\<lambda>t. \<lparr>pbs_task = pbt_id t, pbs_server = srv_id row\<rparr>) (filter pbt_default_on (probe_tasks d))"
    "server_access d' = (if srv_visibility row = ''private'' then sql_delete (\<lambda>a. acc_server_id a = srv_id row) (server_access d) @
       map (\<lambda>u. \<lparr>acc_server_id = srv_id row, acc_user_id = u\<rparr>) us else server_access d)"
proof -
  have panel: "panel_user (e\<lparr>servers := x, servers_seq := y\<rparr>) = panel_user e" for e x y
    by (simp add: panel_user_def fun_eq_iff)
  show "length (filter pbt_default_on (probe_tasks d)) \<le> max_probe_tasks" "srv_visibility row = ''private'' \<longrightarrow> list_all (panel_user d) us"
    "servers d' = servers d @ [row]" "servers_seq d' = srv_id row" "probe_tasks d' = probe_tasks d" "probe_tasks_seq d' = probe_tasks_seq d"
    "probe_records d' = probe_records d" "accounts d' = accounts d"
    "probe_servers d' = probe_servers d @ map (\<lambda>t. \<lparr>pbs_task = pbt_id t, pbs_server = srv_id row\<rparr>) (filter pbt_default_on (probe_tasks d))"
    "server_access d' = (if srv_visibility row = ''private'' then sql_delete (\<lambda>a. acc_server_id a = srv_id row) (server_access d) @
       map (\<lambda>u. \<lparr>acc_server_id = srv_id row, acc_user_id = u\<rparr>) us else server_access d)"
    using assms unfolding insert_server_def Let_def panel
    by (auto simp: insert_enrollment_def replace_access_def list_ex_iff list_all_iff split: if_splits)
qed

lemma create_stages:
  assumes "create_with_settings lower lib h now fresh inp d = Inr ((row, tok), d')"
  obtains name d4 d6 us period auto_renew anchor limit mode day time role where
    "creation_texts lower lib inp = Inr (name, d4, d6, srv_visibility row, us)" "creation_renewal inp = Inr (period, auto_renew, anchor)"
    "creation_traffic inp = Inr (limit, mode, day, time)" "creation_role (cin_creator inp) d = Inr role"
    "srv_id row = servers_seq d + 1" "srv_expires_at row = cin_expires inp" "srv_period row = period" "srv_auto_renew row = auto_renew"
    "srv_anchor row = anchor" "srv_count_mode row = mode" "srv_reset_day row = day" "srv_reset_time row = time" "srv_archived_at row = None"
    "srv_decom_status row = []" "insert_server h now fresh row us d = Inr d'"
proof -
  from assms obtain name d4 d6 vis us period auto_renew anchor limit mode day time role where
    s: "creation_texts lower lib inp = Inr (name, d4, d6, vis, us)" "creation_renewal inp = Inr (period, auto_renew, anchor)"
    "creation_traffic inp = Inr (limit, mode, day, time)" "creation_role (cin_creator inp) d = Inr role"
    unfolding create_with_settings_def by (auto split: sum.splits)
  show ?thesis
    by (rule that [of name d4 d6 us period auto_renew anchor limit mode day time role])
      (use assms s in \<open>auto simp: create_with_settings_def Let_def split: sum.splits\<close>)
qed

lemma create_keeps_ok:
  assumes ok: "probes_ok lib' d" and r: "create_with_settings lower lib h now fresh inp d = Inr ((row, tok), d')"
  shows "probes_ok lib' d'"
proof -
  obtain us where k: "srv_id row = servers_seq d + 1" and ins: "insert_server h now fresh row us d = Inr d'"
    using create_stages [OF r] by metis
  note e = insert_server_effect [OF ins]
  let ?new = "map (\<lambda>t. \<lparr>pbs_task = pbt_id t, pbs_server = srv_id row\<rparr>) (filter pbt_default_on (probe_tasks d))"
  have old: "\<forall>a \<in> set (probe_servers d). pbs_server a \<noteq> srv_id row"
    using ok by (auto simp: probes_ok_def k)
  have load: "server_load d' j = (if j = srv_id row then length (filter pbt_default_on (probe_tasks d)) else server_load d j)" for j
    using old by (auto simp: server_load_def e(9) sql_count_def filter_empty_conv o_def)
  have "distinct (map (\<lambda>a. (pbs_task a, pbs_server a)) ?new)"
    using ok by (auto simp: probes_ok_def o_def distinct_map inj_on_def)
  then have "distinct (map (\<lambda>a. (pbs_task a, pbs_server a)) (probe_servers d'))"
    using ok old by (auto simp: e(9) probes_ok_def)
  moreover have "pbs_task a \<in> pbt_id ` set (probe_tasks d') \<and> pbs_server a \<le> servers_seq d' \<and> server_load d' (pbs_server a) \<le> max_probe_tasks"
    if a: "a \<in> set (probe_servers d')" for a
  proof (cases "a \<in> set (probe_servers d)")
    case True
    then have "pbs_task a \<in> pbt_id ` set (probe_tasks d)" "pbs_server a \<le> servers_seq d" "server_load d (pbs_server a) \<le> max_probe_tasks"
      using ok by (simp_all add: probes_ok_def)
    then show ?thesis
      by (simp add: load e(4,5) k)
  next
    case False
    then show ?thesis
      using a e(1) by (auto simp: load e(4,5,9))
  qed
  moreover have "\<forall>s \<in> set (servers d'). srv_id s \<le> servers_seq d'"
    using ok by (force simp: e(3,4) k probes_ok_def)
  ultimately show ?thesis
    using ok unfolding probes_ok_def e(5-7) by blast
qed

lemma archive_keeps_ok: "probes_ok lib d \<Longrightarrow> probes_ok lib (archive_rows now P d)"
  by (erule probes_shrink [where P = "\<lambda>a. sql_exists (\<lambda>s. srv_id s = pbs_server a \<and> P s) (servers d)"])
    (auto simp: archive_rows_def Let_def set_sql_update set_sql_delete)

lemma cleanup_keeps_ok: "probes_ok lib d \<Longrightarrow> probes_ok lib (cleanup_records now_ms d)"
  by (erule probes_shrink [where P = "\<lambda>_. False"]) (auto simp: cleanup_records_def set_sql_delete sql_delete_def)

text \<open>The events that touch probes; a failed one is rolled back.\<close>

datatype probe_event = Save id64 probe_request | Assign id64 "id64 list" | Delete id64
  | Ingest id64 "string list" probe_result | Cleanup | Create create_input | Archive id64

fun probe_step :: "(string \<Rightarrow> string) \<Rightarrow> ip_lib \<Rightarrow> (string \<Rightarrow> string) \<Rightarrow> int \<Rightarrow> probe_event \<Rightarrow> panel_db \<Rightarrow> panel_db" where
  "probe_step lower lib h ms (Save i q) d = committed d (map_sum id snd (save_probe lib (ms div 1000) i q d))"
| "probe_step lower lib h ms (Assign k is) d = committed d (set_assignments k is d)"
| "probe_step lower lib h ms (Delete i) d = committed d (delete_task i d)"
| "probe_step lower lib h ms (Ingest k caps r) d = committed d (ingest ms k (List.member caps) r d)"
| "probe_step lower lib h ms Cleanup d = cleanup_records ms d"
| "probe_step lower lib h ms (Create inp) d = committed d (map_sum id snd (create_with_settings lower lib h (ms div 1000) ''t'' inp d))"
| "probe_step lower lib h ms (Archive k) d = archive_rows (ms div 1000) (live_server k) d"

fun probe_run :: "(string \<Rightarrow> string) \<Rightarrow> ip_lib \<Rightarrow> (string \<Rightarrow> string) \<Rightarrow> (int \<times> probe_event) list \<Rightarrow> panel_db \<Rightarrow> panel_db" where
  "probe_run lower lib h [] d = d"
| "probe_run lower lib h ((ms, e) # es) d = probe_run lower lib h es (probe_step lower lib h ms e d)"

lemma committed_ok:
  assumes "probes_ok lib d" "\<And>d'. r = Inr d' \<Longrightarrow> probes_ok lib d'"
  shows "probes_ok lib (committed d r)"
  using assms by (cases r) auto

lemma save_probe_keeps_ok:
  assumes "probes_ok lib d" "save_probe lib now i q d = Inr (x, d')"
  shows "probes_ok lib d'"
proof -
  obtain v where "save_task lib now i v d = Inr (x, d')"
    using assms(2) unfolding save_probe_def Let_def by (auto split: option.splits sum.splits prod.splits)
  then show ?thesis
    by (rule save_keeps_ok [OF assms(1)])
qed

lemma probe_step_keeps: "probes_ok lib d \<Longrightarrow> probes_ok lib (probe_step lower lib h ms e d)"
proof (cases e)
  case (Save i q)
  assume "probes_ok lib d"
  then show ?thesis
    using save_probe_keeps_ok by (auto intro!: committed_ok simp: Save map_sum_Inr_iff)
next
  case (Assign k "is")
  assume "probes_ok lib d"
  then show ?thesis
    using set_keeps_ok by (auto intro!: committed_ok simp: Assign)
next
  case (Delete i)
  assume "probes_ok lib d"
  then show ?thesis
    using delete_keeps_ok by (auto intro!: committed_ok simp: Delete)
next
  case (Ingest k caps r)
  assume "probes_ok lib d"
  then show ?thesis
    using ingest_keeps_ok by (auto intro!: committed_ok simp: Ingest)
next
  case (Create inp)
  assume "probes_ok lib d"
  then show ?thesis
    using create_keeps_ok by (auto intro!: committed_ok simp: Create map_sum_Inr_iff)
qed (simp_all add: cleanup_keeps_ok archive_keeps_ok)

lemma probe_run_keeps: "probes_ok lib d \<Longrightarrow> probes_ok lib (probe_run lower lib h es d)"
  by (induction es arbitrary: d rule: list.induct) (auto simp: probe_step_keeps)

lemma desired_within_limit:
  assumes "probes_ok lib d"
  shows "length (filter (\<lambda>t. runs k d t \<and> supports caps (pbt_type t)) (sort_key pbt_id (probe_tasks d))) \<le> max_probe_tasks"
proof -
  let ?ts = "filter (\<lambda>t. runs k d t \<and> supports caps (pbt_type t)) (sort_key pbt_id (probe_tasks d))"
  let ?as = "filter (\<lambda>a. pbs_server a = k) (probe_servers d)"
  have "distinct (map pbt_id (sort_key pbt_id (probe_tasks d)))"
  proof -
    have "mset (map pbt_id (sort_key pbt_id (probe_tasks d))) = mset (map pbt_id (probe_tasks d))"
      by simp
    from mset_eq_imp_distinct_iff [OF this] show ?thesis
      using assms by (simp add: probes_ok_def)
  qed
  then have "length ?ts = card (pbt_id ` set ?ts)"
    using distinct_card [of "map pbt_id ?ts"] by (simp add: distinct_map_filter)
  also have "\<dots> \<le> card (pbs_task ` set ?as)"
  proof (rule card_mono)
    have "pbt_id t \<in> pbs_task ` set ?as" if run: "runs k d t" for t
    proof -
      obtain a where "a \<in> set (probe_servers d)" "pbs_task a = pbt_id t" "pbs_server a = k"
        using run by (auto simp: runs_def sql_exists_iff)
      then show ?thesis
        by (intro image_eqI [where x = a]) simp_all
    qed
    then show "pbt_id ` set ?ts \<subseteq> pbs_task ` set ?as"
      by auto
  qed simp
  also have "\<dots> \<le> length ?as"
    using card_image_le [of "set ?as" pbs_task] card_length [of ?as] by simp
  also have "\<dots> \<le> max_probe_tasks"
  proof (cases ?as)
    case (Cons a as)
    then have "a \<in> set ?as"
      by simp
    then have "a \<in> set (probe_servers d)" "pbs_server a = k"
      by simp_all
    then show ?thesis
      using assms by (auto simp: probes_ok_def server_load_def sql_count_def)
  qed simp
  finally show ?thesis .
qed


text \<open>
  C12. No sequence of probe changes, results, clean-ups, creations of servers and archivings makes a
  server run more tasks than it may: from a consistent database, the tasks the Panel sends to an
  Agent are always exactly the enabled tasks assigned to its server that it declares it can run, and the
  limit error of \<open>Desired\<close> never occurs. Along the way every task stays valid, every
  assignment and record belongs to a task, at most 64 tasks are defaults, and a record has a latency
  exactly when it is a success.
\<close>

theorem probe_limits_hold:
  assumes "probes_ok lib d"
  shows "let e = probe_run lower lib h es d in probes_ok lib e \<and>
    desired_tasks k caps e = Inr (if usable_server e k
      then filter (\<lambda>t. runs k e t \<and> supports caps (pbt_type t)) (sort_key pbt_id (probe_tasks e)) else [])"
proof -
  note ok = probe_run_keeps [OF assms, of lower h es]
  show ?thesis
    using ok desired_within_limit [OF ok, of k caps] by (simp add: desired_tasks_def Let_def)
qed





section \<open>Who sees a server\<close>

lemma normalized_access:
  assumes "normalize_access_users ids cur = Inr us"
  shows "set us = set ids \<union> (if 0 < cur then {cur} else {})"
  using assms by (auto simp: normalize_access_users_def Let_def split: if_splits)

lemma visibility_cases: "normalize_visibility lower v = Inr vis \<Longrightarrow> vis = ''public'' \<or> vis = ''private''"
  by (auto simp: normalize_visibility_def Let_def split: if_splits)

lemma replaced_access:
  "(\<lparr>acc_server_id = j, acc_user_id = u\<rparr> \<in> set (server_access (replace_access k us d))) =
    (if j = k then u \<in> set us else \<lparr>acc_server_id = j, acc_user_id = u\<rparr> \<in> set (server_access d))"
  by (auto simp: replace_access_def set_sql_delete)

lemma sees_iff: "sees d u s \<longleftrightarrow> srv_visibility s = ''public'' \<or>
    panel_user d u \<and> \<lparr>acc_server_id = srv_id s, acc_user_id = u\<rparr> \<in> set (server_access d)"
proof -
  have "a = \<lparr>acc_server_id = acc_server_id a, acc_user_id = acc_user_id a\<rparr>" for a :: server_access_row
    by simp
  then show ?thesis
    unfolding sees_def sql_exists_iff by (metis server_access_row.select_convs(1,2))
qed

text \<open>
  C26. Setting the access of a server is exact: afterwards the server is visible to everyone if it was made public, and
  otherwise to exactly the administrators and VIP users named, with whoever made
  the change among them; the access to every other server is as before. The list is refused when it names
  anyone else, and when the caller has no access to the server.
\<close>

theorem access_is_exact:
  assumes "update_access lower now k cur v ids d = Inr ((vis, us), d')"
  shows "can_access cur k d \<and> can_access cur k d' \<and> (vis = ''private'' \<longrightarrow> set us = insert cur (set ids) \<and> list_all (panel_user d) us) \<and>
    (\<forall>u j. can_access u j d' \<longleftrightarrow> (if j = k then 0 < u \<and> (vis = ''public'' \<or> u \<in> set us) else can_access u j d))"
proof -
  let ?f = "\<lambda>s. s\<lparr>srv_visibility := vis, srv_updated_at := now\<rparr>"
  let ?d1 = "d\<lparr>servers := sql_update (\<lambda>s. srv_id s = k) ?f (servers d)\<rparr>"
  have v: "normalize_visibility lower v = Inr vis" "(if vis = ''private'' then normalize_access_users ids cur else Inr []) = Inr us"
    "can_access cur k d" "vis = ''private'' \<longrightarrow> list_all (panel_user d) us" "d' = replace_access k us ?d1"
    using assms by (auto simp: update_access_def list_ex_iff list_all_iff split: sum.splits if_splits)
  then have cur: "0 < cur" "0 < k" and ex: "\<exists>s \<in> set (servers d). srv_id s = k"
    by (auto simp: can_access_def sql_exists_iff)
  have us: "vis = ''private'' \<longrightarrow> set us = insert cur (set ids)"
    using v(2) normalized_access cur(1) by (auto split: if_splits)
  have panel: "panel_user d' = panel_user d"
    by (simp add: v(5) replace_access_def panel_user_def fun_eq_iff)
  have srv: "servers d' = sql_update (\<lambda>s. srv_id s = k) ?f (servers d)"
    by (simp add: v(5) replace_access_def)
  have acc: "(\<lparr>acc_server_id = j, acc_user_id = u\<rparr> \<in> set (server_access d')) =
      (if j = k then u \<in> set us else \<lparr>acc_server_id = j, acc_user_id = u\<rparr> \<in> set (server_access d))" for j u
    unfolding v(5) replaced_access by simp
  have other: "can_access u j d' = can_access u j d" if "j \<noteq> k" for u j
    using that unfolding can_access_def sql_exists_iff sees_iff srv set_sql_update panel by (auto simp: acc)
  have own: "can_access u k d' \<longleftrightarrow> 0 < u \<and> (vis = ''public'' \<or> u \<in> set us)" for u
  proof -
    have "can_access u k d' \<longleftrightarrow> 0 < u \<and> (vis = ''public'' \<or> panel_user d u \<and> u \<in> set us)"
    proof -
      obtain s where s: "s \<in> set (servers d)" "srv_id s = k"
        using ex by blast
      have row: "?f s \<in> set (servers d')"
        unfolding srv set_sql_update using s by (intro image_eqI [where x = s]) simp_all
      have shown: "srv_visibility x = vis" if x: "x \<in> set (servers d')" "srv_id x = k" for x
      proof -
        obtain y where "x = (if srv_id y = k then ?f y else y)"
          using x(1) unfolding srv set_sql_update by blast
        then show ?thesis
          using x(2) by (cases "srv_id y = k") simp_all
      qed
      have "(\<exists>x \<in> set (servers d'). srv_id x = k \<and> sees d' u x) \<longleftrightarrow>
          (\<exists>x \<in> set (servers d'). srv_id x = k \<and> (vis = ''public'' \<or> panel_user d u \<and> u \<in> set us))"
      proof (rule bex_cong [OF refl])
        fix x
        assume "x \<in> set (servers d')"
        then show "(srv_id x = k \<and> sees d' u x) = (srv_id x = k \<and> (vis = ''public'' \<or> panel_user d u \<and> u \<in> set us))"
          using shown [of x] acc [of k u] by (cases "srv_id x = k") (simp_all add: sees_iff panel)
      qed
      moreover have "\<exists>x \<in> set (servers d'). srv_id x = k"
        using s(2) by (intro bexI [OF _ row]) simp
      ultimately show ?thesis
        using cur(2) unfolding can_access_def sql_exists_iff by blast
    qed
    moreover have "panel_user d u" if "vis \<noteq> ''public''" "u \<in> set us"
      using that v(4) visibility_cases [OF v(1)] by (auto simp: list_all_iff)
    ultimately show ?thesis by blast
  qed
  have "vis = ''public'' \<or> cur \<in> set us"
    using us visibility_cases [OF v(1)] by auto
  then show ?thesis
    using v(3,4) us own other cur(1) by auto
qed



text \<open>
  C40. While a server that runs a task is being decommissioned, the task cannot be edited in part: every request that does not
  itself replace the list of servers, such as switching the task off, is refused, because the stored
  assignments are sent through the check for new ones.
\<close>

theorem partial_edit_needs_usable_servers:
  assumes "tid \<noteq> 0" "prq_servers q = None" "\<lparr>pbs_task = tid, pbs_server = k\<rparr> \<in> set (probe_servers d)" "\<not> usable_server d k"
  shows "isl (save_probe lib now tid q d)"
proof (cases "find (\<lambda>v. pbt_id (fst v) = tid) (task_list d)")
  case None
  then show ?thesis
    using assms(1) by (simp add: save_probe_def)
next
  case (Some v)
  obtain t ks where v: "v = (t, ks)"
    by (cases v)
  have "pbt_id t = tid" "ks = sort (map pbs_server (filter (\<lambda>a. pbs_task a = pbt_id t) (probe_servers d)))"
    using Some unfolding find_Some_iff v task_list_def by auto
  moreover from this have "k \<in> set ks"
    using assms(3) by force
  ultimately have "isl (save_task lib now tid (x, ks) d)" for x
    using assms(4) unfolding save_task_def Let_def by (auto simp: list_ex_iff split: option.split)
  then show ?thesis
    using Some assms(1,2) unfolding v save_probe_def by (auto simp: opt_def Let_def split: sum.split prod.split)
qed

section \<open>Concrete inputs\<close>

definition small_lib :: ip_lib where
  "small_lib = \<lparr>parse_ip = (\<lambda>s. if s = ''::1'' then Some (V6 1) else None), ip_text = (\<lambda>_. ''::1'')\<rparr>"

lemma small_lib_ok: "ip_lib_ok small_lib"
  by (simp add: ip_lib_ok_def small_lib_def ip_char_def is_digit_def)

definition probe_row :: "id64 \<Rightarrow> probe_task_row" where
  "probe_row i = \<lparr>pbt_id = i, pbt_name = ''p'', pbt_type = ''tcp'', pbt_target = ''::1'', pbt_port = Some 443, pbt_interval = 60,
     pbt_enabled = True, pbt_default_on = True, pbt_created_at = 0, pbt_updated_at = 0\<rparr>"

theorem target_roundtrip_witness:
  "validate_task small_lib (probe_row 1) \<and> target_text (probe_row 1) = ''[::1]:443'' \<and>
   parse_target small_lib ''tcp'' (target_text (probe_row 1)) = Inr (''::1'', Some 443)"
proof -
  have v: "validate_task small_lib (probe_row 1)" and t: "target_text (probe_row 1) = ''[::1]:443''"
    by code_simp+
  show ?thesis
    using target_roundtrip [OF small_lib_ok v] v t by (simp add: probe_row_def)
qed

text \<open>Server 1 runs task 1; server 2, leaving, does too.\<close>

definition probe_db :: panel_db where
  "probe_db = empty_db\<lparr>servers := [plain_server 1, (plain_server 2)\<lparr>srv_decom_status := ''pending''\<rparr>], servers_seq := 2,
     probe_tasks := [probe_row 1], probe_tasks_seq := 1,
     probe_servers := [\<lparr>pbs_task = 1, pbs_server = 1\<rparr>, \<lparr>pbs_task = 1, pbs_server = 2\<rparr>],
     accounts := empty_accounts\<lparr>users := [\<lparr>usr_id = 5, usr_username = ''bob'', usr_password_hash = ''h'',
       usr_role = ''vip'', usr_email = None, usr_verified_at = None, usr_created_at = 0, usr_updated_at = 0\<rparr>]\<rparr>\<rparr>"

lemma probe_db_ok: "probes_ok small_lib probe_db"
proof -
  have "validate_task small_lib (probe_row 1)"
    by code_simp
  then show ?thesis
    by (simp add: probes_ok_def probe_db_def empty_db_def probe_row_def server_load_def sql_count_def max_probe_tasks_def plain_server_def)
qed

definition no_change :: probe_request where
  "no_change = \<lparr>prq_name = None, prq_type = None, prq_target = None, prq_interval = None, prq_enabled = None,
     prq_default_on = None, prq_servers = None\<rparr>"

definition private_server :: create_input where
  "private_server = \<lparr>cin_name = '' vps '', cin_bandwidth = None, cin_stack = Some ''dual'', cin_domain4 = ''a.b.'', cin_domain6 = [],
     cin_visibility = ''private'', cin_users = [], cin_creator = 5, cin_expires = Some 1000000, cin_period = Some 3, cin_auto_renew = True,
     cin_limit = Some 0, cin_mode = [], cin_day = 0, cin_time = []\<rparr>"

definition probe_trace :: "(int \<times> probe_event) list" where
  "probe_trace = [(1000, Create private_server),
     (2000, Save 0 (no_change\<lparr>prq_name := Some ''q'', prq_type := Some ''icmp'', prq_target := Some ''a.b'', prq_servers := Some [1, 3]\<rparr>)),
     (3000, Save 1 no_change),
     (4000, Ingest 3 [''probe.tcp''] \<lparr>prs_task = 1, prs_outcome = ''success'', prs_latency = Some (Finite 3)\<rparr>),
     (5000, Ingest 3 [''probe.tcp''] \<lparr>prs_task = 2, prs_outcome = ''timeout'', prs_latency = None\<rparr>), (6000, Archive 1)]"

theorem probe_limits_hold_witness:
  "let e = probe_run (\<lambda>s. s) small_lib (\<lambda>s. s) probe_trace probe_db in
     map pbt_id (probe_tasks e) = [1, 2] \<and> map pbr_task (probe_records e) = [1] \<and>
     (\<exists>ts. desired_tasks 3 (List.member [''probe.icmp'']) e = Inr ts \<and> map pbt_id ts = [2])"
proof -
  have "let e = probe_run (\<lambda>s. s) small_lib (\<lambda>s. s) probe_trace probe_db in
     map pbt_id (probe_tasks e) = [1, 2] \<and> map pbr_task (probe_records e) = [1] \<and> usable_server e 3 \<and>
     map pbt_id (filter (\<lambda>t. runs 3 e t \<and> supports (List.member [''probe.icmp'']) (pbt_type t)) (sort_key pbt_id (probe_tasks e))) = [2]"
    by code_simp
  then show ?thesis
    using probe_limits_hold [OF probe_db_ok, of "\<lambda>s. s" "\<lambda>s. s" probe_trace 3 "List.member [''probe.icmp'']"] by (simp add: Let_def)
qed


theorem access_is_exact_witness:
  "\<exists>d'. update_access (\<lambda>s. s) 50 1 5 ''private'' [] probe_db = Inr ((''private'', [5]), d') \<and>
     can_access 5 1 d' \<and> \<not> can_access 6 1 d' \<and> can_access 6 1 probe_db"
proof -
  have "case update_access (\<lambda>s. s) 50 1 5 ''private'' [] probe_db of Inl _ \<Rightarrow> False | Inr (r, d') \<Rightarrow> r = (''private'', [5])"
    "can_access 6 1 probe_db"
    by code_simp+
  then obtain d' where r: "update_access (\<lambda>s. s) 50 1 5 ''private'' [] probe_db = Inr ((''private'', [5]), d')"
    by (auto dest!: run_returns)
  from access_is_exact [OF r] r \<open>can_access 6 1 probe_db\<close> show ?thesis
    by auto
qed


theorem partial_edit_needs_usable_servers_witness:
  "isl (save_probe small_lib 50 1 (no_change\<lparr>prq_enabled := Some False\<rparr>) probe_db)"
proof -
  have "\<not> usable_server probe_db 2"
    by code_simp
  then show ?thesis
    using partial_edit_needs_usable_servers [of 1 "no_change\<lparr>prq_enabled := Some False\<rparr>" 2 probe_db small_lib 50]
    by (simp add: no_change_def probe_db_def)
qed

end
