(* ===== verification/Listeners.thy ===== *)
theory Listeners
  imports NetAddress SubscriberReconcile "HOL-Library.Multiset"
begin

text \<open>
  Listener reservations (\<open>panel/internal/listener/listener.go\<close>), the triggers that keep them
  (\<open>createListenerReservations\<close> in \<open>panel/internal/database/versioned_migrations.go\<close>) and
  the relay ports of clients (\<open>panel/internal/proxy/client_relay_ports.go\<close>).

  A write of \<open>proxies\<close>, \<open>relays\<close> or \<open>client_relay_ports\<close> is the statement with
  the triggers it fires. \<open>lower\<close> is \<open>strings.ToLower\<close>; \<open>draw n\<close> is the \<open>n\<close>-th draw of
  \<open>crypto/rand\<close>, taken modulo the number of choices.
\<close>

section \<open>Networks\<close>

definition without_spaces :: "string \<Rightarrow> string" where
  "without_spaces s = filter (\<lambda>c. c \<noteq> CHR '' '') (trim_space s)"

definition normalize_network :: "(string \<Rightarrow> string) \<Rightarrow> string \<Rightarrow> string option" where
  "normalize_network lower value =
     (let v = lower (without_spaces value) in
      if v = ''tcp'' then Some ''tcp''
      else if v = ''udp'' then Some ''udp''
      else if v = ''both'' \<or> v = ''tcp,udp'' \<or> v = ''udp,tcp'' then Some ''both''
      else None)"

definition networks_overlap :: "(string \<Rightarrow> string) \<Rightarrow> string \<Rightarrow> string \<Rightarrow> bool" where
  "networks_overlap lower left right =
     (case (normalize_network lower left, normalize_network lower right) of
        (Some l, Some r) \<Rightarrow> l = ''both'' \<or> r = ''both'' \<or> l = r
      | _ \<Rightarrow> False)"

section \<open>Availability\<close>

datatype listener_error = ErrConflict | ErrInvalidNetwork | ErrListenerConstraint

record availability =
  avl_type :: string
  avl_id :: id64
  avl_client :: "id64 option"

definition blocks :: "(string \<Rightarrow> string) \<Rightarrow> string \<Rightarrow> availability \<Rightarrow> reservation_row \<Rightarrow> bool" where
  "blocks lower network opts v \<longleftrightarrow>
     \<not> (res_type v = avl_type opts \<and> res_resource_id v = avl_id opts) \<and>
     \<not> (res_type v = ''client_relay'' \<and> avl_client opts = Some (res_resource_id v)) \<and>
     networks_overlap lower network (res_network v)"

definition listener_available ::
  "(string \<Rightarrow> string) \<Rightarrow> id64 \<Rightarrow> int \<Rightarrow> string \<Rightarrow> availability \<Rightarrow> panel_db \<Rightarrow> listener_error option" where
  "listener_available lower k port network0 opts d =
     (case normalize_network lower network0 of
        None \<Rightarrow> Some ErrInvalidNetwork
      | Some network \<Rightarrow>
        if sql_exists (\<lambda>v. res_server_id v = k \<and> res_port v = port \<and> blocks lower network opts v) (reservations d)
        then Some ErrConflict else None)"

definition occupied_listeners :: "id64 \<Rightarrow> int \<Rightarrow> int \<Rightarrow> panel_db \<Rightarrow> reservation_row list" where
  "occupied_listeners k from to d = sort_key res_port (sort_key res_id
     (filter (\<lambda>v. res_server_id v = k \<and> from \<le> res_port v \<and> res_port v \<le> to) (reservations d)))"

section \<open>The conflict triggers\<close>

definition source_client :: "panel_db \<Rightarrow> id64 \<Rightarrow> id64" where
  "source_client d rid = (case sql_first (\<lambda>r. rel_id r = rid) (relays d) of
     None \<Rightarrow> -1
   | Some r \<Rightarrow> (case rel_source_client r of None \<Rightarrow> -1 | Some c \<Rightarrow> c))"

definition conflicts :: "panel_db \<Rightarrow> reservation_row \<Rightarrow> reservation_row \<Rightarrow> bool" where
  "conflicts d new old \<longleftrightarrow>
     res_server_id old = res_server_id new \<and> res_port old = res_port new \<and>
     (res_network old = ''both'' \<or> res_network new = ''both'' \<or> res_network old = res_network new) \<and>
     \<not> (res_type new = ''relay'' \<and> res_type old = ''client_relay'' \<and> source_client d (res_resource_id new) = res_resource_id old) \<and>
     \<not> (res_type new = ''client_relay'' \<and> res_type old = ''relay'' \<and> res_resource_id new = source_client d (res_resource_id old))"

definition reservation_check :: "reservation_row \<Rightarrow> bool" where
  "reservation_check v \<longleftrightarrow> 1 \<le> res_port v \<and> res_port v \<le> 65535 \<and>
     (res_network v = ''tcp'' \<or> res_network v = ''udp'' \<or> res_network v = ''both'') \<and>
     (res_type v = ''proxy'' \<or> res_type v = ''relay'' \<or> res_type v = ''client_relay'')"

definition same_key :: "reservation_row \<Rightarrow> reservation_row \<Rightarrow> bool" where
  "same_key v w \<longleftrightarrow> res_type w = res_type v \<and> res_resource_id w = res_resource_id v \<and> res_port w = res_port v"

definition insert_reservation ::
  "id64 \<Rightarrow> string \<Rightarrow> id64 \<Rightarrow> int \<Rightarrow> string \<Rightarrow> unix_time \<Rightarrow> panel_db \<Rightarrow> listener_error + panel_db" where
  "insert_reservation k kind rid port network created d =
     (let v = \<lparr>res_id = reservations_seq d + 1, res_server_id = k, res_type = kind, res_resource_id = rid, res_port = port,
          res_network = network, res_created_at = created\<rparr>
      in if sql_exists (conflicts d v) (reservations d) then Inl ErrConflict
         else if \<not> reservation_check v \<or> sql_exists (same_key v) (reservations d) then Inl ErrListenerConstraint
         else Inr (d\<lparr>reservations := reservations d @ [v], reservations_seq := res_id v\<rparr>))"

text \<open>The \<open>UPDATE\<close> of the reservation of a proxy or a relay, which has one row.\<close>

definition update_reservation ::
  "string \<Rightarrow> id64 \<Rightarrow> id64 \<Rightarrow> int \<Rightarrow> string \<Rightarrow> panel_db \<Rightarrow> listener_error + panel_db" where
  "update_reservation kind rid k port network d =
     (let mine = (\<lambda>v. res_type v = kind \<and> res_resource_id v = rid);
          f = (\<lambda>v. v\<lparr>res_server_id := k, res_port := port, res_network := network\<rparr>)
      in if sql_exists (\<lambda>v. mine v \<and> sql_exists (\<lambda>w. res_id w \<noteq> res_id v \<and> conflicts d (f v) w) (reservations d)) (reservations d)
         then Inl ErrConflict
         else if sql_exists (\<lambda>v. mine v \<and> \<not> reservation_check (f v)) (reservations d) then Inl ErrListenerConstraint
         else Inr (d\<lparr>reservations := sql_update mine f (reservations d)\<rparr>))"

definition delete_reservations :: "string \<Rightarrow> id64 \<Rightarrow> panel_db \<Rightarrow> panel_db" where
  "delete_reservations kind rid d = d\<lparr>reservations := sql_delete (\<lambda>v. res_type v = kind \<and> res_resource_id v = rid) (reservations d)\<rparr>"

text \<open>
  \<open>ReserveListener\<close>: the conflict trigger fires before the upsert looks for an existing row.
\<close>

definition reserve_listener ::
  "(string \<Rightarrow> string) \<Rightarrow> id64 \<Rightarrow> string \<Rightarrow> id64 \<Rightarrow> int \<Rightarrow> string \<Rightarrow> unix_time \<Rightarrow> panel_db \<Rightarrow> listener_error + panel_db" where
  "reserve_listener lower k kind rid port network0 created d =
     (case normalize_network lower network0 of
        None \<Rightarrow> Inl ErrInvalidNetwork
      | Some network \<Rightarrow>
        let v = \<lparr>res_id = reservations_seq d + 1, res_server_id = k, res_type = kind, res_resource_id = rid, res_port = port,
              res_network = network, res_created_at = created\<rparr>;
            f = (\<lambda>w. w\<lparr>res_server_id := k, res_network := network\<rparr>)
        in if sql_exists (conflicts d v) (reservations d) then Inl ErrConflict
           else if \<not> reservation_check v then Inl ErrListenerConstraint
           else if sql_exists (same_key v) (reservations d) then
             (if sql_exists (\<lambda>w. same_key v w \<and> sql_exists (\<lambda>x. res_id x \<noteq> res_id w \<and> conflicts d (f w) x) (reservations d)) (reservations d)
              then Inl ErrConflict
              else Inr (d\<lparr>reservations := sql_update (same_key v) f (reservations d)\<rparr>))
           else Inr (d\<lparr>reservations := reservations d @ [v], reservations_seq := res_id v\<rparr>))"

definition release_listener :: "string \<Rightarrow> id64 \<Rightarrow> panel_db \<Rightarrow> panel_db" where
  "release_listener kind rid d = delete_reservations kind rid d"

section \<open>Proxies, relays and relay ports with their triggers\<close>

definition proxy_network :: "string \<Rightarrow> string" where
  "proxy_network protocol = (if protocol = ''shadowsocks'' then ''both'' else ''tcp'')"

definition relay_network :: "string \<Rightarrow> string" where
  "relay_network n = (if n = ''tcp,udp'' then ''both'' else n)"

text \<open>The id of a new row is the next one of the table's sequence.\<close>

definition insert_proxy_row :: "proxy_row \<Rightarrow> panel_db \<Rightarrow> listener_error + panel_db" where
  "insert_proxy_row p0 d =
     (let p = p0\<lparr>prx_id := proxies_seq d + 1\<rparr> in
      insert_reservation (prx_server_id p) ''proxy'' (prx_id p) (prx_listen_port p) (proxy_network (prx_protocol p)) (prx_created_at p)
        (d\<lparr>proxies := proxies d @ [p], proxies_seq := prx_id p\<rparr>))"

definition update_proxy_row :: "id64 \<Rightarrow> (proxy_row \<Rightarrow> proxy_row) \<Rightarrow> panel_db \<Rightarrow> listener_error + panel_db" where
  "update_proxy_row pid f d =
     (case sql_first (\<lambda>p. prx_id p = pid) (proxies d) of
        None \<Rightarrow> Inr d
      | Some p \<Rightarrow> update_reservation ''proxy'' pid (prx_server_id (f p)) (prx_listen_port (f p)) (proxy_network (prx_protocol (f p)))
          (d\<lparr>proxies := sql_update (\<lambda>p. prx_id p = pid) f (proxies d)\<rparr>))"

definition delete_proxy_row :: "id64 \<Rightarrow> panel_db \<Rightarrow> panel_db" where
  "delete_proxy_row pid d = delete_reservations ''proxy'' pid (d\<lparr>proxies := sql_delete (\<lambda>p. prx_id p = pid) (proxies d)\<rparr>)"

definition insert_relay_row :: "relay_row \<Rightarrow> panel_db \<Rightarrow> listener_error + panel_db" where
  "insert_relay_row r0 d =
     (let r = r0\<lparr>rel_id := relays_seq d + 1\<rparr> in
      insert_reservation (rel_server_id r) ''relay'' (rel_id r) (rel_listen_port r) (relay_network (rel_network r)) (rel_created_at r)
        (d\<lparr>relays := relays d @ [r], relays_seq := rel_id r\<rparr>))"

definition update_relay_row :: "id64 \<Rightarrow> (relay_row \<Rightarrow> relay_row) \<Rightarrow> panel_db \<Rightarrow> listener_error + panel_db" where
  "update_relay_row rid f d =
     (case sql_first (\<lambda>r. rel_id r = rid) (relays d) of
        None \<Rightarrow> Inr d
      | Some r \<Rightarrow> update_reservation ''relay'' rid (rel_server_id (f r)) (rel_listen_port (f r)) (relay_network (rel_network (f r)))
          (d\<lparr>relays := sql_update (\<lambda>r. rel_id r = rid) f (relays d)\<rparr>))"

definition delete_relay_row :: "id64 \<Rightarrow> panel_db \<Rightarrow> panel_db" where
  "delete_relay_row rid d = delete_reservations ''relay'' rid (d\<lparr>relays := sql_delete (\<lambda>r. rel_id r = rid) (relays d)\<rparr>)"

definition insert_relay_port :: "id64 \<Rightarrow> id64 \<Rightarrow> int \<Rightarrow> unix_time \<Rightarrow> panel_db \<Rightarrow> listener_error + panel_db" where
  "insert_relay_port cid k port now d =
     (if port < 20000 \<or> port > 29999 \<or>
         sql_exists (\<lambda>p. crp_client_id p = cid \<and> crp_port p = port \<or> crp_server_id p = k \<and> crp_port p = port) (relay_ports d)
      then Inl ErrListenerConstraint
      else insert_reservation k ''client_relay'' cid port ''tcp'' now
        (d\<lparr>relay_ports := relay_ports d @ [\<lparr>crp_client_id = cid, crp_server_id = k, crp_port = port, crp_created_at = now\<rparr>]\<rparr>))"

definition delete_relay_ports :: "id64 \<Rightarrow> panel_db \<Rightarrow> panel_db" where
  "delete_relay_ports cid d = d\<lparr>
     reservations := sql_delete (\<lambda>v. res_type v = ''client_relay'' \<and> res_resource_id v = cid \<and>
       sql_exists (\<lambda>p. crp_client_id p = cid \<and> crp_port p = res_port v) (relay_ports d)) (reservations d),
     relay_ports := sql_delete (\<lambda>p. crp_client_id p = cid) (relay_ports d)\<rparr>"

section \<open>Relay ports of a client\<close>

definition max_client_relay_ports :: int where
  "max_client_relay_ports = 5"

definition user_relay_port_start :: int where
  "user_relay_port_start = 20000"

definition user_relay_port_end :: int where
  "user_relay_port_end = 29999"

definition port_block :: "int \<Rightarrow> int \<Rightarrow> int list" where
  "port_block start number = [start..start + number - 1]"

definition free_starts :: "id64 \<Rightarrow> int \<Rightarrow> panel_db \<Rightarrow> int list" where
  "free_starts k number d =
     (let occupied = map res_port (occupied_listeners k user_relay_port_start user_relay_port_end d)
      in filter (\<lambda>start. list_all (\<lambda>port. \<not> List.member occupied port) (port_block start number))
           [user_relay_port_start..user_relay_port_end - number + 1])"

text \<open>The inserts of one attempt, undone when one of them fails.\<close>

fun insert_block :: "id64 \<Rightarrow> id64 \<Rightarrow> unix_time \<Rightarrow> int list \<Rightarrow> panel_db \<Rightarrow> bool \<times> panel_db" where
  "insert_block cid k now [] d = (True, d)"
| "insert_block cid k now (port # ports) d = (case insert_relay_port cid k port now d of
     Inl _ \<Rightarrow> (False, delete_relay_ports cid d)
   | Inr d' \<Rightarrow> insert_block cid k now ports d')"

function pick_block :: "(nat \<Rightarrow> nat) \<Rightarrow> nat \<Rightarrow> id64 \<Rightarrow> id64 \<Rightarrow> int \<Rightarrow> unix_time \<Rightarrow> int list \<Rightarrow> panel_db \<Rightarrow> proxy_error + panel_db" where
  "pick_block draw n cid k number now starts d =
     (if starts = [] then Inl ErrRelayPortsUnavailable
      else let i = draw n mod length starts in
        (case insert_block cid k now (port_block (starts ! i) number) d of
           (True, d') \<Rightarrow> Inr d'
         | (False, d') \<Rightarrow> pick_block draw (Suc n) cid k number now (butlast (starts[i := last starts])) d'))"
  by pat_completeness auto
termination
  by (relation "measure (\<lambda>(draw, n, cid, k, number, now, starts, d). length starts)") auto

definition reserve_client_relay_ports ::
  "(nat \<Rightarrow> nat) \<Rightarrow> id64 \<Rightarrow> id64 \<Rightarrow> int \<Rightarrow> unix_time \<Rightarrow> panel_db \<Rightarrow> proxy_error + panel_db" where
  "reserve_client_relay_ports draw cid k number now d =
     (if number < 0 \<or> number > max_client_relay_ports then Inl ErrInvalidRelayPortCount
      else if number = 0 then Inr d
      else pick_block draw 0 cid k number now (free_starts k number d) d)"

definition list_available_client_relay_ports :: "id64 \<Rightarrow> panel_db \<Rightarrow> int list" where
  "list_available_client_relay_ports cid d = sort (map crp_port (filter (\<lambda>p. crp_client_id p = cid \<and>
     \<not> sql_exists (\<lambda>r. rel_server_id r = crp_server_id p \<and> rel_listen_port r = crp_port p) (relays d) \<and>
     \<not> sql_exists (\<lambda>x. prx_server_id x = crp_server_id p \<and> prx_listen_port x = crp_port p) (proxies d)) (relay_ports d)))"

definition update_client_relay_port_count ::
  "(nat \<Rightarrow> nat) \<Rightarrow> unix_time \<Rightarrow> id64 \<Rightarrow> int \<Rightarrow> panel_db \<Rightarrow> proxy_error + panel_db" where
  "update_client_relay_port_count draw now cid number d =
     (if number < 0 \<or> number > max_client_relay_ports then Inl ErrInvalidRelayPortCount
      else case sql_first (\<lambda>c. cli_id c = cid) (clients d) of
        None \<Rightarrow> Inl ErrClientNotFound
      | Some c \<Rightarrow>
        (case sql_first (\<lambda>p. prx_id p = cli_proxy_id c) (proxies d) of
           None \<Rightarrow> Inl ErrClientNotFound
         | Some p \<Rightarrow>
           if sql_exists (\<lambda>m. sc_client_id m = cid) (subscriber_clients d) then Inl ErrSubscriptionManagedClient
           else if cli_assigned_user c = None then Inl ErrClientNotAssigned
           else if int (sql_count (\<lambda>x. crp_client_id x = cid) (relay_ports d)) = number then Inr d
           else if sql_exists (\<lambda>r. rel_owner r \<noteq> None \<and> rel_source_client r = Some cid) (relays d) then Inl ErrRelayPortsActive
           else case reserve_client_relay_ports draw cid (prx_server_id p) number now (delete_relay_ports cid d) of
             Inl e \<Rightarrow> Inl e
           | Inr d' \<Rightarrow> Inr (d'\<lparr>clients := sql_update (\<lambda>c. cli_id c = cid) (\<lambda>c. c\<lparr>cli_updated_at := now\<rparr>) (clients d')\<rparr>)))"

text \<open>\<open>RandomUserRelayPort\<close> and \<open>ProxyPortAvailable\<close> (\<open>relay/validation.go\<close>).\<close>

definition random_user_relay_port :: "(nat \<Rightarrow> nat) \<Rightarrow> id64 \<Rightarrow> panel_db \<Rightarrow> listener_error + int" where
  "random_user_relay_port draw k d =
     (let occupied = map res_port (occupied_listeners k user_relay_port_start user_relay_port_end d);
          available = filter (\<lambda>port. \<not> List.member occupied port) [user_relay_port_start..user_relay_port_end]
      in if available = [] then Inl ErrConflict else Inr (available ! (draw 0 mod length available)))"

definition proxy_port_available ::
  "(string \<Rightarrow> string) \<Rightarrow> id64 \<Rightarrow> int \<Rightarrow> string \<Rightarrow> id64 option \<Rightarrow> panel_db \<Rightarrow> listener_error option" where
  "proxy_port_available lower k port protocol exclude d =
     listener_available lower k port (if protocol = ''shadowsocks'' then ''tcp,udp'' else ''tcp'')
       (case exclude of None \<Rightarrow> \<lparr>avl_type = [], avl_id = 0, avl_client = None\<rparr>
        | Some pid \<Rightarrow> \<lparr>avl_type = ''proxy'', avl_id = pid, avl_client = None\<rparr>) d"

definition is_proxy_referenced :: "id64 \<Rightarrow> panel_db \<Rightarrow> bool" where
  "is_proxy_referenced pid d \<longleftrightarrow> sql_exists (\<lambda>r. rel_target_type r = ''proxy'' \<and> rel_target_proxy r = Some pid) (relays d)"

end
