(* ===== verification/ListenerSafety.thy ===== *)
theory ListenerSafety
  imports Listeners
begin

text \<open>
  The reservations are exactly the listeners of the proxies, relays and relay ports, no two
  of them collide, and the checks of the code agree with the triggers.
\<close>

section \<open>The invariant\<close>

type_synonym listen_entry = "id64 \<times> string \<times> id64 \<times> int \<times> string"

definition listen_key :: "reservation_row \<Rightarrow> listen_entry" where
  "listen_key v = (res_server_id v, res_type v, res_resource_id v, res_port v, res_network v)"

definition proxy_key :: "proxy_row \<Rightarrow> listen_entry" where
  "proxy_key p = (prx_server_id p, ''proxy'', prx_id p, prx_listen_port p, proxy_network (prx_protocol p))"

definition relay_key :: "relay_row \<Rightarrow> listen_entry" where
  "relay_key r = (rel_server_id r, ''relay'', rel_id r, rel_listen_port r, relay_network (rel_network r))"

definition port_key :: "relay_port_row \<Rightarrow> listen_entry" where
  "port_key q = (crp_server_id q, ''client_relay'', crp_client_id q, crp_port q, ''tcp'')"

definition listener_set :: "panel_db \<Rightarrow> listen_entry multiset" where
  "listener_set d = mset (map proxy_key (proxies d)) + mset (map relay_key (relays d)) + mset (map port_key (relay_ports d))"

definition listeners_ok :: "panel_db \<Rightarrow> bool" where
  "listeners_ok d \<longleftrightarrow>
     mset (map listen_key (reservations d)) = listener_set d \<and>
     distinct (map res_id (reservations d)) \<and> (\<forall>v \<in> set (reservations d). res_id v \<le> reservations_seq d \<and> reservation_check v) \<and>
     distinct (map prx_id (proxies d)) \<and> (\<forall>p \<in> set (proxies d). prx_id p \<le> proxies_seq d) \<and>
     distinct (map rel_id (relays d)) \<and> (\<forall>r \<in> set (relays d). rel_id r \<le> relays_seq d) \<and>
     (\<forall>v \<in> set (reservations d). \<forall>w \<in> set (reservations d). res_id v \<noteq> res_id w \<longrightarrow> \<not> conflicts d v w)"

lemma conflicts_sym: "conflicts d v w = conflicts d w v"
  unfolding conflicts_def by auto

lemma conflicts_frame:
  assumes "\<And>x. x \<in> {v, w} \<Longrightarrow> res_type x = ''relay'' \<Longrightarrow> source_client e (res_resource_id x) = source_client d (res_resource_id x)"
  shows "conflicts e v w = conflicts d v w"
  using assms [of v] assms [of w] unfolding conflicts_def by auto

lemma set_keys:
  assumes "mset (map listen_key (reservations d)) = listener_set d"
  shows "listen_key ` set (reservations d) = proxy_key ` set (proxies d) \<union> relay_key ` set (relays d) \<union> port_key ` set (relay_ports d)"
proof -
  have "set_mset (mset (map listen_key (reservations d))) = set_mset (listener_set d)"
    using assms by simp
  then show ?thesis
    by (simp add: listener_set_def)
qed

lemma reserved_relay:
  assumes "listeners_ok d" "v \<in> set (reservations d)" "res_type v = ''relay''"
  shows "\<exists>r \<in> set (relays d). rel_id r = res_resource_id v"
proof -
  have m: "mset (map listen_key (reservations d)) = listener_set d"
    using assms(1) by (simp add: listeners_ok_def)
  have "listen_key v \<in> proxy_key ` set (proxies d) \<union> relay_key ` set (relays d) \<union> port_key ` set (relay_ports d)"
    unfolding set_keys [OF m, symmetric] using assms(2) by simp
  then show ?thesis
    using assms(3) by (auto simp: listen_key_def proxy_key_def relay_key_def port_key_def)
qed

lemma insert_reservation_effect:
  assumes "insert_reservation k kind rid port net t d = Inr d'"
  obtains v where "d' = d\<lparr>reservations := reservations d @ [v], reservations_seq := reservations_seq d + 1\<rparr>" "res_id v = reservations_seq d + 1"
    "listen_key v = (k, kind, rid, port, net)" "reservation_check v" "\<And>w. w \<in> set (reservations d) \<Longrightarrow> \<not> conflicts d v w"
proof -
  let ?v = "\<lparr>res_id = reservations_seq d + 1, res_server_id = k, res_type = kind, res_resource_id = rid, res_port = port,
      res_network = net, res_created_at = t\<rparr>"
  show ?thesis
    by (rule that [of ?v]) (use assms in \<open>auto simp: insert_reservation_def Let_def listen_key_def sql_exists_iff split: if_splits\<close>)
qed

text \<open>Adding a listener \<open>x\<close> with its reservation: \<open>e\<close> is the database after the write and before the trigger.\<close>

lemma insert_listener_ok:
  assumes ok: "listeners_ok d"
    and ins: "insert_reservation k kind rid port net t e = Inr d'"
    and new: "listener_set e = add_mset (k, kind, rid, port, net) (listener_set d)"
    and same: "reservations e = reservations d" "reservations_seq e = reservations_seq d"
    and tables: "distinct (map prx_id (proxies e))" "\<forall>p \<in> set (proxies e). prx_id p \<le> proxies_seq e"
      "distinct (map rel_id (relays e))" "\<forall>r \<in> set (relays e). rel_id r \<le> relays_seq e"
    and src: "\<And>r. r \<in> set (relays d) \<Longrightarrow> source_client e (rel_id r) = source_client d (rel_id r)"
  shows "listeners_ok d'"
proof -
  obtain v where v: "d' = e\<lparr>reservations := reservations e @ [v], reservations_seq := reservations_seq e + 1\<rparr>" "res_id v = reservations_seq e + 1"
    "listen_key v = (k, kind, rid, port, net)" "reservation_check v" "\<And>w. w \<in> set (reservations e) \<Longrightarrow> \<not> conflicts e v w"
    using insert_reservation_effect [OF ins] by metis
  have old: "conflicts e x y = conflicts d x y" if "x \<in> set (reservations d)" "y \<in> set (reservations d)" for x y
    by (rule conflicts_frame) (use reserved_relay [OF ok] src that in force)
  have c: "conflicts d' = conflicts e"
    by (simp add: v(1) conflicts_def source_client_def fun_eq_iff)
  have "mset (map listen_key (reservations d')) = listener_set d'"
    using ok new by (simp add: v(1) same v(3) listeners_ok_def listener_set_def)
  moreover have "distinct (map res_id (reservations d'))"
    using ok by (force simp: v(1,2) same listeners_ok_def)
  moreover have "\<forall>x \<in> set (reservations d'). res_id x \<le> reservations_seq d' \<and> reservation_check x"
    using ok v(4) by (force simp: v(1,2) same listeners_ok_def)
  moreover have "\<not> conflicts d' x y" if "x \<in> set (reservations d')" "y \<in> set (reservations d')" "res_id x \<noteq> res_id y" for x y
  proof -
    have "(x \<in> set (reservations d) \<or> x = v) \<and> (y \<in> set (reservations d) \<or> y = v)"
      using that by (auto simp: v(1) same)
    then show ?thesis
      using ok old v(5) conflicts_sym [of e] that(3) unfolding c same listeners_ok_def by metis
  qed
  ultimately show ?thesis
    using tables unfolding listeners_ok_def by (simp add: v(1))
qed

lemma insert_proxy_ok:
  assumes ok: "listeners_ok d" and r: "insert_proxy_row p d = Inr d'"
  shows "listeners_ok d'"
proof -
  let ?p = "p\<lparr>prx_id := proxies_seq d + 1\<rparr>"
  let ?e = "d\<lparr>proxies := proxies d @ [?p], proxies_seq := proxies_seq d + 1\<rparr>"
  have "insert_reservation (prx_server_id p) ''proxy'' (proxies_seq d + 1) (prx_listen_port p) (proxy_network (prx_protocol p)) (prx_created_at p) ?e = Inr d'"
    using r by (simp add: insert_proxy_row_def Let_def)
  then show ?thesis
    by (rule insert_listener_ok [OF ok])
      (use ok in \<open>force simp: listeners_ok_def listener_set_def proxy_key_def source_client_def\<close>)+
qed

lemma source_append:
  assumes "\<forall>r \<in> set (relays d). rel_id r \<noteq> rel_id x" "rid \<noteq> rel_id x"
  shows "source_client (d\<lparr>relays := relays d @ [x], relays_seq := n\<rparr>) rid = source_client d rid"
proof -
  have "sql_first (\<lambda>r. rel_id r = rid) [x] = None"
    using assms(2) by (simp add: sql_first_def)
  then have "sql_first (\<lambda>r. rel_id r = rid) (relays d @ [x]) = sql_first (\<lambda>r. rel_id r = rid) (relays d)"
    by (simp only: sql_first_append option.case_eq_if) (cases "sql_first (\<lambda>r. rel_id r = rid) (relays d)", simp_all)
  then show ?thesis
    by (simp add: source_client_def)
qed

lemma insert_relay_ok:
  assumes ok: "listeners_ok d" and r: "insert_relay_row x d = Inr d'"
  shows "listeners_ok d'"
proof -
  let ?x = "x\<lparr>rel_id := relays_seq d + 1\<rparr>"
  let ?e = "d\<lparr>relays := relays d @ [?x], relays_seq := relays_seq d + 1\<rparr>"
  have "insert_reservation (rel_server_id x) ''relay'' (relays_seq d + 1) (rel_listen_port x) (relay_network (rel_network x)) (rel_created_at x) ?e = Inr d'"
    using r by (simp add: insert_relay_row_def Let_def)
  then show ?thesis
  proof (rule insert_listener_ok [OF ok])
    fix q
    assume "q \<in> set (relays d)"
    then show "source_client ?e (rel_id q) = source_client d (rel_id q)"
      using ok source_append [of d ?x "rel_id q" "relays_seq d + 1"] by (force simp: listeners_ok_def)
  qed (use ok in \<open>force simp: listeners_ok_def listener_set_def relay_key_def\<close>)+
qed

lemma insert_port_ok:
  assumes ok: "listeners_ok d" and r: "insert_relay_port cid k port now d = Inr d'"
  shows "listeners_ok d'"
proof -
  let ?e = "d\<lparr>relay_ports := relay_ports d @ [\<lparr>crp_client_id = cid, crp_server_id = k, crp_port = port, crp_created_at = now\<rparr>]\<rparr>"
  have "insert_reservation k ''client_relay'' cid port ''tcp'' now ?e = Inr d'"
    using r by (simp add: insert_relay_port_def split: if_splits)
  then show ?thesis
    by (rule insert_listener_ok [OF ok])
      (use ok in \<open>simp_all add: listeners_ok_def listener_set_def port_key_def source_client_def\<close>)
qed

section \<open>Removing a listener\<close>

lemma delete_listener_ok:
  assumes ok: "listeners_ok d"
    and res: "reservations e = filter (\<lambda>v. K (listen_key v)) (reservations d)" "reservations_seq e = reservations_seq d"
    and set: "listener_set e = filter_mset K (listener_set d)"
    and tables: "distinct (map prx_id (proxies e))" "\<forall>p \<in> set (proxies e). prx_id p \<le> proxies_seq e"
      "distinct (map rel_id (relays e))" "\<forall>r \<in> set (relays e). rel_id r \<le> relays_seq e"
    and src: "\<And>v. v \<in> set (reservations e) \<Longrightarrow> res_type v = ''relay'' \<Longrightarrow>
      source_client e (res_resource_id v) = source_client d (res_resource_id v)"
  shows "listeners_ok e"
proof -
  have m: "mset (map listen_key (reservations d)) = listener_set d"
    using ok by (simp add: listeners_ok_def)
  have "mset (map listen_key (reservations e)) = filter_mset K (mset (map listen_key (reservations d)))"
    unfolding res(1) by (simp add: filter_mset_image_mset)
  then have "mset (map listen_key (reservations e)) = listener_set e"
    unfolding m set .
  moreover have "distinct (map res_id (reservations e))"
    using ok by (simp add: res(1) listeners_ok_def distinct_map_filter)
  moreover have "\<forall>x \<in> set (reservations e). res_id x \<le> reservations_seq e \<and> reservation_check x"
    using ok by (simp add: res listeners_ok_def)
  moreover have "\<not> conflicts e x y" if xy: "x \<in> set (reservations e)" "y \<in> set (reservations e)" "res_id x \<noteq> res_id y" for x y
  proof -
    have "conflicts e x y = conflicts d x y"
      by (rule conflicts_frame) (use src xy in blast)
    moreover have "x \<in> set (reservations d)" "y \<in> set (reservations d)"
      using xy by (simp_all add: res(1))
    ultimately show ?thesis
      using ok xy(3) unfolding listeners_ok_def by blast
  qed
  ultimately show ?thesis
    using tables unfolding listeners_ok_def by blast
qed

lemma filter_mset_none: "(\<And>x. x \<in> set xs \<Longrightarrow> K (f x)) \<Longrightarrow> filter_mset K (mset (map f xs)) = mset (map f xs)"
  by (simp add: filter_mset_eq_conv)

lemma delete_proxy_ok:
  assumes ok: "listeners_ok d"
  shows "listeners_ok (delete_proxy_row pid d)"
proof -
  let ?K = "\<lambda>x :: listen_entry. \<not> (fst (snd x) = ''proxy'' \<and> fst (snd (snd x)) = pid)"
  show ?thesis
  proof (rule delete_listener_ok [OF ok, where K = ?K])
    show "listener_set (delete_proxy_row pid d) = filter_mset ?K (listener_set d)"
      by (auto simp: listener_set_def delete_proxy_row_def delete_reservations_def sql_delete_def filter_mset_image_mset
          proxy_key_def relay_key_def port_key_def)
  qed (use ok in \<open>simp_all add: delete_proxy_row_def delete_reservations_def sql_delete_def listen_key_def source_client_def
      listeners_ok_def distinct_map_filter\<close>)
qed

lemma source_client_delete: "rid' \<noteq> rid \<Longrightarrow>
  sql_first (\<lambda>r. rel_id r = rid') (sql_delete (\<lambda>r. rel_id r = rid) t) = sql_first (\<lambda>r. rel_id r = rid') t"
  by (induction t) (auto simp: sql_first_def sql_delete_def)

lemma delete_relay_ok:
  assumes ok: "listeners_ok d"
  shows "listeners_ok (delete_relay_row rid d)"
proof -
  let ?K = "\<lambda>x :: listen_entry. \<not> (fst (snd x) = ''relay'' \<and> fst (snd (snd x)) = rid)"
  show ?thesis
  proof (rule delete_listener_ok [OF ok, where K = ?K])
    show "listener_set (delete_relay_row rid d) = filter_mset ?K (listener_set d)"
      by (auto simp: listener_set_def delete_relay_row_def delete_reservations_def sql_delete_def filter_mset_image_mset
          proxy_key_def relay_key_def port_key_def)
  next
    fix v
    assume "v \<in> set (reservations (delete_relay_row rid d))" "res_type v = ''relay''"
    then have "res_resource_id v \<noteq> rid"
      by (auto simp: delete_relay_row_def delete_reservations_def sql_delete_def)
    then show "source_client (delete_relay_row rid d) (res_resource_id v) = source_client d (res_resource_id v)"
      by (simp add: source_client_def delete_relay_row_def delete_reservations_def source_client_delete)
  qed (use ok in \<open>simp_all add: delete_relay_row_def delete_reservations_def sql_delete_def listen_key_def
      listeners_ok_def distinct_map_filter\<close>)
qed

text \<open>Under the invariant a relay port has its row, so deleting the ports deletes every reservation of the client.\<close>

lemma reserved_port:
  assumes "listeners_ok d" "v \<in> set (reservations d)" "res_type v = ''client_relay''"
  shows "\<exists>q \<in> set (relay_ports d). crp_client_id q = res_resource_id v \<and> crp_port q = res_port v"
proof -
  have m: "mset (map listen_key (reservations d)) = listener_set d"
    using assms(1) by (simp add: listeners_ok_def)
  have "listen_key v \<in> proxy_key ` set (proxies d) \<union> relay_key ` set (relays d) \<union> port_key ` set (relay_ports d)"
    unfolding set_keys [OF m, symmetric] using assms(2) by simp
  then show ?thesis
    using assms(3) by (auto simp: listen_key_def proxy_key_def relay_key_def port_key_def)
qed

lemma delete_ports_ok:
  assumes ok: "listeners_ok d"
  shows "listeners_ok (delete_relay_ports cid d)"
proof -
  let ?K = "\<lambda>x :: listen_entry. \<not> (fst (snd x) = ''client_relay'' \<and> fst (snd (snd x)) = cid)"
  show ?thesis
  proof (rule delete_listener_ok [OF ok, where K = ?K])
    show "reservations (delete_relay_ports cid d) = filter (\<lambda>v. ?K (listen_key v)) (reservations d)"
      unfolding delete_relay_ports_def sql_delete_def
      by (simp add: listen_key_def sql_exists_iff, rule filter_cong [OF refl]) (use reserved_port [OF ok] in force)
    show "listener_set (delete_relay_ports cid d) = filter_mset ?K (listener_set d)"
      by (auto simp: listener_set_def delete_relay_ports_def sql_delete_def filter_mset_image_mset
          proxy_key_def relay_key_def port_key_def)
  qed (use ok in \<open>simp_all add: delete_relay_ports_def source_client_def listeners_ok_def\<close>)
qed


lemma distinct_one: "distinct (map key xs) \<Longrightarrow> size (filter_mset (\<lambda>x. key x = a) (mset xs)) \<le> 1"
  unfolding mset_filter [symmetric] size_mset by (induction xs) (auto simp: filter_empty_conv image_iff)

lemma two_mset: "v \<in> set xs \<Longrightarrow> w \<in> set xs \<Longrightarrow> v \<noteq> w \<Longrightarrow> {#v, w#} \<subseteq># mset xs"
  by (simp add: insert_subset_eq_iff in_diff_count)

section \<open>Changing a listener\<close>

definition rekey :: "string \<Rightarrow> id64 \<Rightarrow> listen_entry \<Rightarrow> listen_entry \<Rightarrow> listen_entry" where
  "rekey kind rid new x = (if fst (snd x) = kind \<and> fst (snd (snd x)) = rid then new else x)"

lemma update_reservation_effect:
  assumes "update_reservation kind rid k port net d = Inr d'"
  shows "d' = d\<lparr>reservations := sql_update (\<lambda>v. res_type v = kind \<and> res_resource_id v = rid)
      (\<lambda>v. v\<lparr>res_server_id := k, res_port := port, res_network := net\<rparr>) (reservations d)\<rparr>"
    and "\<And>v. v \<in> set (reservations d) \<Longrightarrow> res_type v = kind \<Longrightarrow> res_resource_id v = rid \<Longrightarrow>
      reservation_check (v\<lparr>res_server_id := k, res_port := port, res_network := net\<rparr>)"
    and "\<And>v w. v \<in> set (reservations d) \<Longrightarrow> res_type v = kind \<Longrightarrow> res_resource_id v = rid \<Longrightarrow>
      w \<in> set (reservations d) \<Longrightarrow> res_id w \<noteq> res_id v \<Longrightarrow>
      \<not> conflicts d (v\<lparr>res_server_id := k, res_port := port, res_network := net\<rparr>) w"
  using assms by (auto simp: update_reservation_def Let_def sql_exists_iff split: if_splits)

lemma update_listener_ok:
  assumes ok: "listeners_ok d"
    and upd: "update_reservation kind rid k port net e = Inr d'"
    and new: "listener_set e = image_mset (rekey kind rid (k, kind, rid, port, net)) (listener_set d)"
    and same: "reservations e = reservations d" "reservations_seq e = reservations_seq d"
    and one: "\<And>v w. v \<in> set (reservations d) \<Longrightarrow> w \<in> set (reservations d) \<Longrightarrow> res_type v = kind \<Longrightarrow> res_resource_id v = rid \<Longrightarrow>
      res_type w = kind \<Longrightarrow> res_resource_id w = rid \<Longrightarrow> res_id v = res_id w"
    and tables: "distinct (map prx_id (proxies e))" "\<forall>p \<in> set (proxies e). prx_id p \<le> proxies_seq e"
      "distinct (map rel_id (relays e))" "\<forall>r \<in> set (relays e). rel_id r \<le> relays_seq e"
    and src: "\<And>i. i \<noteq> rid \<or> kind \<noteq> ''relay'' \<Longrightarrow> source_client e i = source_client d i"
  shows "listeners_ok d'"
proof -
  let ?mine = "\<lambda>v. res_type v = kind \<and> res_resource_id v = rid"
  let ?f = "\<lambda>v. v\<lparr>res_server_id := k, res_port := port, res_network := net\<rparr>"
  let ?g = "\<lambda>v. if ?mine v then ?f v else v"
  have d': "d' = e\<lparr>reservations := map ?g (reservations d)\<rparr>"
    using update_reservation_effect(1) [OF upd] by (simp add: same sql_update_def)
  have c: "conflicts d' = conflicts e"
    by (simp add: d' conflicts_def source_client_def fun_eq_iff)
  have m: "mset (map listen_key (reservations d)) = listener_set d"
    using ok by (simp add: listeners_ok_def)
  have "listen_key (?g v) = rekey kind rid (k, kind, rid, port, net) (listen_key v)" for v
    by (auto simp: listen_key_def rekey_def)
  then have "mset (map listen_key (map ?g (reservations d))) =
      image_mset (rekey kind rid (k, kind, rid, port, net)) (mset (map listen_key (reservations d)))"
    by (simp add: multiset.map_comp comp_def)
  then have "mset (map listen_key (reservations d')) = listener_set d'"
    unfolding m new [symmetric] by (simp add: d' listener_set_def)
  moreover have "map res_id (reservations d') = map res_id (reservations d)"
    by (simp add: d')
  then have "distinct (map res_id (reservations d'))"
    using ok unfolding listeners_ok_def by metis
  moreover have "\<forall>x \<in> set (reservations d'). res_id x \<le> reservations_seq d' \<and> reservation_check x"
    using ok update_reservation_effect(2) [OF upd] by (auto simp: d' same listeners_ok_def)
  moreover have "\<not> conflicts d' x y" if xy: "x \<in> set (reservations d')" "y \<in> set (reservations d')" "res_id x \<noteq> res_id y" for x y
  proof -
    obtain v w where v: "v \<in> set (reservations d)" "x = ?g v" and w: "w \<in> set (reservations d)" "y = ?g w"
      using xy(1,2) unfolding d' by auto
    have ne: "res_id v \<noteq> res_id w"
      using xy(3) v(2) w(2) by (simp split: if_splits)
    have fv: "\<not> conflicts e (?f a) b" if "?mine a" "a \<in> set (reservations d)" "b \<in> set (reservations d)" "res_id a \<noteq> res_id b" for a b
      using update_reservation_effect(3) [OF upd, of a b] that by (simp add: same)
    consider "?mine v" "\<not> ?mine w" | "?mine w" "\<not> ?mine v" | "\<not> ?mine v" "\<not> ?mine w"
      using one [OF v(1) w(1)] ne by blast
    then show ?thesis
    proof cases
      case 1
      then have "x = ?f v" "y = w"
        using v(2) w(2) by (metis, metis)
      then show ?thesis using fv [of v w] v(1) w(1) ne 1 unfolding c by metis
    next
      case 2
      then have "y = ?f w" "x = v"
        using v(2) w(2) by (metis, metis)
      then show ?thesis using fv [of w v] v(1) w(1) ne 2 conflicts_sym [of e] unfolding c by metis
    next
      case 3
      have "conflicts e v w = conflicts d v w"
        by (rule conflicts_frame) (use src 3 in blast)
      moreover have "x = v" "y = w"
        using v(2) w(2) 3 by (metis, metis)
      ultimately show ?thesis
        using ok v(1) w(1) ne unfolding c listeners_ok_def by blast
    qed
  qed
  ultimately show ?thesis
    using tables unfolding listeners_ok_def by (simp add: d' same)
qed

text \<open>A key of the tables has one row, and its reservation is the only one of its kind and resource.\<close>

lemma one_reservation:
  assumes ok: "listeners_ok d" and kind: "kind = ''proxy'' \<or> kind = ''relay''"
    and v: "v \<in> set (reservations d)" "res_type v = kind" "res_resource_id v = rid"
    and w: "w \<in> set (reservations d)" "res_type w = kind" "res_resource_id w = rid"
  shows "res_id v = res_id w"
proof (rule ccontr)
  assume ne: "res_id v \<noteq> res_id w"
  let ?K = "\<lambda>x :: listen_entry. fst (snd x) = kind \<and> fst (snd (snd x)) = rid"
  have m: "mset (map listen_key (reservations d)) = listener_set d"
    using ok by (simp add: listeners_ok_def)
  have "{#v, w#} \<subseteq># mset (reservations d)"
    using two_mset [OF v(1) w(1)] ne by blast
  then have "size {#v, w#} \<le> size (filter_mset (\<lambda>v. ?K (listen_key v)) (mset (reservations d)))"
    using v w multiset_filter_mono [of "{#v, w#}" "mset (reservations d)" "\<lambda>v. ?K (listen_key v)"]
    by (auto simp: listen_key_def dest!: size_mset_mono)
  also have "\<dots> = size (filter_mset ?K (mset (map listen_key (reservations d))))"
    by (simp add: filter_mset_image_mset)
  also have "\<dots> \<le> 1"
    unfolding m listener_set_def using kind
  proof
    assume "kind = ''proxy''"
    then show "size (filter_mset ?K (mset (map proxy_key (proxies d)) + mset (map relay_key (relays d)) + mset (map port_key (relay_ports d)))) \<le> 1"
      using ok distinct_one [of prx_id "proxies d" rid]
      by (simp add: filter_mset_image_mset proxy_key_def relay_key_def port_key_def listeners_ok_def)
  next
    assume "kind = ''relay''"
    then show "size (filter_mset ?K (mset (map proxy_key (proxies d)) + mset (map relay_key (relays d)) + mset (map port_key (relay_ports d)))) \<le> 1"
      using ok distinct_one [of rel_id "relays d" rid]
      by (simp add: filter_mset_image_mset proxy_key_def relay_key_def port_key_def listeners_ok_def)
  qed
  finally show False by simp
qed


lemma rekey_proxies:
  assumes "distinct (map prx_id ps)" "sql_first (\<lambda>p. prx_id p = pid) ps = Some p" "\<And>x. prx_id (f x) = prx_id x"
  shows "map proxy_key (sql_update (\<lambda>p. prx_id p = pid) f ps) = map (rekey ''proxy'' pid (proxy_key (f p))) (map proxy_key ps)"
proof -
  have "proxy_key (if prx_id x = pid then f x else x) = rekey ''proxy'' pid (proxy_key (f p)) (proxy_key x)" if "x \<in> set ps" for x
  proof (cases "prx_id x = pid")
    case True
    then have "x = p"
      using assms(1) sql_first_SomeD [OF assms(2)] that by (metis (mono_tags) distinct_map inj_onD)
    then show ?thesis
      using True by (simp add: rekey_def proxy_key_def)
  qed (simp add: rekey_def proxy_key_def)
  then show ?thesis
    by (simp add: sql_update_def)
qed

lemma rekey_relays:
  assumes "distinct (map rel_id rs)" "sql_first (\<lambda>r. rel_id r = rid) rs = Some r" "\<And>x. rel_id (f x) = rel_id x"
  shows "map relay_key (sql_update (\<lambda>r. rel_id r = rid) f rs) = map (rekey ''relay'' rid (relay_key (f r))) (map relay_key rs)"
proof -
  have "relay_key (if rel_id x = rid then f x else x) = rekey ''relay'' rid (relay_key (f r)) (relay_key x)" if "x \<in> set rs" for x
  proof (cases "rel_id x = rid")
    case True
    then have "x = r"
      using assms(1) sql_first_SomeD [OF assms(2)] that by (metis (mono_tags) distinct_map inj_onD)
    then show ?thesis
      using True by (simp add: rekey_def relay_key_def)
  qed (simp add: rekey_def relay_key_def)
  then show ?thesis
    by (simp add: sql_update_def)
qed

lemma rekey_others:
  "map (rekey ''proxy'' i new) (map relay_key rs) = map relay_key rs" "map (rekey ''proxy'' i new) (map port_key qs) = map port_key qs"
  "map (rekey ''relay'' i new) (map proxy_key ps) = map proxy_key ps" "map (rekey ''relay'' i new) (map port_key qs) = map port_key qs"
  by (simp_all add: rekey_def relay_key_def port_key_def proxy_key_def)

lemma update_proxy_ok:
  assumes ok: "listeners_ok d" and u: "update_proxy_row pid f d = Inr d'" and f: "\<And>x. prx_id (f x) = prx_id x"
  shows "listeners_ok d'"
proof (cases "sql_first (\<lambda>p. prx_id p = pid) (proxies d)")
  case None
  then show ?thesis using u ok by (simp add: update_proxy_row_def)
next
  case (Some p)
  let ?e = "d\<lparr>proxies := sql_update (\<lambda>p. prx_id p = pid) f (proxies d)\<rparr>"
  have pid: "prx_id p = pid"
    using sql_first_SomeD [OF Some] by simp
  have u': "update_reservation ''proxy'' pid (prx_server_id (f p)) (prx_listen_port (f p)) (proxy_network (prx_protocol (f p))) ?e = Inr d'"
    using u by (simp add: update_proxy_row_def Some)
  have dis: "distinct (map prx_id (proxies d))"
    using ok by (simp add: listeners_ok_def)
  have ids: "map prx_id (sql_update (\<lambda>p. prx_id p = pid) f (proxies d)) = map prx_id (proxies d)"
    by (rule map_sql_update_key) (rule f)
  have key: "proxy_key (f p) = (prx_server_id (f p), ''proxy'', pid, prx_listen_port (f p), proxy_network (prx_protocol (f p)))"
    by (simp add: proxy_key_def f pid)
  show ?thesis
  proof (rule update_listener_ok [OF ok u'])
    show "listener_set ?e = image_mset (rekey ''proxy'' pid (prx_server_id (f p), ''proxy'', pid, prx_listen_port (f p), proxy_network (prx_protocol (f p))))
        (listener_set d)"
      unfolding listener_set_def key [symmetric]
      using rekey_proxies [OF dis Some f] rekey_others(1,2) [of pid "proxy_key (f p)"]
      by (simp flip: mset_map del: map_map mset_map)
    show "distinct (map prx_id (proxies ?e))"
      using dis ids by simp
    show "\<forall>p \<in> set (proxies ?e). prx_id p \<le> proxies_seq ?e"
      using ok f by (auto simp: set_sql_update listeners_ok_def)
    show "res_id v = res_id w" if "v \<in> set (reservations d)" "w \<in> set (reservations d)" "res_type v = ''proxy''" "res_resource_id v = pid"
        "res_type w = ''proxy''" "res_resource_id w = pid" for v w
      by (rule one_reservation [OF ok disjI1 [OF refl] that(1,3,4,2,5,6)])
    show "distinct (map rel_id (relays ?e))" "\<forall>r \<in> set (relays ?e). rel_id r \<le> relays_seq ?e"
      using ok by (simp_all add: listeners_ok_def)
  qed (simp_all add: source_client_def)
qed

lemma update_relay_ok:
  assumes ok: "listeners_ok d" and u: "update_relay_row rid f d = Inr d'" and f: "\<And>x. rel_id (f x) = rel_id x"
  shows "listeners_ok d'"
proof (cases "sql_first (\<lambda>r. rel_id r = rid) (relays d)")
  case None
  then show ?thesis using u ok by (simp add: update_relay_row_def)
next
  case (Some r)
  let ?e = "d\<lparr>relays := sql_update (\<lambda>r. rel_id r = rid) f (relays d)\<rparr>"
  have rid: "rel_id r = rid"
    using sql_first_SomeD [OF Some] by simp
  have u': "update_reservation ''relay'' rid (rel_server_id (f r)) (rel_listen_port (f r)) (relay_network (rel_network (f r))) ?e = Inr d'"
    using u by (simp add: update_relay_row_def Some)
  have dis: "distinct (map rel_id (relays d))"
    using ok by (simp add: listeners_ok_def)
  have ids: "map rel_id (sql_update (\<lambda>r. rel_id r = rid) f (relays d)) = map rel_id (relays d)"
    by (rule map_sql_update_key) (rule f)
  have key: "relay_key (f r) = (rel_server_id (f r), ''relay'', rid, rel_listen_port (f r), relay_network (rel_network (f r)))"
    by (simp add: relay_key_def f rid)
  show ?thesis
  proof (rule update_listener_ok [OF ok u'])
    show "listener_set ?e = image_mset (rekey ''relay'' rid (rel_server_id (f r), ''relay'', rid, rel_listen_port (f r), relay_network (rel_network (f r))))
        (listener_set d)"
      unfolding listener_set_def key [symmetric]
      using rekey_relays [OF dis Some f] rekey_others(3,4) [of rid "relay_key (f r)"]
      by (simp flip: mset_map del: map_map mset_map)
    show "distinct (map rel_id (relays ?e))"
      using dis ids by simp
    show "\<forall>r \<in> set (relays ?e). rel_id r \<le> relays_seq ?e"
      using ok f by (auto simp: set_sql_update listeners_ok_def)
    show "source_client ?e i = source_client d i" if "i \<noteq> rid \<or> ''relay'' \<noteq> ''relay''" for i
    proof -
      have "sql_first (\<lambda>r. rel_id r = i) (sql_update (\<lambda>r. rel_id r = rid) f (relays d)) = sql_first (\<lambda>r. rel_id r = i) (relays d)"
        using that f by (intro sql_first_update_other) auto
      then show ?thesis by (simp add: source_client_def)
    qed
    show "res_id v = res_id w" if "v \<in> set (reservations d)" "w \<in> set (reservations d)" "res_type v = ''relay''" "res_resource_id v = rid"
        "res_type w = ''relay''" "res_resource_id w = rid" for v w
      by (rule one_reservation [OF ok disjI2 [OF refl] that(1,3,4,2,5,6)])
    show "distinct (map prx_id (proxies ?e))" "\<forall>p \<in> set (proxies ?e). prx_id p \<le> proxies_seq ?e"
      using ok by (simp_all add: listeners_ok_def)
  qed simp_all
qed


section \<open>Relay ports of a client\<close>

definition reserved :: "id64 \<Rightarrow> int \<Rightarrow> panel_db \<Rightarrow> bool" where
  "reserved k port d \<longleftrightarrow> (\<exists>v \<in> set (reservations d). res_server_id v = k \<and> res_port v = port)"

definition port_row :: "id64 \<Rightarrow> id64 \<Rightarrow> unix_time \<Rightarrow> int \<Rightarrow> relay_port_row" where
  "port_row cid k now port = \<lparr>crp_client_id = cid, crp_server_id = k, crp_port = port, crp_created_at = now\<rparr>"

lemma port_is_reserved:
  assumes ok: "listeners_ok d" and q: "q \<in> set (relay_ports d)"
  shows "\<exists>v \<in> set (reservations d). res_server_id v = crp_server_id q \<and> res_port v = crp_port q"
proof -
  have m: "mset (map listen_key (reservations d)) = listener_set d"
    using ok by (simp add: listeners_ok_def)
  have "port_key q \<in> listen_key ` set (reservations d)"
    unfolding set_keys [OF m] using q by simp
  then show ?thesis
    by (auto simp: port_key_def listen_key_def)
qed

lemma insert_free_port:
  assumes ok: "listeners_ok d" and range: "20000 \<le> port" "port \<le> 29999" and free: "\<not> reserved k port d"
    and own: "\<forall>q \<in> set (relay_ports d). \<not> (crp_client_id q = cid \<and> crp_port q = port)"
  obtains v where "insert_relay_port cid k port now d =
      Inr (d\<lparr>relay_ports := relay_ports d @ [port_row cid k now port], reservations := reservations d @ [v], reservations_seq := res_id v\<rparr>)"
    "res_server_id v = k" "res_port v = port"
proof -
  let ?v = "\<lparr>res_id = reservations_seq d + 1, res_server_id = k, res_type = ''client_relay'', res_resource_id = cid, res_port = port,
      res_network = ''tcp'', res_created_at = now\<rparr>"
  have 1: "\<not> sql_exists (\<lambda>p. crp_client_id p = cid \<and> crp_port p = port \<or> crp_server_id p = k \<and> crp_port p = port) (relay_ports d)"
    using own port_is_reserved [OF ok] free unfolding sql_exists_iff reserved_def by metis
  have 2: "\<not> sql_exists (conflicts e ?v) (reservations d)" for e
    using free by (auto simp: sql_exists_iff conflicts_def reserved_def)
  have 3: "\<not> sql_exists (same_key ?v) (reservations d)"
    using reserved_port [OF ok] own by (force simp: sql_exists_iff same_key_def)
  show ?thesis
    by (rule that [of ?v])
      (use 1 2 3 range in \<open>simp_all add: insert_relay_port_def insert_reservation_def Let_def port_row_def reservation_check_def\<close>)
qed

lemma insert_free_block:
  assumes "listeners_ok d" "distinct ports" "\<forall>port \<in> set ports. 20000 \<le> port \<and> port \<le> 29999 \<and> \<not> reserved k port d"
    "\<forall>q \<in> set (relay_ports d). crp_client_id q = cid \<longrightarrow> crp_port q \<notin> set ports"
  shows "\<exists>d'. insert_block cid k now ports d = (True, d') \<and> listeners_ok d' \<and> relay_ports d' = relay_ports d @ map (port_row cid k now) ports"
  using assms
proof (induction ports arbitrary: d)
  case (Cons port ports)
  have p: "20000 \<le> port" "port \<le> 29999" "\<not> reserved k port d" "\<forall>q \<in> set (relay_ports d). \<not> (crp_client_id q = cid \<and> crp_port q = port)"
    using Cons.prems(3,4) by auto
  obtain v where v: "insert_relay_port cid k port now d =
      Inr (d\<lparr>relay_ports := relay_ports d @ [port_row cid k now port], reservations := reservations d @ [v], reservations_seq := res_id v\<rparr>)"
    (is "_ = Inr ?e") "res_server_id v = k" "res_port v = port"
    by (rule insert_free_port [OF Cons.prems(1) p]) blast
  have e: "listeners_ok ?e"
    by (rule insert_port_ok [OF Cons.prems(1) v(1)])
  have free: "\<forall>q \<in> set ports. 20000 \<le> q \<and> q \<le> 29999 \<and> \<not> reserved k q ?e"
    using Cons.prems(2,3) v(2,3) by (auto simp: reserved_def)
  have own: "\<forall>q \<in> set (relay_ports ?e). crp_client_id q = cid \<longrightarrow> crp_port q \<notin> set ports"
    using Cons.prems(2,4) by (auto simp: port_row_def)
  obtain d' where "insert_block cid k now ports ?e = (True, d')" "listeners_ok d'"
      "relay_ports d' = relay_ports ?e @ map (port_row cid k now) ports"
    using Cons.IH [OF e _ free own] Cons.prems(2) by auto
  then show ?case
    using v(1) by simp
qed simp

lemma free_starts_iff:
  "start \<in> set (free_starts k number d) \<longleftrightarrow> 20000 \<le> start \<and> start + number - 1 \<le> 29999 \<and>
     (\<forall>port \<in> {start..start + number - 1}. \<not> (20000 \<le> port \<and> port \<le> 29999 \<and> reserved k port d))"
proof -
  have "port \<in> set (map res_port (occupied_listeners k user_relay_port_start user_relay_port_end d)) \<longleftrightarrow>
      20000 \<le> port \<and> port \<le> 29999 \<and> reserved k port d" for port
    by (auto simp: occupied_listeners_def user_relay_port_start_def user_relay_port_end_def reserved_def)
  then show ?thesis
    unfolding free_starts_def Let_def port_block_def
    by (auto simp: list_all_iff user_relay_port_start_def user_relay_port_end_def)
qed

lemma pick_free_block:
  assumes ok: "listeners_ok d" and own: "\<forall>q \<in> set (relay_ports d). crp_client_id q \<noteq> cid" and some: "free_starts k number d \<noteq> []"
  shows "\<exists>start d'. start \<in> set (free_starts k number d) \<and> pick_block draw n cid k number now (free_starts k number d) d = Inr d' \<and>
    listeners_ok d' \<and> relay_ports d' = relay_ports d @ map (port_row cid k now) (port_block start number)"
proof -
  let ?starts = "free_starts k number d"
  let ?start = "?starts ! (draw n mod length ?starts)"
  have start: "?start \<in> set ?starts"
    using some by simp
  have free: "\<forall>port \<in> set (port_block ?start number). 20000 \<le> port \<and> port \<le> 29999 \<and> \<not> reserved k port d"
    using start unfolding free_starts_iff by (auto simp: port_block_def)
  have dis: "distinct (port_block ?start number)"
    by (simp add: port_block_def)
  have own': "\<forall>q \<in> set (relay_ports d). crp_client_id q = cid \<longrightarrow> crp_port q \<notin> set (port_block ?start number)"
    using own by blast
  obtain d' where d': "insert_block cid k now (port_block ?start number) d = (True, d')" "listeners_ok d'"
      "relay_ports d' = relay_ports d @ map (port_row cid k now) (port_block ?start number)"
    using insert_free_block [OF ok dis free own'] by blast
  have "pick_block draw n cid k number now ?starts d = Inr d'"
    by (subst pick_block.simps) (simp add: some d'(1) Let_def)
  then show ?thesis
    using start d'(2,3) by blast
qed


lemma listeners_ok_clients [simp]: "listeners_ok (d\<lparr>clients := cs\<rparr>) = listeners_ok d"
  by (simp add: listeners_ok_def listener_set_def conflicts_def source_client_def)

lemma insert_block_ok: "listeners_ok d \<Longrightarrow> listeners_ok (snd (insert_block cid k now ports d))"
proof (induction ports arbitrary: d)
  case (Cons port ports)
  show ?case
  proof (cases "insert_relay_port cid k port now d")
    case (Inl e)
    then show ?thesis using delete_ports_ok [OF Cons.prems] by simp
  next
    case (Inr e)
    then show ?thesis using Cons.IH [OF insert_port_ok [OF Cons.prems Inr]] by simp
  qed
qed simp

lemma pick_block_ok:
  "listeners_ok d \<Longrightarrow> pick_block draw n cid k number now starts d = Inr d' \<Longrightarrow> listeners_ok d'"
proof (induction draw n cid k number now starts d rule: pick_block.induct)
  case (1 draw n cid k number now starts d)
  let ?ports = "port_block (starts ! (draw n mod length starts)) number"
  have ne: "starts \<noteq> []"
    using 1(3) by (auto simp: pick_block.simps)
  obtain b e where e: "insert_block cid k now ?ports d = (b, e)"
    by force
  then have ok: "listeners_ok e"
    using insert_block_ok [OF 1(2)] by (metis snd_conv)
  show ?case
  proof (cases b)
    case True
    then show ?thesis
      using 1(3) e ne ok by (subst (asm) pick_block.simps) (simp add: Let_def)
  next
    case False
    have "pick_block draw (Suc n) cid k number now (butlast (starts[draw n mod length starts := last starts])) e = Inr d'"
      using 1(3) e ne False by (subst (asm) pick_block.simps) (simp add: Let_def)
    then show ?thesis
      using 1(1) [OF ne refl e [symmetric] _ ok] False by simp
  qed
qed

lemma reserve_ports_ok:
  "listeners_ok d \<Longrightarrow> reserve_client_relay_ports draw cid k number now d = Inr d' \<Longrightarrow> listeners_ok d'"
  by (auto simp: reserve_client_relay_ports_def split: if_splits intro: pick_block_ok)

lemma update_port_count_ok:
  assumes "listeners_ok d" "update_client_relay_port_count draw now cid number d = Inr d'"
  shows "listeners_ok d'"
proof -
  have r: "listeners_ok (e\<lparr>clients := cs\<rparr>)" if "reserve_client_relay_ports draw cid k number now (delete_relay_ports cid d) = Inr e" for k e cs
    using reserve_ports_ok [OF delete_ports_ok [OF assms(1)] that] by simp
  show ?thesis
    using assms(2) unfolding update_client_relay_port_count_def
    by (simp split: if_splits option.splits sum.splits) (use assms(1) r in metis)+
qed

section \<open>Every sequence of writes\<close>

datatype listener_event =
    Insert_proxy proxy_row
  | Update_proxy id64 "proxy_row \<Rightarrow> proxy_row"
  | Delete_proxy id64
  | Insert_relay relay_row
  | Update_relay id64 "relay_row \<Rightarrow> relay_row"
  | Delete_relay id64
  | Insert_port id64 id64 int unix_time
  | Delete_ports id64
  | Allocate_ports "nat \<Rightarrow> nat" unix_time id64 int

definition kept :: "panel_db \<Rightarrow> 'e + panel_db \<Rightarrow> panel_db" where
  "kept d r = (case r of Inl _ \<Rightarrow> d | Inr d' \<Rightarrow> d')"

fun listener_step :: "listener_event \<Rightarrow> panel_db \<Rightarrow> panel_db" where
  "listener_step (Insert_proxy p) d = kept d (insert_proxy_row p d)"
| "listener_step (Update_proxy pid f) d = kept d (update_proxy_row pid (\<lambda>p. (f p)\<lparr>prx_id := prx_id p\<rparr>) d)"
| "listener_step (Delete_proxy pid) d = delete_proxy_row pid d"
| "listener_step (Insert_relay r) d = kept d (insert_relay_row r d)"
| "listener_step (Update_relay rid f) d = kept d (update_relay_row rid (\<lambda>r. (f r)\<lparr>rel_id := rel_id r\<rparr>) d)"
| "listener_step (Delete_relay rid) d = delete_relay_row rid d"
| "listener_step (Insert_port cid k port now) d = kept d (insert_relay_port cid k port now d)"
| "listener_step (Delete_ports cid) d = delete_relay_ports cid d"
| "listener_step (Allocate_ports draw now cid number) d = kept d (update_client_relay_port_count draw now cid number d)"

lemma kept_ok: "listeners_ok d \<Longrightarrow> (\<And>d'. r = Inr d' \<Longrightarrow> listeners_ok d') \<Longrightarrow> listeners_ok (kept d r)"
  by (cases r) (simp_all add: kept_def)

lemma listener_step_ok: "listeners_ok d \<Longrightarrow> listeners_ok (listener_step ev d)"
proof (cases ev)
  case (Update_proxy pid f)
  assume ok: "listeners_ok d"
  show ?thesis
    unfolding Update_proxy listener_step.simps by (rule kept_ok [OF ok]) (erule update_proxy_ok [OF ok], simp)
next
  case (Update_relay rid f)
  assume ok: "listeners_ok d"
  show ?thesis
    unfolding Update_relay listener_step.simps by (rule kept_ok [OF ok]) (erule update_relay_ok [OF ok], simp)
qed (simp_all, auto intro: kept_ok insert_proxy_ok insert_relay_ok insert_port_ok delete_proxy_ok delete_relay_ok delete_ports_ok
      update_port_count_ok)

lemma listener_run_ok: "listeners_ok d \<Longrightarrow> listeners_ok (fold listener_step evs d)"
  by (induction evs arbitrary: d) (simp_all add: listener_step_ok)

lemma empty_listeners_ok: "proxies d = [] \<Longrightarrow> relays d = [] \<Longrightarrow> relay_ports d = [] \<Longrightarrow> reservations d = [] \<Longrightarrow> listeners_ok d"
  by (simp add: listeners_ok_def listener_set_def)

text \<open>
  C1. Whatever proxies, relays and relay ports are added, changed and removed, from a database without any, the
  reservations are exactly the listeners of these three tables, once each, and no two listeners share a port of a
  server with overlapping networks; the one exception is a relay on a relay port of its own source client.
\<close>

theorem listeners_never_collide:
  assumes "proxies d = []" "relays d = []" "relay_ports d = []" "reservations d = []"
  shows "let e = fold listener_step evs d in
    mset (map listen_key (reservations e)) =
      mset (map proxy_key (proxies e)) + mset (map relay_key (relays e)) + mset (map port_key (relay_ports e)) \<and>
    (\<forall>v \<in> set (reservations e). \<forall>w \<in> set (reservations e).
      res_id v \<noteq> res_id w \<and> res_server_id v = res_server_id w \<and> res_port v = res_port w \<and>
      (res_network v = ''both'' \<or> res_network w = ''both'' \<or> res_network v = res_network w) \<longrightarrow>
      (res_type v = ''relay'' \<and> res_type w = ''client_relay'' \<and> source_client e (res_resource_id v) = res_resource_id w) \<or>
      (res_type w = ''relay'' \<and> res_type v = ''client_relay'' \<and> source_client e (res_resource_id w) = res_resource_id v))"
proof -
  let ?e = "fold listener_step evs d"
  have ok: "listeners_ok ?e"
    by (rule listener_run_ok) (rule empty_listeners_ok [OF assms])
  have keys: "mset (map listen_key (reservations ?e)) = listener_set ?e"
    using ok by (simp add: listeners_ok_def)
  have free: "\<not> conflicts ?e v w" if "v \<in> set (reservations ?e)" "w \<in> set (reservations ?e)" "res_id v \<noteq> res_id w" for v w
    using ok that unfolding listeners_ok_def by blast
  show ?thesis
    unfolding Let_def
  proof (intro conjI ballI impI)
    show "mset (map listen_key (reservations ?e)) =
        mset (map proxy_key (proxies ?e)) + mset (map relay_key (relays ?e)) + mset (map port_key (relay_ports ?e))"
      using keys unfolding listener_set_def .
    fix v w
    assume v: "v \<in> set (reservations ?e)" "w \<in> set (reservations ?e)"
      and c: "res_id v \<noteq> res_id w \<and> res_server_id v = res_server_id w \<and> res_port v = res_port w \<and>
        (res_network v = ''both'' \<or> res_network w = ''both'' \<or> res_network v = res_network w)"
    show "(res_type v = ''relay'' \<and> res_type w = ''client_relay'' \<and> source_client ?e (res_resource_id v) = res_resource_id w) \<or>
        (res_type w = ''relay'' \<and> res_type v = ''client_relay'' \<and> source_client ?e (res_resource_id w) = res_resource_id v)"
      using free [OF v] c unfolding conflicts_def by auto
  qed
qed


definition relay_events :: "listener_event list" where
  "relay_events =
     (let p = \<lparr>prx_id = 0, prx_server_id = 1, prx_listen_port = 443, prx_enabled = True, prx_name = ''p'', prx_protocol = ''vless'',
          prx_created_at = 0, prx_family = ''ipv4'', prx_entry_mode = ''auto'', prx_entry_host = [], prx_config = ''{}'', prx_role = ''admin''\<rparr>
      in [Insert_proxy p, Insert_proxy p, Insert_port 7 1 20000 0, Delete_proxy 1])"

theorem listeners_never_collide_witness:
  "proxies empty_db = [] \<and> relays empty_db = [] \<and> relay_ports empty_db = [] \<and> reservations empty_db = [] \<and>
    mset (map listen_key (reservations (fold listener_step relay_events empty_db))) =
      mset (map proxy_key (proxies (fold listener_step relay_events empty_db))) +
      mset (map relay_key (relays (fold listener_step relay_events empty_db))) +
      mset (map port_key (relay_ports (fold listener_step relay_events empty_db)))"
  using listeners_never_collide [of empty_db relay_events] by (simp add: empty_db_def Let_def)

text \<open>
  C24. A client without relay ports gets the number it asks for as one block of consecutive ports of the pool, whatever
  the draws, and nobody else has a listener on any of them; the allocation fails only when the server has no such block.
\<close>

theorem relay_port_allocation:
  assumes "listeners_ok d" "\<forall>q \<in> set (relay_ports d). crp_client_id q \<noteq> cid" "1 \<le> number" "number \<le> 5"
  shows "let free = (\<lambda>start. 20000 \<le> start \<and> start + number - 1 \<le> 29999 \<and>
      (\<forall>port \<in> {start..start + number - 1}. \<not> reserved k port d)) in
    case reserve_client_relay_ports draw cid k number now d of
      Inl e \<Rightarrow> e = ErrRelayPortsUnavailable \<and> (\<forall>start. \<not> free start)
    | Inr d' \<Rightarrow> \<exists>start. free start \<and> listeners_ok d' \<and>
        relay_ports d' = relay_ports d @ map (port_row cid k now) [start..start + number - 1]"
proof -
  let ?free = "\<lambda>start. 20000 \<le> start \<and> start + number - 1 \<le> 29999 \<and>
      (\<forall>port \<in> {start..start + number - 1}. \<not> reserved k port d)"
  have starts: "start \<in> set (free_starts k number d) \<longleftrightarrow> ?free start" for start
    unfolding free_starts_iff by auto
  have run: "reserve_client_relay_ports draw cid k number now d = pick_block draw 0 cid k number now (free_starts k number d) d"
    using assms(3,4) by (simp add: reserve_client_relay_ports_def max_client_relay_ports_def)
  show ?thesis
  proof (cases "free_starts k number d = []")
    case True
    then have "\<not> ?free start" for start
      using starts [of start] by simp
    then show ?thesis
      unfolding Let_def run by (simp add: True pick_block.simps)
  next
    case False
    then obtain start d' where "start \<in> set (free_starts k number d)"
        "pick_block draw 0 cid k number now (free_starts k number d) d = Inr d'" "listeners_ok d'"
        "relay_ports d' = relay_ports d @ map (port_row cid k now) (port_block start number)"
      using pick_free_block [OF assms(1,2) False] by blast
    then show ?thesis
      unfolding Let_def run starts port_block_def by (simp only: sum.case) blast
  qed
qed

theorem relay_port_allocation_witness:
  "listeners_ok empty_db \<and> (\<exists>d'. reserve_client_relay_ports (\<lambda>_. 0) 1 1 2 0 empty_db = Inr d' \<and> length (relay_ports d') = 2)"
proof -
  have ok: "listeners_ok empty_db"
    by (rule empty_listeners_ok) (simp_all add: empty_db_def)
  have none: "\<not> reserved 1 port empty_db" "relay_ports empty_db = []" for port
    by (simp_all add: reserved_def empty_db_def)
  have all: "let free = (\<lambda>start. 20000 \<le> start \<and> start + 2 - 1 \<le> 29999 \<and>
      (\<forall>port \<in> {start..start + 2 - 1}. \<not> reserved 1 port empty_db)) in
    case reserve_client_relay_ports (\<lambda>_. 0) 1 1 2 0 empty_db of
      Inl e \<Rightarrow> e = ErrRelayPortsUnavailable \<and> (\<forall>start. \<not> free start)
    | Inr d' \<Rightarrow> \<exists>start. free start \<and> listeners_ok d' \<and>
        relay_ports d' = relay_ports empty_db @ map (port_row 1 1 0) [start..start + 2 - 1]"
    by (rule relay_port_allocation [OF ok, where cid = 1 and number = 2 and k = 1 and draw = "\<lambda>_. 0" and now = 0]) (simp_all add: none)
  show ?thesis
  proof (cases "reserve_client_relay_ports (\<lambda>_. 0) 1 1 2 0 empty_db")
    case (Inl e)
    have "\<forall>start. \<not> (20000 \<le> start \<and> start + 2 - 1 \<le> (29999 :: int))"
      using all unfolding Let_def Inl sum.case by (simp add: none)
    then show ?thesis
      by (elim allE [where x = 20000]) simp
  next
    case (Inr d')
    then show ?thesis
      using all ok unfolding Let_def Inr sum.case by (auto simp: none)
  qed
qed

section \<open>The check of the code and the trigger\<close>

text \<open>The law the code relies on: \<open>strings.ToLower\<close> of ASCII text lowers the letters \<open>A\<close> to \<open>Z\<close>.\<close>

definition lower_ok :: "(string \<Rightarrow> string) \<Rightarrow> bool" where
  "lower_ok lower \<longleftrightarrow> (\<forall>s. (\<forall>c \<in> set s. (of_char c :: nat) < 128) \<longrightarrow> lower s = map ascii_low s)"

lemma networks_of:
  assumes "lower_ok lower"
  shows "normalize_network lower ''tcp'' = Some ''tcp''" "normalize_network lower ''udp'' = Some ''udp''"
    "normalize_network lower ''both'' = Some ''both''" "normalize_network lower ''tcp,udp'' = Some ''both''"
proof -
  have t: "without_spaces ''tcp'' = ''tcp''" "without_spaces ''udp'' = ''udp''" "without_spaces ''both'' = ''both''"
    "without_spaces ''tcp,udp'' = ''tcp,udp''"
    by code_simp+
  have a: "map ascii_low ''tcp'' = ''tcp''" "map ascii_low ''udp'' = ''udp''" "map ascii_low ''both'' = ''both''"
    "map ascii_low ''tcp,udp'' = ''tcp,udp''"
    by code_simp+
  have c: "\<forall>c \<in> set ''tcp''. (of_char c :: nat) < 128" "\<forall>c \<in> set ''udp''. (of_char c :: nat) < 128"
    "\<forall>c \<in> set ''both''. (of_char c :: nat) < 128" "\<forall>c \<in> set ''tcp,udp''. (of_char c :: nat) < 128"
    by code_simp+
  have l: "lower ''tcp'' = ''tcp''" "lower ''udp'' = ''udp''" "lower ''both'' = ''both''" "lower ''tcp,udp'' = ''tcp,udp''"
    using assms c a unfolding lower_ok_def by metis+
  show "normalize_network lower ''tcp'' = Some ''tcp''" "normalize_network lower ''udp'' = Some ''udp''"
    "normalize_network lower ''both'' = Some ''both''" "normalize_network lower ''tcp,udp'' = Some ''both''"
    by (simp_all add: normalize_network_def t l)
qed

lemma stored_networks_overlap:
  assumes "lower_ok lower" "n = ''tcp'' \<or> n = ''udp'' \<or> n = ''both''" "m = ''tcp'' \<or> m = ''udp'' \<or> m = ''both''"
  shows "networks_overlap lower n m \<longleftrightarrow> n = ''both'' \<or> m = ''both'' \<or> n = m"
proof -
  have "normalize_network lower x = Some x" if "x = ''tcp'' \<or> x = ''udp'' \<or> x = ''both''" for x
    using that networks_of(1-3) [OF assms(1)] by (elim disjE) (simp only:)+
  then show ?thesis
    using assms(2,3) by (simp only: networks_overlap_def prod.case option.case)
qed

text \<open>The rows a check counts as taken are those that conflict with the listener \<open>v\<close> in the trigger.\<close>

lemma blocks_iff_conflicts:
  assumes low: "lower_ok lower" and net: "res_network v = ''tcp'' \<or> res_network v = ''udp'' \<or> res_network v = ''both''"
    and w: "reservation_check w" "res_type w = ''client_relay'' \<Longrightarrow> 0 < res_resource_id w"
    and kind: "res_type v = avl_type opts \<and> avl_id opts = res_resource_id v \<or> (\<not> (res_type w = avl_type opts \<and> res_resource_id w = avl_id opts))"
    and other: "\<not> (res_type w = res_type v \<and> res_resource_id w = res_resource_id v)"
    and src: "if res_type v = ''relay'' then source_client e (res_resource_id v) = (case avl_client opts of None \<Rightarrow> -1 | Some c \<Rightarrow> c)
      else res_type v = ''proxy'' \<and> avl_client opts = None"
  shows "conflicts e v w \<longleftrightarrow> res_server_id w = res_server_id v \<and> res_port w = res_port v \<and> blocks lower (res_network v) opts w"
proof -
  have n: "networks_overlap lower (res_network v) (res_network w) \<longleftrightarrow>
      res_network v = ''both'' \<or> res_network w = ''both'' \<or> res_network v = res_network w"
    using stored_networks_overlap [OF low net] w(1) unfolding reservation_check_def by blast
  have x: "\<not> (res_type w = avl_type opts \<and> res_resource_id w = avl_id opts)"
    using kind other by metis
  show ?thesis
  proof (cases "res_type v = ''relay''")
    case True
    then have "source_client e (res_resource_id v) = (case avl_client opts of None \<Rightarrow> -1 | Some c \<Rightarrow> c)"
      using src by simp
    then have "(res_type w = ''client_relay'' \<and> source_client e (res_resource_id v) = res_resource_id w) \<longleftrightarrow>
        (res_type w = ''client_relay'' \<and> avl_client opts = Some (res_resource_id w))"
      using w(2) by (cases "avl_client opts") auto
    then show ?thesis
      using n x True unfolding conflicts_def blocks_def by auto
  next
    case False
    then show ?thesis
      using n x src unfolding conflicts_def blocks_def by auto
  qed
qed

definition ids_positive :: "panel_db \<Rightarrow> bool" where
  "ids_positive d \<longleftrightarrow> 0 \<le> proxies_seq d \<and> 0 \<le> relays_seq d \<and> (\<forall>p \<in> set (proxies d). 0 < prx_id p) \<and>
     (\<forall>r \<in> set (relays d). 0 < rel_id r) \<and> (\<forall>q \<in> set (relay_ports d). 0 < crp_client_id q)"

lemma reserved_resource:
  assumes "listeners_ok d" "w \<in> set (reservations d)"
  shows "(\<exists>p \<in> set (proxies d). res_type w = ''proxy'' \<and> res_resource_id w = prx_id p) \<or>
    (\<exists>r \<in> set (relays d). res_type w = ''relay'' \<and> res_resource_id w = rel_id r) \<or>
    (\<exists>q \<in> set (relay_ports d). res_type w = ''client_relay'' \<and> res_resource_id w = crp_client_id q)"
proof -
  have m: "mset (map listen_key (reservations d)) = listener_set d"
    using assms(1) by (simp add: listeners_ok_def)
  have "listen_key w \<in> proxy_key ` set (proxies d) \<union> relay_key ` set (relays d) \<union> port_key ` set (relay_ports d)"
    unfolding set_keys [OF m, symmetric] using assms(2) by simp
  then show ?thesis
    by (auto simp: listen_key_def proxy_key_def relay_key_def port_key_def)
qed

lemma reserved_positive:
  assumes "listeners_ok d" "ids_positive d" "w \<in> set (reservations d)"
  shows "0 < res_resource_id w" "res_type w = ''proxy'' \<Longrightarrow> res_resource_id w \<le> proxies_seq d"
    "res_type w = ''relay'' \<Longrightarrow> res_resource_id w \<le> relays_seq d"
  using reserved_resource [OF assms(1,3)] assms(1,2) unfolding listeners_ok_def ids_positive_def by auto

text \<open>An insert of a new listener succeeds exactly when the check finds no reservation in its way.\<close>

lemma check_iff_insert:
  assumes ok: "listeners_ok d" and pos: "ids_positive d" and low: "lower_ok lower"
    and same: "reservations e = reservations d" "reservations_seq e = reservations_seq d"
    and norm: "normalize_network lower net0 = Some net" "net = ''tcp'' \<or> net = ''udp'' \<or> net = ''both''"
    and port: "1 \<le> port" "port \<le> 65535"
    and fresh: "kind = ''proxy'' \<and> proxies_seq d < rid \<or> kind = ''relay'' \<and> relays_seq d < rid"
    and opts: "avl_id opts = 0"
    and src: "if kind = ''relay'' then source_client e rid = (case avl_client opts of None \<Rightarrow> -1 | Some c \<Rightarrow> c)
      else avl_client opts = None"
  shows "listener_available lower k port net0 opts d = None \<longleftrightarrow> (\<exists>d'. insert_reservation k kind rid port net t e = Inr d')"
proof -
  let ?v = "\<lparr>res_id = reservations_seq e + 1, res_server_id = k, res_type = kind, res_resource_id = rid, res_port = port,
      res_network = net, res_created_at = t\<rparr>"
  have new: "\<not> (res_type w = kind \<and> res_resource_id w = rid)" if "w \<in> set (reservations d)" for w
    using reserved_positive(2,3) [OF ok pos that] fresh by auto
  have "conflicts e ?v w \<longleftrightarrow> res_server_id w = k \<and> res_port w = port \<and> blocks lower net opts w" if w: "w \<in> set (reservations d)" for w
  proof -
    have "reservation_check w"
      using ok w unfolding listeners_ok_def by blast
    then have "conflicts e ?v w \<longleftrightarrow> res_server_id w = res_server_id ?v \<and> res_port w = res_port ?v \<and> blocks lower (res_network ?v) opts w"
      using reserved_positive(1) [OF ok pos w] new [OF w] norm(2) opts src fresh
      by (intro blocks_iff_conflicts [OF low]) auto
    then show ?thesis by simp
  qed
  then have "sql_exists (conflicts e ?v) (reservations e) \<longleftrightarrow>
      sql_exists (\<lambda>w. res_server_id w = k \<and> res_port w = port \<and> blocks lower net opts w) (reservations d)"
    by (simp add: sql_exists_iff same)
  moreover have "reservation_check ?v"
    using port norm(2) fresh by (auto simp: reservation_check_def)
  moreover have "\<not> sql_exists (same_key ?v) (reservations e)"
    using new by (auto simp: sql_exists_iff same same_key_def)
  ultimately show ?thesis
    by (simp add: listener_available_def norm(1) insert_reservation_def Let_def)
qed


lemma check_iff_update:
  assumes ok: "listeners_ok d" and pos: "ids_positive d" and low: "lower_ok lower"
    and same: "reservations e = reservations d"
    and norm: "normalize_network lower net0 = Some net" "net = ''tcp'' \<or> net = ''udp'' \<or> net = ''both''"
    and port: "1 \<le> port" "port \<le> 65535"
    and kind: "kind = ''proxy'' \<or> kind = ''relay''" and own: "\<exists>v \<in> set (reservations d). res_type v = kind \<and> res_resource_id v = rid"
    and opts: "avl_type opts = kind" "avl_id opts = rid"
    and src: "if kind = ''relay'' then source_client e rid = (case avl_client opts of None \<Rightarrow> -1 | Some c \<Rightarrow> c)
      else avl_client opts = None"
  shows "listener_available lower k port net0 opts d = None \<longleftrightarrow> (\<exists>d'. update_reservation kind rid k port net e = Inr d')"
proof -
  let ?f = "\<lambda>v. v\<lparr>res_server_id := k, res_port := port, res_network := net\<rparr>"
  let ?mine = "\<lambda>v. res_type v = kind \<and> res_resource_id v = rid"
  obtain v where v: "v \<in> set (reservations d)" "res_type v = kind" "res_resource_id v = rid"
    using own by blast
  have chk: "reservation_check w" if "w \<in> set (reservations d)" for w
    using ok that unfolding listeners_ok_def by blast
  have mine: "?mine w \<longleftrightarrow> res_id w = res_id v" if w: "w \<in> set (reservations d)" for w
  proof
    show "res_id w = res_id v" if "?mine w"
      using one_reservation [OF ok kind w _ _ v(1)] that v by blast
    show "?mine w" if i: "res_id w = res_id v"
    proof -
      have "distinct (map res_id (reservations d))"
        using ok unfolding listeners_ok_def by blast
      then have "w = v"
        using w v(1) i by (metis (mono_tags) distinct_map inj_onD)
      then show ?thesis using v by simp
    qed
  qed
  have iff: "conflicts e (?f x) w \<longleftrightarrow> res_server_id w = k \<and> res_port w = port \<and> blocks lower net opts w"
    if x: "x \<in> set (reservations d)" "?mine x" and w: "w \<in> set (reservations d)" "\<not> ?mine w" for x w
  proof -
    have "conflicts e (?f x) w \<longleftrightarrow> res_server_id w = res_server_id (?f x) \<and> res_port w = res_port (?f x) \<and> blocks lower (res_network (?f x)) opts w"
      using reserved_positive(1) [OF ok pos w(1)] chk [OF w(1)] norm(2) opts src x w(2) kind
      by (intro blocks_iff_conflicts [OF low]) auto
    then show ?thesis by simp
  qed
  have own_free: "\<not> blocks lower net opts w" if "?mine w" for w
    using that opts by (simp add: blocks_def)
  have "sql_exists (\<lambda>x. ?mine x \<and> sql_exists (\<lambda>w. res_id w \<noteq> res_id x \<and> conflicts e (?f x) w) (reservations e)) (reservations e) \<longleftrightarrow>
      sql_exists (\<lambda>w. res_server_id w = k \<and> res_port w = port \<and> blocks lower net opts w) (reservations d)"
    unfolding sql_exists_iff same using v mine iff own_free by metis
  moreover have "\<not> sql_exists (\<lambda>x. ?mine x \<and> \<not> reservation_check (?f x)) (reservations e)"
    using chk port norm(2) unfolding sql_exists_iff same by (auto simp: reservation_check_def)
  ultimately show ?thesis
    by (simp add: listener_available_def norm(1) update_reservation_def Let_def)
qed

lemma network_of_proxy:
  assumes "lower_ok lower"
  shows "normalize_network lower (if protocol = ''shadowsocks'' then ''tcp,udp'' else ''tcp'') = Some (proxy_network protocol)"
    "proxy_network protocol = ''tcp'' \<or> proxy_network protocol = ''udp'' \<or> proxy_network protocol = ''both''"
  using networks_of [OF assms] by (simp_all add: proxy_network_def)

lemma network_of_relay:
  assumes "lower_ok lower" "n = ''tcp'' \<or> n = ''udp'' \<or> n = ''tcp,udp''"
  shows "normalize_network lower n = Some (relay_network n)"
    "relay_network n = ''tcp'' \<or> relay_network n = ''udp'' \<or> relay_network n = ''both''"
  using assms(2) networks_of [OF assms(1)] by (auto simp: relay_network_def)

lemma own_reservation:
  assumes ok: "listeners_ok d"
  shows "p \<in> set (proxies d) \<Longrightarrow> \<exists>v \<in> set (reservations d). res_type v = ''proxy'' \<and> res_resource_id v = prx_id p"
    "r \<in> set (relays d) \<Longrightarrow> \<exists>v \<in> set (reservations d). res_type v = ''relay'' \<and> res_resource_id v = rel_id r"
proof -
  have m: "mset (map listen_key (reservations d)) = listener_set d"
    using ok by (simp add: listeners_ok_def)
  have "proxy_key p \<in> listen_key ` set (reservations d)" if "p \<in> set (proxies d)"
    unfolding set_keys [OF m] using that by simp
  then show "p \<in> set (proxies d) \<Longrightarrow> \<exists>v \<in> set (reservations d). res_type v = ''proxy'' \<and> res_resource_id v = prx_id p"
    by (force simp: proxy_key_def listen_key_def)
  have "relay_key r \<in> listen_key ` set (reservations d)" if "r \<in> set (relays d)"
    unfolding set_keys [OF m] using that by simp
  then show "r \<in> set (relays d) \<Longrightarrow> \<exists>v \<in> set (reservations d). res_type v = ''relay'' \<and> res_resource_id v = rel_id r"
    by (force simp: relay_key_def listen_key_def)
qed

lemma check_iff_new_proxy:
  assumes "listeners_ok d" "ids_positive d" "lower_ok lower" "1 \<le> prx_listen_port p" "prx_listen_port p \<le> 65535"
  shows "proxy_port_available lower (prx_server_id p) (prx_listen_port p) (prx_protocol p) None d = None \<longleftrightarrow>
    (\<exists>d'. insert_proxy_row p d = Inr d')"
  unfolding proxy_port_available_def insert_proxy_row_def Let_def option.case
  by (subst check_iff_insert [OF assms(1-3), where e = "d\<lparr>proxies := proxies d @ [p\<lparr>prx_id := proxies_seq d + 1\<rparr>],
        proxies_seq := proxies_seq d + 1\<rparr>" and kind = "''proxy''" and rid = "proxies_seq d + 1" and t = "prx_created_at p",
        OF _ _ network_of_proxy [OF assms(3)] assms(4,5)]) simp_all

lemma check_iff_new_relay:
  assumes "listeners_ok d" "ids_positive d" "lower_ok lower" "1 \<le> rel_listen_port r" "rel_listen_port r \<le> 65535"
    "rel_network r = ''tcp'' \<or> rel_network r = ''udp'' \<or> rel_network r = ''tcp,udp''"
  shows "listener_available lower (rel_server_id r) (rel_listen_port r) (rel_network r)
      \<lparr>avl_type = ''relay'', avl_id = 0, avl_client = rel_source_client r\<rparr> d = None \<longleftrightarrow>
    (\<exists>d'. insert_relay_row r d = Inr d')"
proof -
  let ?r = "r\<lparr>rel_id := relays_seq d + 1\<rparr>"
  let ?e = "d\<lparr>relays := relays d @ [?r], relays_seq := relays_seq d + 1\<rparr>"
  have "sql_first (\<lambda>x. rel_id x = relays_seq d + 1) (relays d) = None"
    using assms(1) by (force simp: sql_first_None_iff listeners_ok_def)
  then have "source_client ?e (relays_seq d + 1) = (case rel_source_client r of None \<Rightarrow> -1 | Some c \<Rightarrow> c)"
    unfolding source_client_def by (simp add: sql_first_append) (simp add: sql_first_def)
  then show ?thesis
    unfolding insert_relay_row_def Let_def
    by (subst check_iff_insert [OF assms(1-3), where e = ?e, OF _ _ network_of_relay [OF assms(3,6)] assms(4,5)]) simp_all
qed


lemma check_iff_changed_proxy:
  assumes "listeners_ok d" "ids_positive d" "lower_ok lower" and p: "sql_first (\<lambda>p. prx_id p = pid) (proxies d) = Some p"
    and f: "1 \<le> prx_listen_port (f p)" "prx_listen_port (f p) \<le> 65535"
  shows "proxy_port_available lower (prx_server_id (f p)) (prx_listen_port (f p)) (prx_protocol (f p)) (Some pid) d = None \<longleftrightarrow>
    (\<exists>d'. update_proxy_row pid f d = Inr d')"
proof -
  have own: "\<exists>v \<in> set (reservations d). res_type v = ''proxy'' \<and> res_resource_id v = pid"
    using own_reservation(1) [OF assms(1), of p] sql_first_SomeD [OF p] by blast
  show ?thesis
    unfolding proxy_port_available_def update_proxy_row_def p option.case
    by (subst check_iff_update [OF assms(1-3), where e = "d\<lparr>proxies := sql_update (\<lambda>p. prx_id p = pid) f (proxies d)\<rparr>" and
          kind = "''proxy''" and rid = pid, OF _ network_of_proxy [OF assms(3)] f]) (use own in simp_all)
qed

lemma check_iff_changed_relay:
  assumes "listeners_ok d" "ids_positive d" "lower_ok lower" and r: "sql_first (\<lambda>r. rel_id r = rid) (relays d) = Some r"
    and f: "1 \<le> rel_listen_port (f r)" "rel_listen_port (f r) \<le> 65535"
      "rel_network (f r) = ''tcp'' \<or> rel_network (f r) = ''udp'' \<or> rel_network (f r) = ''tcp,udp''"
      "\<And>x. rel_id (f x) = rel_id x"
  shows "listener_available lower (rel_server_id (f r)) (rel_listen_port (f r)) (rel_network (f r))
      \<lparr>avl_type = ''relay'', avl_id = rid, avl_client = rel_source_client (f r)\<rparr> d = None \<longleftrightarrow>
    (\<exists>d'. update_relay_row rid f d = Inr d')"
proof -
  let ?e = "d\<lparr>relays := sql_update (\<lambda>r. rel_id r = rid) f (relays d)\<rparr>"
  have own: "\<exists>v \<in> set (reservations d). res_type v = ''relay'' \<and> res_resource_id v = rid"
    using own_reservation(2) [OF assms(1), of r] sql_first_SomeD [OF r] by blast
  have "sql_first (\<lambda>r. rel_id r = rid) (sql_update (\<lambda>r. rel_id r = rid) f (relays d)) = Some (f r)"
    using r by (subst sql_first_update_same) (simp_all add: f(4))
  then have "source_client ?e rid = (case rel_source_client (f r) of None \<Rightarrow> -1 | Some c \<Rightarrow> c)"
    by (simp add: source_client_def)
  then show ?thesis
    unfolding update_relay_row_def r option.case
    by (subst check_iff_update [OF assms(1-3), where e = ?e and kind = "''relay''" and rid = rid,
          OF _ network_of_relay [OF assms(3) f(3)] f(1,2)]) (use own in simp_all)
qed

lemma sql_first_key_hit:
  assumes "k \<in> key ` set t"
  shows "\<exists>r. sql_first (\<lambda>x. key x = k) t = Some r"
proof (cases "sql_first (\<lambda>x. key x = k) t")
  case None
  obtain y where "y \<in> set t" "key y = k"
    using assms by (rule imageE) simp
  then show ?thesis
    using sql_first_NoneD [OF None] by blast
qed simp

text \<open>
  C23. The check the code makes before it writes and the trigger that guards the write agree: creating or changing
  a proxy or a relay passes \<open>ListenerAvailable\<close> exactly when the statement and its triggers succeed.
\<close>

theorem listener_check_agrees_with_trigger:
  assumes "listeners_ok d" "ids_positive d" "lower_ok lower"
    and p: "1 \<le> prx_listen_port p" "prx_listen_port p \<le> 65535"
    and r: "1 \<le> rel_listen_port r" "rel_listen_port r \<le> 65535" "rel_network r = ''tcp'' \<or> rel_network r = ''udp'' \<or> rel_network r = ''tcp,udp''"
  shows "(proxy_port_available lower (prx_server_id p) (prx_listen_port p) (prx_protocol p) None d = None \<longleftrightarrow>
      (\<exists>d'. insert_proxy_row p d = Inr d')) \<and>
    (prx_id p \<in> prx_id ` set (proxies d) \<longrightarrow>
      (proxy_port_available lower (prx_server_id p) (prx_listen_port p) (prx_protocol p) (Some (prx_id p)) d = None \<longleftrightarrow>
        (\<exists>d'. update_proxy_row (prx_id p) (\<lambda>x. p\<lparr>prx_id := prx_id x\<rparr>) d = Inr d'))) \<and>
    (listener_available lower (rel_server_id r) (rel_listen_port r) (rel_network r)
        \<lparr>avl_type = ''relay'', avl_id = 0, avl_client = rel_source_client r\<rparr> d = None \<longleftrightarrow>
      (\<exists>d'. insert_relay_row r d = Inr d')) \<and>
    (rel_id r \<in> rel_id ` set (relays d) \<longrightarrow>
      (listener_available lower (rel_server_id r) (rel_listen_port r) (rel_network r)
          \<lparr>avl_type = ''relay'', avl_id = rel_id r, avl_client = rel_source_client r\<rparr> d = None \<longleftrightarrow>
        (\<exists>d'. update_relay_row (rel_id r) (\<lambda>x. r\<lparr>rel_id := rel_id x\<rparr>) d = Inr d')))"
proof (intro conjI impI)
  show "proxy_port_available lower (prx_server_id p) (prx_listen_port p) (prx_protocol p) None d = None \<longleftrightarrow> (\<exists>d'. insert_proxy_row p d = Inr d')"
    by (rule check_iff_new_proxy [OF assms(1-3) p])
  show "listener_available lower (rel_server_id r) (rel_listen_port r) (rel_network r)
      \<lparr>avl_type = ''relay'', avl_id = 0, avl_client = rel_source_client r\<rparr> d = None \<longleftrightarrow> (\<exists>d'. insert_relay_row r d = Inr d')"
    by (rule check_iff_new_relay [OF assms(1-3) r])
  show "proxy_port_available lower (prx_server_id p) (prx_listen_port p) (prx_protocol p) (Some (prx_id p)) d = None \<longleftrightarrow>
      (\<exists>d'. update_proxy_row (prx_id p) (\<lambda>x. p\<lparr>prx_id := prx_id x\<rparr>) d = Inr d')" if own: "prx_id p \<in> prx_id ` set (proxies d)"
  proof -
    obtain q where q: "sql_first (\<lambda>x. prx_id x = prx_id p) (proxies d) = Some q"
      using sql_first_key_hit [OF own] by blast
    show ?thesis
      using check_iff_changed_proxy [OF assms(1-3) q, of "\<lambda>x. p\<lparr>prx_id := prx_id x\<rparr>"] p by simp
  qed
  show "listener_available lower (rel_server_id r) (rel_listen_port r) (rel_network r)
          \<lparr>avl_type = ''relay'', avl_id = rel_id r, avl_client = rel_source_client r\<rparr> d = None \<longleftrightarrow>
        (\<exists>d'. update_relay_row (rel_id r) (\<lambda>x. r\<lparr>rel_id := rel_id x\<rparr>) d = Inr d')" if own: "rel_id r \<in> rel_id ` set (relays d)"
  proof -
    obtain q where q: "sql_first (\<lambda>x. rel_id x = rel_id r) (relays d) = Some q"
      using sql_first_key_hit [OF own] by blast
    show ?thesis
      using check_iff_changed_relay [OF assms(1-3) q, of "\<lambda>x. r\<lparr>rel_id := rel_id x\<rparr>"] r by simp
  qed
qed

definition demo_relay :: relay_row where
  "demo_relay = \<lparr>rel_id = 1, rel_server_id = 1, rel_owner = None, rel_source_client = None, rel_listen_port = 20000,
     rel_target_type = ''manual'', rel_target_proxy = None, rel_target_client = None, rel_target_landing = None,
     rel_network = ''tcp,udp'', rel_created_at = 0, rel_name = ''r'', rel_address = ''0.0.0.0'', rel_entry_mode = ''auto'',
     rel_entry_host = [], rel_target_host = ''example.com'', rel_target_port = Some 443, rel_enabled = True\<rparr>"

definition demo_proxy :: proxy_row where
  "demo_proxy = \<lparr>prx_id = 1, prx_server_id = 1, prx_listen_port = 443, prx_enabled = True, prx_name = ''p'', prx_protocol = ''vless'',
     prx_created_at = 0, prx_family = ''ipv4'', prx_entry_mode = ''auto'', prx_entry_host = [], prx_config = ''{}'', prx_role = ''admin''\<rparr>"

theorem listener_check_agrees_with_trigger_witness:
  "listeners_ok empty_db \<and> ids_positive empty_db \<and> lower_ok (map ascii_low) \<and>
    (listener_available (map ascii_low) 1 20000 ''tcp,udp'' \<lparr>avl_type = ''relay'', avl_id = 0, avl_client = None\<rparr> empty_db = None \<longleftrightarrow>
      (\<exists>d'. insert_relay_row demo_relay empty_db = Inr d'))"
proof -
  have ok: "listeners_ok empty_db"
    by (rule empty_listeners_ok) (simp_all add: empty_db_def)
  have pos: "ids_positive empty_db" "lower_ok (map ascii_low)"
    by (simp_all add: ids_positive_def empty_db_def lower_ok_def)
  show ?thesis
    using listener_check_agrees_with_trigger [OF ok pos, of demo_proxy demo_relay] ok pos
    by (simp add: demo_proxy_def demo_relay_def)
qed

end
